(* ===== verification/Prelude.thy ===== *)
theory Prelude
  imports Main "HOL-Library.Word"
begin

text \<open>
  Shared vocabulary of the development: the machine types of the Go code, the collections of
  rewrite rules that the component theories extend, and the generic facts on lists and options that
  they use.

  Go's \<open>int\<close> and \<open>time.Duration\<close> are 64-bit; where the code multiplies or converts them they are
  \<open>64 word\<close> and read with \<open>sint\<close>. A \<open>[]byte\<close> or \<open>string\<close> is a list of characters, one per byte.
  An instant (\<open>time.Time\<close>) is its number of nanoseconds since the epoch, and every call of
  \<open>time.Now()\<close> is an argument of the operation that makes it. A \<open>uuid.UUID\<close> is its 16 bytes.
\<close>

section \<open>Types\<close>

type_synonym go_int64 = "64 word"
type_synonym duration = go_int64
type_synonym time = int
type_synonym uuid = "128 word"
type_synonym bytes = string

abbreviation nanos_per_second :: int where
  "nanos_per_second \<equiv> 1000000000"

section \<open>Rule collections\<close>

named_theorems status_rules \<open>which status transitions the table of the state machine allows\<close>
named_theorems table_rules \<open>lookup after an update of a keyed table\<close>
named_theorems repo_unfold \<open>definitions of the repository operations\<close>
named_theorems queue_unfold \<open>definitions of the queue operations\<close>

section \<open>Results\<close>

text \<open>
  A Go function returning \<open>error\<close> returns an option: \<open>None\<close> is \<open>nil\<close>. A function returning a value
  and an error returns a sum whose left side is the error.
\<close>

abbreviation is_ok :: "'e option \<Rightarrow> bool" where
  "is_ok r \<equiv> r = None"

section \<open>Lists\<close>

lemma find_map_same:
  assumes "\<And>x. P (f x) = P x"
  shows "find P (map f xs) = map_option f (find P xs)"
  by (induction xs) (auto simp: assms)

lemma find_SomeD: "find P xs = Some x \<Longrightarrow> x \<in> set xs \<and> P x"
  by (induction xs) (auto split: if_splits)

lemma find_append: "find P (xs @ ys) = (case find P xs of None \<Rightarrow> find P ys | Some x \<Rightarrow> Some x)"
  by (induction xs) auto

lemma find_None_key: "find (\<lambda>r. key r = k) xs = None \<longleftrightarrow> k \<notin> key ` set xs"
  by (auto simp: find_None_iff)

lemma find_distinct_key:
  assumes "distinct (map key xs)" and "x \<in> set xs"
  shows "find (\<lambda>r. key r = key x) xs = Some x"
  using assms
proof (induction xs)
  case Nil
  then show ?case by simp
next
  case (Cons y ys)
  then show ?case by (cases "x = y") (auto simp: image_iff)
qed

lemma length_filter_le_1:
  assumes "distinct (map key xs)"
  shows "length (filter (\<lambda>r. key r = k \<and> P r) xs) \<le> 1"
  using assms
proof (induction xs)
  case Nil
  then show ?case by simp
next
  case (Cons y ys)
  have "key y = k \<Longrightarrow> filter (\<lambda>r. key r = k \<and> P r) ys = []"
    using Cons.prems by (auto simp: filter_empty_conv image_iff)
  then show ?case using Cons by auto
qed

end
