(* ===== verification/Json.thy ===== *)
theory Json
  imports GoLib
begin

text \<open>
  \<open>json.Valid\<close> of Go's \<open>encoding/json\<close>: the scanner of that package as an automaton over bytes, with
  its stack of open objects and arrays, its bound of 10000 on the depth of that stack, and the check
  at the end of the input. The API validates event payloads with it; the theories of the API and of
  the workers use it to say which of the texts the program builds by concatenation are JSON.
\<close>

section \<open>The scanner\<close>

datatype parse_state = ParseObjectKey | ParseObjectValue | ParseArrayValue

datatype scan_state =
    BeginValueOrEmpty | BeginValue | BeginStringOrEmpty | BeginString
  | EndValue | EndTop
  | InString | InStringEsc | InStringEscU | InStringEscU1 | InStringEscU12 | InStringEscU123
  | Neg | Digits | Zero | Dot | DotDigits | Exp | ExpSign | ExpDigits
  | T | Tr | Tru | F | Fa | Fal | Fals | N | Nu | Nul
  | ScanError

type_synonym scanner = "scan_state \<times> parse_state list"

definition maxNestingDepth :: nat where
  "maxNestingDepth = 10000"

definition isSpace :: "char \<Rightarrow> bool" where
  "isSpace c \<longleftrightarrow> c = CHR '' '' \<or> c = CHR 0x09 \<or> c = CHR 0x0D \<or> c = CHR 0x0A"

definition isDigit :: "char \<Rightarrow> bool" where
  "isDigit c \<longleftrightarrow> 48 \<le> (of_char c :: nat) \<and> (of_char c :: nat) \<le> 57"

definition isHex :: "char \<Rightarrow> bool" where
  "isHex c \<longleftrightarrow> isDigit c \<or> (97 \<le> (of_char c :: nat) \<and> (of_char c :: nat) \<le> 102)
                       \<or> (65 \<le> (of_char c :: nat) \<and> (of_char c :: nat) \<le> 70)"

definition scan_error :: scanner where
  "scan_error = (ScanError, [])"

definition push_state :: "scan_state \<Rightarrow> parse_state \<Rightarrow> parse_state list \<Rightarrow> scanner" where
  "push_state st p stk =
     (if length stk + 1 \<le> maxNestingDepth then (st, p # stk) else scan_error)"

definition pop_state :: "parse_state list \<Rightarrow> scanner" where
  "pop_state stk = (if stk = [] then (EndTop, []) else (EndValue, stk))"

definition end_top :: "char \<Rightarrow> scanner" where
  "end_top c = (if isSpace c then (EndTop, []) else scan_error)"

definition end_value :: "parse_state list \<Rightarrow> char \<Rightarrow> scanner" where
  "end_value stk c =
     (case stk of
        [] \<Rightarrow> end_top c
      | p # ps \<Rightarrow>
          if isSpace c then (EndValue, stk)
          else (case p of
                  ParseObjectKey \<Rightarrow>
                    if c = CHR '':'' then (BeginValue, ParseObjectValue # ps) else scan_error
                | ParseObjectValue \<Rightarrow>
                    if c = CHR '','' then (BeginString, ParseObjectKey # ps)
                    else if c = CHR ''}'' then pop_state ps else scan_error
                | ParseArrayValue \<Rightarrow>
                    if c = CHR '','' then (BeginValue, stk)
                    else if c = CHR '']'' then pop_state ps else scan_error))"

definition begin_value :: "parse_state list \<Rightarrow> char \<Rightarrow> scanner" where
  "begin_value stk c =
     (if isSpace c then (BeginValue, stk)
      else if c = CHR ''{'' then push_state BeginStringOrEmpty ParseObjectKey stk
      else if c = CHR ''['' then push_state BeginValueOrEmpty ParseArrayValue stk
      else if c = CHR 0x22 then (InString, stk)
      else if c = CHR ''-'' then (Neg, stk)
      else if c = CHR ''0'' then (Zero, stk)
      else if c = CHR ''t'' then (T, stk)
      else if c = CHR ''f'' then (F, stk)
      else if c = CHR ''n'' then (N, stk)
      else if isDigit c then (Digits, stk)
      else scan_error)"

definition begin_string :: "parse_state list \<Rightarrow> char \<Rightarrow> scanner" where
  "begin_string stk c =
     (if isSpace c then (BeginString, stk)
      else if c = CHR 0x22 then (InString, stk) else scan_error)"

definition state0 :: "parse_state list \<Rightarrow> char \<Rightarrow> scanner" where
  "state0 stk c =
     (if c = CHR ''.'' then (Dot, stk)
      else if c = CHR ''e'' \<or> c = CHR ''E'' then (Exp, stk)
      else end_value stk c)"

definition expect :: "bool \<Rightarrow> scan_state \<Rightarrow> parse_state list \<Rightarrow> scanner" where
  "expect ok st stk = (if ok then (st, stk) else scan_error)"

fun scan_step :: "scanner \<Rightarrow> char \<Rightarrow> scanner" where
  "scan_step (BeginValueOrEmpty, stk) c =
     (if isSpace c then (BeginValueOrEmpty, stk)
      else if c = CHR '']'' then end_value stk c else begin_value stk c)"
| "scan_step (BeginValue, stk) c = begin_value stk c"
| "scan_step (BeginStringOrEmpty, stk) c =
     (if isSpace c then (BeginStringOrEmpty, stk)
      else if c = CHR ''}'' then end_value (ParseObjectValue # tl stk) c
      else begin_string stk c)"
| "scan_step (BeginString, stk) c = begin_string stk c"
| "scan_step (EndValue, stk) c = end_value stk c"
| "scan_step (EndTop, stk) c = end_top c"
| "scan_step (InString, stk) c =
     (if c = CHR 0x22 then (EndValue, stk)
      else if c = CHR 0x5C then (InStringEsc, stk)
      else if (of_char c :: nat) < 32 then scan_error else (InString, stk))"
| "scan_step (InStringEsc, stk) c =
     (if c \<in> set ''bfnrt/'' \<or> c = CHR 0x5C \<or> c = CHR 0x22 then (InString, stk)
      else expect (c = CHR ''u'') InStringEscU stk)"
| "scan_step (InStringEscU, stk) c = expect (isHex c) InStringEscU1 stk"
| "scan_step (InStringEscU1, stk) c = expect (isHex c) InStringEscU12 stk"
| "scan_step (InStringEscU12, stk) c = expect (isHex c) InStringEscU123 stk"
| "scan_step (InStringEscU123, stk) c = expect (isHex c) InString stk"
| "scan_step (Neg, stk) c = (if c = CHR ''0'' then (Zero, stk) else expect (isDigit c) Digits stk)"
| "scan_step (Digits, stk) c = (if isDigit c then (Digits, stk) else state0 stk c)"
| "scan_step (Zero, stk) c = state0 stk c"
| "scan_step (Dot, stk) c = expect (isDigit c) DotDigits stk"
| "scan_step (DotDigits, stk) c =
     (if isDigit c then (DotDigits, stk)
      else if c = CHR ''e'' \<or> c = CHR ''E'' then (Exp, stk) else end_value stk c)"
| "scan_step (Exp, stk) c =
     (if c = CHR ''+'' \<or> c = CHR ''-'' then (ExpSign, stk) else expect (isDigit c) ExpDigits stk)"
| "scan_step (ExpSign, stk) c = expect (isDigit c) ExpDigits stk"
| "scan_step (ExpDigits, stk) c = (if isDigit c then (ExpDigits, stk) else end_value stk c)"
| "scan_step (T, stk) c = expect (c = CHR ''r'') Tr stk"
| "scan_step (Tr, stk) c = expect (c = CHR ''u'') Tru stk"
| "scan_step (Tru, stk) c = expect (c = CHR ''e'') EndValue stk"
| "scan_step (F, stk) c = expect (c = CHR ''a'') Fa stk"
| "scan_step (Fa, stk) c = expect (c = CHR ''l'') Fal stk"
| "scan_step (Fal, stk) c = expect (c = CHR ''s'') Fals stk"
| "scan_step (Fals, stk) c = expect (c = CHR ''e'') EndValue stk"
| "scan_step (N, stk) c = expect (c = CHR ''u'') Nu stk"
| "scan_step (Nu, stk) c = expect (c = CHR ''l'') Nul stk"
| "scan_step (Nul, stk) c = expect (c = CHR ''l'') EndValue stk"
| "scan_step (ScanError, stk) c = scan_error"

definition scan :: "scanner \<Rightarrow> bytes \<Rightarrow> scanner" where
  "scan = foldl scan_step"

definition scan_eof :: "scanner \<Rightarrow> bool" where
  "scan_eof s \<longleftrightarrow> fst s = EndTop \<or> fst (scan_step s CHR '' '') = EndTop"

definition json_Valid :: "bytes \<Rightarrow> bool" where
  "json_Valid data = scan_eof (scan (BeginValue, []) data)"

section \<open>Scanning pieces of text\<close>

lemma scan_Nil [simp]: "scan s [] = s"
  by (simp add: scan_def)

lemma scan_Cons [simp]: "scan s (c # cs) = scan (scan_step s c) cs"
  by (simp add: scan_def)

lemma scan_append [simp]: "scan s (xs @ ys) = scan (scan s xs) ys"
  by (simp add: scan_def)

lemma scan_error_stuck [simp]: "scan scan_error cs = scan_error"
  by (induction cs) (simp_all add: scan_error_def)

lemma scan_error_rejects: "scan s xs = scan_error \<Longrightarrow> \<not> scan_eof (scan s (xs @ ys))"
  by (simp add: scan_eof_def) (simp add: scan_error_def)

text \<open>Characters that stand for themselves inside a JSON string.\<close>

definition plain_char :: "char \<Rightarrow> bool" where
  "plain_char c \<longleftrightarrow> c \<noteq> CHR 0x22 \<and> c \<noteq> CHR 0x5C \<and> 32 \<le> (of_char c :: nat)"

lemma scan_plain: "list_all plain_char cs \<Longrightarrow> scan (InString, stk) cs = (InString, stk)"
  by (induction cs) (auto simp: plain_char_def)

text \<open>A decimal number without a sign leaves the scanner in one of its two number states.\<close>

lemma isDigit_digit_char [simp]: "d < 10 \<Longrightarrow> isDigit (digit_char d)"
  by (drule less_10_cases) (elim disjE; simp add: isDigit_def digit_char_def)

lemma plain_digit_char [simp]: "d < 10 \<Longrightarrow> plain_char (digit_char d)"
  by (drule less_10_cases) (elim disjE; simp add: plain_char_def digit_char_def)

lemma plain_dec_nat: "list_all plain_char (dec_nat n)"
  unfolding list_all_iff using dec_nat_chars plain_digit_char by blast

lemma scan_digits:
  "list_all isDigit cs \<Longrightarrow> scan (Digits, stk) cs = (Digits, stk)"
  by (induction cs) auto

lemma dec_nat_zero_or_nonzero:
  "dec_nat n = ''0'' \<or> (\<exists>d cs. dec_nat n = digit_char d # cs \<and> 0 < d \<and> d < 10)"
proof (induction n rule: dec_nat.induct)
  case (1 n)
  show ?case
  proof (cases "n < 10")
    case True
    then have e: "dec_nat n = [digit_char n]" by (simp add: dec_nat.simps [of n])
    show ?thesis
    proof (cases "n = 0")
      case True
      with e show ?thesis by (simp add: digit_char_def)
    next
      case False
      with e \<open>n < 10\<close> show ?thesis by auto
    qed
  next
    case False
    have "dec_nat (n div 10) \<noteq> ''0''"
    proof
      assume "dec_nat (n div 10) = ''0''"
      then have "dec_value 0 ''0'' = Some (n div 10)" using dec_value_dec_nat [of "n div 10"] by simp
      then show False using False by (simp add: digit_val_def)
    qed
    with 1 False show ?thesis by (auto simp: dec_nat.simps [of n])
  qed
qed

lemma begin_value_digit: "0 < d \<Longrightarrow> d < 10 \<Longrightarrow> begin_value stk (digit_char d) = (Digits, stk)"
  by (drule less_10_cases) (elim disjE; simp add: begin_value_def isSpace_def isDigit_def digit_char_def)

lemma scan_dec_nat: "scan (BeginValue, stk) (dec_nat n) \<in> {(Zero, stk), (Digits, stk)}"
proof -
  consider "dec_nat n = ''0''" | d cs where "dec_nat n = digit_char d # cs" "0 < d" "d < 10"
    using dec_nat_zero_or_nonzero by blast
  then show ?thesis
  proof cases
    case 1
    then show ?thesis by (simp add: begin_value_def isSpace_def)
  next
    case 2
    have "list_all isDigit (dec_nat n)"
      unfolding list_all_iff using dec_nat_chars isDigit_digit_char by blast
    with 2 have "scan (Digits, stk) cs = (Digits, stk)" by (simp add: scan_digits)
    with 2 show ?thesis by (simp add: begin_value_digit)
  qed
qed

lemmas scan_unfold =
  begin_value_def begin_string_def end_value_def end_top_def push_state_def pop_state_def
  isSpace_def expect_def maxNestingDepth_def

end
