(* ===== verification/Event.thy ===== *)
theory Event
  imports Json
begin

text \<open>
  \<open>internal/event\<close>: the event (\<open>model.go\<close>), its statuses, types and priorities (\<open>types.go\<close>), the
  table of status transitions with \<open>IsValidTransition\<close> and \<open>TransitionTo\<close> (\<open>statemachine.go\<close>), and
  \<open>Validate\<close> (\<open>validator.go\<close>). Statuses and types are Go strings, so they are strings here: a value
  outside the declared constants is possible, and the code's default branches are about those.
\<close>

section \<open>Statuses, types, priorities\<close>

type_synonym event_status = string
type_synonym event_type = string

definition StatusReceived :: event_status where "StatusReceived = ''RECEIVED''"
definition StatusQueued :: event_status where "StatusQueued = ''QUEUED''"
definition StatusProcessing :: event_status where "StatusProcessing = ''PROCESSING''"
definition StatusCompleted :: event_status where "StatusCompleted = ''COMPLETED''"
definition StatusRetrying :: event_status where "StatusRetrying = ''RETRYING''"
definition StatusFailed :: event_status where "StatusFailed = ''FAILED''"

lemmas status_defs = StatusReceived_def StatusQueued_def StatusProcessing_def
  StatusCompleted_def StatusRetrying_def StatusFailed_def

lemma status_distinct [simp]:
  "StatusReceived \<noteq> StatusQueued" "StatusReceived \<noteq> StatusProcessing"
  "StatusReceived \<noteq> StatusCompleted" "StatusReceived \<noteq> StatusRetrying" "StatusReceived \<noteq> StatusFailed"
  "StatusQueued \<noteq> StatusReceived" "StatusQueued \<noteq> StatusProcessing"
  "StatusQueued \<noteq> StatusCompleted" "StatusQueued \<noteq> StatusRetrying" "StatusQueued \<noteq> StatusFailed"
  "StatusProcessing \<noteq> StatusReceived" "StatusProcessing \<noteq> StatusQueued"
  "StatusProcessing \<noteq> StatusCompleted" "StatusProcessing \<noteq> StatusRetrying" "StatusProcessing \<noteq> StatusFailed"
  "StatusCompleted \<noteq> StatusReceived" "StatusCompleted \<noteq> StatusQueued"
  "StatusCompleted \<noteq> StatusProcessing" "StatusCompleted \<noteq> StatusRetrying" "StatusCompleted \<noteq> StatusFailed"
  "StatusRetrying \<noteq> StatusReceived" "StatusRetrying \<noteq> StatusQueued"
  "StatusRetrying \<noteq> StatusProcessing" "StatusRetrying \<noteq> StatusCompleted" "StatusRetrying \<noteq> StatusFailed"
  "StatusFailed \<noteq> StatusReceived" "StatusFailed \<noteq> StatusQueued"
  "StatusFailed \<noteq> StatusProcessing" "StatusFailed \<noteq> StatusCompleted" "StatusFailed \<noteq> StatusRetrying"
  by (simp_all add: status_defs)

definition TypeOrderCreated :: event_type where "TypeOrderCreated = ''ORDER_CREATED''"
definition TypePaymentSuccess :: event_type where "TypePaymentSuccess = ''PAYMENT_SUCCESS''"
definition TypePaymentFailed :: event_type where "TypePaymentFailed = ''PAYMENT_FAILED''"
definition TypeInventoryUpdated :: event_type where "TypeInventoryUpdated = ''INVENTORY_UPDATED''"
definition TypeOrderCancelled :: event_type where "TypeOrderCancelled = ''ORDER_CANCELLED''"
definition TypeUserRegistered :: event_type where "TypeUserRegistered = ''USER_REGISTERED''"

lemmas type_defs = TypeOrderCreated_def TypePaymentSuccess_def TypePaymentFailed_def
  TypeInventoryUpdated_def TypeOrderCancelled_def TypeUserRegistered_def

definition PriorityLow :: int where "PriorityLow = 1"
definition PriorityNormal :: int where "PriorityNormal = 5"
definition PriorityHigh :: int where "PriorityHigh = 10"

lemmas priority_defs = PriorityLow_def PriorityNormal_def PriorityHigh_def

section \<open>The event\<close>

record event =
  eID :: uuid
  eType :: event_type
  ePayload :: bytes
  ePriority :: int
  eStatus :: event_status
  eAttempt :: int
  eWorkerID :: "uuid option"
  eCreatedAt :: time
  eUpdatedAt :: time
  eCompletedAt :: "time option"

section \<open>The state machine\<close>

definition validTransitions :: "event_status \<rightharpoonup> (event_status \<rightharpoonup> bool)" where
  "validTransitions =
     [ StatusReceived \<mapsto> [ StatusQueued \<mapsto> True ],
       StatusQueued \<mapsto> [ StatusProcessing \<mapsto> True ],
       StatusProcessing \<mapsto>
         [ StatusCompleted \<mapsto> True,
           StatusRetrying \<mapsto> True,
           StatusFailed \<mapsto> True,
           StatusQueued \<mapsto> True ],
       StatusRetrying \<mapsto> [ StatusQueued \<mapsto> True ],
       StatusCompleted \<mapsto> Map.empty,
       StatusFailed \<mapsto> Map.empty ]"

text \<open>Reading a missing key of a Go \<open>map[_]bool\<close> gives \<open>false\<close>.\<close>

definition IsValidTransition :: "event_status \<Rightarrow> event_status \<Rightarrow> bool" where
  "IsValidTransition old to =
     (case validTransitions old of
        None \<Rightarrow> False
      | Some allowed \<Rightarrow> (case allowed to of None \<Rightarrow> False | Some b \<Rightarrow> b))"

datatype transition_error = InvalidStateTransition

definition TransitionTo ::
  "time \<Rightarrow> time \<Rightarrow> event_status \<Rightarrow> event \<Rightarrow> transition_error option \<times> event" where
  "TransitionTo now now' to e =
     (if \<not> IsValidTransition (eStatus e) to then (Some InvalidStateTransition, e)
      else let e = e\<lparr>eStatus := to\<rparr>;
               e = e\<lparr>eUpdatedAt := now\<rparr>;
               e = (if to = StatusCompleted then e\<lparr>eCompletedAt := Some now'\<rparr> else e)
           in (None, e))"

text \<open>The table as a relation: the seven arrows, and nothing else.\<close>

definition lifecycle :: "(event_status \<times> event_status) set" where
  "lifecycle = {(StatusReceived, StatusQueued), (StatusQueued, StatusProcessing),
                (StatusProcessing, StatusCompleted), (StatusProcessing, StatusRetrying),
                (StatusProcessing, StatusFailed), (StatusProcessing, StatusQueued),
                (StatusRetrying, StatusQueued)}"

lemma IsValidTransition_iff: "IsValidTransition s t \<longleftrightarrow> (s, t) \<in> lifecycle"
  by (auto simp: IsValidTransition_def validTransitions_def lifecycle_def)

lemma valid_transitions [simp]:
  "IsValidTransition StatusReceived StatusQueued"
  "IsValidTransition StatusQueued StatusProcessing"
  "IsValidTransition StatusProcessing StatusCompleted"
  "IsValidTransition StatusProcessing StatusRetrying"
  "IsValidTransition StatusProcessing StatusFailed"
  "IsValidTransition StatusProcessing StatusQueued"
  "IsValidTransition StatusRetrying StatusQueued"
  by (simp_all add: IsValidTransition_iff lifecycle_def)

definition terminal :: "event_status \<Rightarrow> bool" where
  "terminal s \<longleftrightarrow> s = StatusCompleted \<or> s = StatusFailed"

lemma terminal_no_successor [status_rules]: "terminal s \<Longrightarrow> \<not> IsValidTransition s t"
  by (auto simp: terminal_def IsValidTransition_iff lifecycle_def)

lemma transition_irrefl [simp]: "\<not> IsValidTransition s s"
  by (auto simp: IsValidTransition_iff lifecycle_def)

lemma only_processing_completes: "IsValidTransition s StatusCompleted \<Longrightarrow> s = StatusProcessing"
  by (auto simp: IsValidTransition_iff lifecycle_def)

text \<open>Every status from which a transition exists, or that one reaches, is a declared one.\<close>

definition declared_status :: "event_status \<Rightarrow> bool" where
  "declared_status s \<longleftrightarrow> s \<in> {StatusReceived, StatusQueued, StatusProcessing,
                             StatusCompleted, StatusRetrying, StatusFailed}"

lemma transition_declared: "IsValidTransition s t \<Longrightarrow> declared_status s \<and> declared_status t"
  by (auto simp: IsValidTransition_iff lifecycle_def declared_status_def)

lemma TransitionTo_cases:
  obtains (invalid) "\<not> IsValidTransition (eStatus e) to"
      "TransitionTo now now' to e = (Some InvalidStateTransition, e)"
  | (valid) e' where "IsValidTransition (eStatus e) to" "TransitionTo now now' to e = (None, e')"
      "e' = e\<lparr>eStatus := to, eUpdatedAt := now,
              eCompletedAt := if to = StatusCompleted then Some now' else eCompletedAt e\<rparr>"
  by (cases "IsValidTransition (eStatus e) to") (auto simp: TransitionTo_def Let_def)

section \<open>Validation\<close>

text \<open>The errors with the value their message prints; \<open>errors.Is\<close> looks at the constructor.\<close>

datatype validation_error =
    ErrInvalidType event_type
  | ErrInvalidPriority int
  | ErrNilPayload
  | ErrInvalidPayload

definition Validate :: "event \<Rightarrow> validation_error option" where
  "Validate e =
     (if eType e \<notin> {TypeOrderCreated, TypePaymentSuccess, TypePaymentFailed,
                     TypeInventoryUpdated, TypeOrderCancelled, TypeUserRegistered}
      then Some (ErrInvalidType (eType e))
      else if ePriority e \<notin> {PriorityLow, PriorityNormal, PriorityHigh}
      then Some (ErrInvalidPriority (ePriority e))
      else if length (ePayload e) = 0 then Some ErrNilPayload
      else if \<not> json_Valid (ePayload e) then Some ErrInvalidPayload
      else None)"

text \<open>
  The message of a validation error. \<open>%q\<close> is \<open>strconv.Quote\<close>, written out here for ASCII text; bytes
  of 128 and above (the encoding of printable characters beyond ASCII) are kept as they are.
\<close>

definition hex_char :: "nat \<Rightarrow> char" where
  "hex_char d = ''0123456789abcdef'' ! d"

definition quote_char :: "char \<Rightarrow> string" where
  "quote_char c =
     (let n = (of_char c :: nat) in
      if c = CHR 0x22 \<or> c = CHR 0x5C then [CHR 0x5C, c]
      else if 32 \<le> n \<and> n \<noteq> 127 then [c]
      else if n = 7 then [CHR 0x5C, CHR ''a'']
      else if n = 8 then [CHR 0x5C, CHR ''b'']
      else if n = 12 then [CHR 0x5C, CHR ''f'']
      else if n = 10 then [CHR 0x5C, CHR ''n'']
      else if n = 13 then [CHR 0x5C, CHR ''r'']
      else if n = 9 then [CHR 0x5C, CHR ''t'']
      else if n = 11 then [CHR 0x5C, CHR ''v'']
      else [CHR 0x5C, CHR ''x'', hex_char (n div 16), hex_char (n mod 16)])"

definition strconv_Quote :: "string \<Rightarrow> string" where
  "strconv_Quote s = CHR 0x22 # concat (map quote_char s) @ [CHR 0x22]"

fun validation_message :: "validation_error \<Rightarrow> string" where
  "validation_message (ErrInvalidType t) = ''invalid event type: '' @ strconv_Quote t"
| "validation_message (ErrInvalidPriority p) = ''invalid event priority: '' @ Itoa p"
| "validation_message ErrNilPayload = ''event payload cannot be nil or empty''"
| "validation_message ErrInvalidPayload = ''invalid event payload''"

definition known_type :: "event_type \<Rightarrow> bool" where
  "known_type t \<longleftrightarrow> t \<in> {TypeOrderCreated, TypePaymentSuccess, TypePaymentFailed,
     TypeInventoryUpdated, TypeOrderCancelled, TypeUserRegistered}"

lemma Validate_None_iff:
  "Validate e = None \<longleftrightarrow>
     eType e \<in> {TypeOrderCreated, TypePaymentSuccess, TypePaymentFailed,
                TypeInventoryUpdated, TypeOrderCancelled, TypeUserRegistered} \<and>
     ePriority e \<in> {PriorityLow, PriorityNormal, PriorityHigh} \<and> json_Valid (ePayload e)"
proof -
  have "\<not> json_Valid []"
    by (simp add: json_Valid_def scan_eof_def scan_unfold)
  then show ?thesis by (auto simp: Validate_def)
qed

section \<open>Sequences of transitions\<close>

fun transitions :: "(time \<times> time \<times> event_status) list \<Rightarrow> event \<Rightarrow> event" where
  "transitions [] e = e"
| "transitions ((now, now', to) # ts) e = transitions ts (snd (TransitionTo now now' to e))"

lemma transitions_path: "(eStatus e, eStatus (transitions ts e)) \<in> lifecycle\<^sup>*"
proof (induction ts arbitrary: e)
  case Nil
  then show ?case by simp
next
  case (Cons t ts)
  obtain now now' to where t: "t = (now, now', to)" by (cases t)
  have "(eStatus e, eStatus (snd (TransitionTo now now' to e))) \<in> lifecycle\<^sup>*"
    by (cases rule: TransitionTo_cases [of e to now now']) (auto simp: IsValidTransition_iff)
  then show ?case using Cons.IH by (simp add: t) (blast intro: rtrancl_trans)
qed

lemma transitions_completed:
  "(eCompletedAt e \<noteq> None \<longleftrightarrow> eStatus e = StatusCompleted) \<Longrightarrow>
   (eCompletedAt (transitions ts e) \<noteq> None \<longleftrightarrow> eStatus (transitions ts e) = StatusCompleted)"
proof (induction ts arbitrary: e)
  case Nil
  then show ?case by simp
next
  case (Cons t ts)
  obtain now now' to where t: "t = (now, now', to)" by (cases t)
  let ?e = "snd (TransitionTo now now' to e)"
  have "eCompletedAt ?e \<noteq> None \<longleftrightarrow> eStatus ?e = StatusCompleted"
  proof (cases rule: TransitionTo_cases [of e to now now'])
    case invalid
    with Cons.prems show ?thesis by simp
  next
    case (valid e')
    then have "eStatus e \<noteq> StatusCompleted" using terminal_no_successor [of "eStatus e" to] by (auto simp: terminal_def)
    with valid Cons.prems show ?thesis by auto
  qed
  from Cons.IH [OF this] show ?case by (simp add: t)
qed

lemma transitions_terminal: "terminal (eStatus e) \<Longrightarrow> transitions ts e = e"
  by (induction ts) (auto simp: TransitionTo_def terminal_no_successor)

section \<open>Properties\<close>

text \<open>
  A transition succeeds exactly along the seven arrows of the state machine; it then sets the status
  and the update time, and the completion time when the event is completed, and changes nothing else; a
  refused transition leaves the event as it was.
\<close>

theorem transition_exact:
  "TransitionTo now now' to e =
     (if (eStatus e, to) \<in> {(StatusReceived, StatusQueued), (StatusQueued, StatusProcessing),
           (StatusProcessing, StatusCompleted), (StatusProcessing, StatusRetrying),
           (StatusProcessing, StatusFailed), (StatusProcessing, StatusQueued), (StatusRetrying, StatusQueued)}
      then (None, e\<lparr>eStatus := to, eUpdatedAt := now,
                    eCompletedAt := if to = StatusCompleted then Some now' else eCompletedAt e\<rparr>)
      else (Some InvalidStateTransition, e))"
  by (cases rule: TransitionTo_cases [of e to now now'])
    (simp_all add: IsValidTransition_iff lifecycle_def del: insert_iff)

text \<open>
  Along any sequence of transitions, valid or refused, an event moves on the lifecycle only, stays as
  it is once it is completed or failed, and has a completion time exactly when it is completed, if that
  held at the start.
\<close>

theorem transitions_lifecycle:
  assumes "eCompletedAt e \<noteq> None \<longleftrightarrow> eStatus e = StatusCompleted"
  shows "(eStatus e, eStatus (transitions ts e)) \<in> lifecycle\<^sup>* \<and>
    (eCompletedAt (transitions ts e) \<noteq> None \<longleftrightarrow> eStatus (transitions ts e) = StatusCompleted) \<and>
    (eStatus e \<in> {StatusCompleted, StatusFailed} \<longrightarrow> transitions ts e = e)"
  using transitions_path [of e ts] transitions_completed [OF assms] transitions_terminal [of e ts]
  by (auto simp: terminal_def)

definition fresh_event :: event where
  "fresh_event =
     \<lparr> eID = 1, eType = TypeOrderCreated, ePayload = ''{}'', ePriority = PriorityHigh,
       eStatus = StatusProcessing, eAttempt = 0, eWorkerID = None, eCreatedAt = 10, eUpdatedAt = 10,
       eCompletedAt = None \<rparr>"

theorem transitions_lifecycle_witness:
  "eCompletedAt (transitions [(11, 12, StatusReceived), (13, 14, StatusCompleted), (15, 16, StatusQueued)] fresh_event)
     \<noteq> None"
proof -
  have "eCompletedAt fresh_event \<noteq> None \<longleftrightarrow> eStatus fresh_event = StatusCompleted"
    by (simp add: fresh_event_def)
  note transitions_lifecycle [OF this, of "[(11, 12, StatusReceived), (13, 14, StatusCompleted), (15, 16, StatusQueued)]"]
  then show ?thesis by (simp add: TransitionTo_def fresh_event_def IsValidTransition_iff lifecycle_def)
qed

text \<open>
  Validation accepts exactly the six event types, the three priorities and syntactically valid JSON,
  and otherwise reports the first of type, priority, missing payload, malformed payload that is wrong.
\<close>

lemma validate_exact:
  "(Validate e = None \<longleftrightarrow> known_type (eType e) \<and> ePriority e \<in> {1, 5, 10} \<and> json_Valid (ePayload e)) \<and>
   (Validate e = Some (ErrInvalidType (eType e)) \<longleftrightarrow> \<not> known_type (eType e)) \<and>
   (Validate e = Some (ErrInvalidPriority (ePriority e)) \<longleftrightarrow> known_type (eType e) \<and> ePriority e \<notin> {1, 5, 10}) \<and>
   (Validate e = Some ErrNilPayload \<longleftrightarrow> known_type (eType e) \<and> ePriority e \<in> {1, 5, 10} \<and> ePayload e = '''') \<and>
   (Validate e = Some ErrInvalidPayload \<longleftrightarrow> known_type (eType e) \<and> ePriority e \<in> {1, 5, 10} \<and>
      ePayload e \<noteq> '''' \<and> \<not> json_Valid (ePayload e))"
proof -
  have p: "{PriorityLow, PriorityNormal, PriorityHigh} = {1, 5, 10}"
    by (simp add: priority_defs)
  show ?thesis
    using Validate_None_iff [of e] unfolding Validate_def known_type_def [symmetric] p by auto
qed

end
