(* ===== verification/Table.thy ===== *)
theory Table
  imports Prelude
begin

text \<open>
  Tables with a primary key, as the SQL statements of the repositories use them: a table is the list
  of its rows, \<open>SELECT ... WHERE id = k\<close> finds a row, \<open>INSERT\<close> refuses a key that is present,
  \<open>UPDATE ... WHERE id = k AND P\<close> changes the rows that match and counts them. The locale
  \<open>keyed_store\<close> states what a client may rely on; the repositories are proved against it and each
  table of the schema is an interpretation.
\<close>

section \<open>Statements\<close>

definition row_select :: "('r \<Rightarrow> 'k) \<Rightarrow> 'r list \<Rightarrow> 'k \<Rightarrow> 'r option" where
  "row_select key rows k = find (\<lambda>r. key r = k) rows"

definition row_insert :: "('r \<Rightarrow> 'k) \<Rightarrow> 'r \<Rightarrow> 'r list \<Rightarrow> 'r list option" where
  "row_insert key r rows =
     (if row_select key rows (key r) = None then Some (rows @ [r]) else None)"

definition rows_update :: "('r \<Rightarrow> bool) \<Rightarrow> ('r \<Rightarrow> 'r) \<Rightarrow> 'r list \<Rightarrow> 'r list \<times> nat" where
  "rows_update P f rows = (map (\<lambda>r. if P r then f r else r) rows, length (filter P rows))"

definition row_update ::
  "('r \<Rightarrow> 'k) \<Rightarrow> 'k \<Rightarrow> ('r \<Rightarrow> bool) \<Rightarrow> ('r \<Rightarrow> 'r) \<Rightarrow> 'r list \<Rightarrow> 'r list \<times> nat" where
  "row_update key k P f rows = rows_update (\<lambda>r. key r = k \<and> P r) f rows"

definition unique_key :: "('r \<Rightarrow> 'k) \<Rightarrow> 'r list \<Rightarrow> bool" where
  "unique_key key rows \<longleftrightarrow> distinct (map key rows)"

section \<open>The contract of a keyed table\<close>

locale keyed_store =
  fixes key :: "'r \<Rightarrow> 'k"
    and select :: "'t \<Rightarrow> 'k \<Rightarrow> 'r option"
    and ins :: "'r \<Rightarrow> 't \<Rightarrow> 't option"
    and upd :: "'k \<Rightarrow> ('r \<Rightarrow> bool) \<Rightarrow> ('r \<Rightarrow> 'r) \<Rightarrow> 't \<Rightarrow> 't \<times> nat"
    and wf :: "'t \<Rightarrow> bool"
  assumes select_key: "select t k = Some r \<Longrightarrow> key r = k"
    and insert_conflict: "ins r t = None \<longleftrightarrow> select t (key r) \<noteq> None"
    and select_insert: "ins r t = Some t' \<Longrightarrow> select t' = (select t)(key r \<mapsto> r)"
    and wf_insert: "wf t \<Longrightarrow> ins r t = Some t' \<Longrightarrow> wf t'"
    and select_update: "(\<And>r. key (f r) = key r) \<Longrightarrow>
      select (fst (upd k P f t)) =
        (select t)(k := map_option (\<lambda>r. if P r then f r else r) (select t k))"
    and update_count: "wf t \<Longrightarrow>
      snd (upd k P f t) = (case select t k of None \<Rightarrow> 0 | Some r \<Rightarrow> if P r then 1 else 0)"
    and wf_update: "(\<And>r. key (f r) = key r) \<Longrightarrow> wf t \<Longrightarrow> wf (fst (upd k P f t))"
begin

lemma select_update_hit:
  assumes "\<And>r. key (f r) = key r" and "select t k = Some r" and "P r"
  shows "select (fst (upd k P f t)) = (select t)(k \<mapsto> f r)"
  using assms by (simp add: select_update)

lemma select_update_miss:
  assumes "\<And>r. key (f r) = key r" and "\<And>r. select t k = Some r \<Longrightarrow> \<not> P r"
  shows "select (fst (upd k P f t)) = select t"
  using assms by (cases "select t k") (auto simp: select_update)

lemma update_count_hit:
  "wf t \<Longrightarrow> select t k = Some r \<Longrightarrow> P r \<Longrightarrow> snd (upd k P f t) = 1"
  by (simp add: update_count)

text \<open>A count of zero rows means that no row was changed.\<close>

lemma update_none_affected:
  assumes "wf t" and "\<And>r. key (f r) = key r" and "snd (upd k P f t) = 0"
  shows "select (fst (upd k P f t)) = select t"
  using assms by (intro select_update_miss) (auto simp: update_count split: if_splits)

lemma insert_fresh: "select t (key r) = None \<Longrightarrow> \<exists>t'. ins r t = Some t'"
  using insert_conflict by blast

end

section \<open>Lists of rows satisfy it\<close>

lemma find_map_key:
  assumes "\<And>r. key (f r) = key r"
  shows "find (\<lambda>r. key r = k') (map (\<lambda>r. if key r = k \<and> P r then f r else r) rows) =
     (if k' = k then map_option (\<lambda>r. if P r then f r else r) (find (\<lambda>r. key r = k) rows)
      else find (\<lambda>r. key r = k') rows)"
  by (induction rows) (auto simp: assms)

lemma row_select_update:
  assumes "\<And>r. key (f r) = key r"
  shows "row_select key (fst (row_update key k P f rows)) =
     (row_select key rows)(k := map_option (\<lambda>r. if P r then f r else r) (row_select key rows k))"
  by (rule ext) (simp add: row_select_def row_update_def rows_update_def find_map_key assms)

lemma row_update_count:
  assumes "unique_key key rows"
  shows "snd (row_update key k P f rows) =
     (case row_select key rows k of None \<Rightarrow> 0 | Some r \<Rightarrow> if P r then 1 else 0)"
  using assms
proof (induction rows)
  case Nil
  then show ?case by (simp add: row_update_def rows_update_def row_select_def)
next
  case (Cons y ys)
  have "key y = k \<Longrightarrow> filter (\<lambda>r. key r = k \<and> P r) ys = []"
    using Cons.prems by (auto simp: filter_empty_conv unique_key_def image_iff)
  with Cons show ?case
    by (auto simp: row_update_def rows_update_def row_select_def unique_key_def)
qed

lemma keyed_store_rows:
  "keyed_store key (row_select key) (row_insert key) (row_update key) (unique_key key)"
proof (unfold_locales, goal_cases)
  case (1 t k r)
  then show ?case by (auto simp: row_select_def dest: find_SomeD)
next
  case (2 r t)
  then show ?case by (simp add: row_insert_def)
next
  case (3 r t t')
  then show ?case
    by (auto simp: row_insert_def row_select_def find_append fun_eq_iff split: if_splits option.splits)
next
  case (4 t r t')
  then show ?case
    by (fastforce simp: row_insert_def row_select_def unique_key_def find_None_iff split: if_splits)
next
  case (5 f k P t)
  then show ?case by (rule row_select_update)
next
  case (6 t k P f)
  then show ?case by (rule row_update_count)
next
  case (7 f t k P)
  have "map key (fst (row_update key k P f t)) = map key t"
    by (simp add: row_update_def rows_update_def 7)
  with 7 show ?case by (simp add: unique_key_def)
qed

end
