(* ===== verification/Store.thy ===== *)
theory Store
  imports Event Table
begin

text \<open>
  \<open>internal/store/store.go\<close> and \<open>internal/store/postgres\<close>: the four tables of \<open>schema.sql\<close> and the
  repositories over them, statement by statement. What the database server may do wrong is an
  argument: each call of an operation gets a \<open>faults\<close> function that says for every statement it sends
  whether it is done, refused, or done with the reply lost. A transaction takes its row with
  \<open>SELECT ... FOR UPDATE\<close> and nothing it wrote before a successful commit is visible, so an operation
  is one atomic change of the tables. The clock readings, the parser of UUID texts and the JSONB input
  function are arguments too.
\<close>

section \<open>The tables\<close>

record worker_row =
  wkID :: uuid
  wkStatus :: string
  wkLastHeartbeat :: time
  wkCurrentEventID :: "uuid option"
  wkCreatedAt :: time
  wkUpdatedAt :: time

record execution =
  exID :: uuid
  exEventID :: uuid
  exWorkerID :: uuid
  exAttempt :: int
  exStatus :: string
  exError :: "string option"
  exStartedAt :: time
  exFinishedAt :: "time option"

record idempotency_record =
  idEventID :: uuid
  idResultHash :: string
  idCreatedAt :: time

record db =
  events :: "event list"
  workers :: "worker_row list"
  executions :: "execution list"
  idempotency :: "idempotency_record list"

definition empty_db :: db where
  "empty_db = \<lparr>events = [], workers = [], executions = [], idempotency = []\<rparr>"

interpretation event_rows: keyed_store eID "row_select eID" "row_insert eID" "row_update eID" "unique_key eID"
  by (rule keyed_store_rows)

interpretation worker_rows: keyed_store wkID "row_select wkID" "row_insert wkID" "row_update wkID" "unique_key wkID"
  by (rule keyed_store_rows)

interpretation execution_rows: keyed_store exID "row_select exID" "row_insert exID" "row_update exID" "unique_key exID"
  by (rule keyed_store_rows)

interpretation idempotency_rows: keyed_store idEventID "row_select idEventID" "row_insert idEventID" "row_update idEventID" "unique_key idEventID"
  by (rule keyed_store_rows)

definition wf_db :: "db \<Rightarrow> bool" where
  "wf_db d \<longleftrightarrow> unique_key eID (events d) \<and> unique_key wkID (workers d)
             \<and> unique_key exID (executions d) \<and> unique_key idEventID (idempotency d)"

definition event_row :: "db \<Rightarrow> uuid \<Rightarrow> event option" where
  "event_row d = row_select eID (events d)"

definition idem_row :: "db \<Rightarrow> uuid \<Rightarrow> idempotency_record option" where
  "idem_row d = row_select idEventID (idempotency d)"

section \<open>Column types\<close>

text \<open>
  What the types of \<open>schema.sql\<close> make of the values of an event. \<open>TIMESTAMP WITH TIME ZONE\<close> counts
  microseconds, and the driver drops the nanoseconds below when it encodes a \<open>time.Time\<close>;
  \<open>VARCHAR(n)\<close> refuses more than \<open>n\<close> characters (the bytes that do not continue one), \<open>INT\<close> a number
  outside 32 bits. The check is made where a value comes from outside, in \<open>Create\<close>: a status or a
  result hash written later is one of the program's literals, and an attempt stays below the workers'
  bound (\<open>failed_after_max_attempts\<close>).
\<close>

definition timestamptz :: "time \<Rightarrow> time" where
  "timestamptz t = t div 1000 * 1000"

definition varchar :: "nat \<Rightarrow> string \<Rightarrow> bool" where
  "varchar n s \<longleftrightarrow> length (filter (\<lambda>c. (of_char c :: nat) div 64 \<noteq> 2) s) \<le> n"

definition int4 :: "int \<Rightarrow> bool" where
  "int4 n \<longleftrightarrow> - (2 ^ 31) \<le> n \<and> n < 2 ^ 31"

definition stored_event :: "bytes \<Rightarrow> event \<Rightarrow> event" where
  "stored_event p e =
     e\<lparr>ePayload := p, eCreatedAt := timestamptz (eCreatedAt e), eUpdatedAt := timestamptz (eUpdatedAt e),
       eCompletedAt := map_option timestamptz (eCompletedAt e)\<rparr>"

definition event_columns :: "(bytes \<Rightarrow> bytes option) \<Rightarrow> event \<Rightarrow> event option" where
  "event_columns jsonb e =
     (if varchar 50 (eType e) \<and> int4 (ePriority e) \<and> varchar 20 (eStatus e) \<and> int4 (eAttempt e)
      then map_option (\<lambda>p. stored_event p e) (jsonb (ePayload e)) else None)"

lemma timestamptz_idem [simp]: "timestamptz (timestamptz t) = timestamptz t"
  by (simp add: timestamptz_def)

lemma timestamptz_numeral [simp]: "timestamptz (numeral k) = numeral k div 1000 * 1000" "timestamptz 0 = 0"
  by (simp_all add: timestamptz_def)

lemma timestamptz_bounds: "timestamptz t \<le> t" "t - timestamptz t < 1000"
  unfolding timestamptz_def by presburger+

lemma stored_event_simps [simp]:
  "eID (stored_event p e) = eID e" "eType (stored_event p e) = eType e" "ePayload (stored_event p e) = p"
  "ePriority (stored_event p e) = ePriority e" "eStatus (stored_event p e) = eStatus e"
  "eAttempt (stored_event p e) = eAttempt e" "eWorkerID (stored_event p e) = eWorkerID e"
  "eCreatedAt (stored_event p e) = timestamptz (eCreatedAt e)"
  by (simp_all add: stored_event_def)

section \<open>Errors and faults\<close>

text \<open>
  \<open>ErrInfra\<close> stands for every error of the driver or the server the code passes on unchanged.
\<close>

datatype store_error =
    ErrEventNotFound
  | ErrInvalidStateTransition
  | ErrAlreadyFinalized
  | ErrInfra

datatype outcome = Done | Refused | Lost

datatype db_call = CallBegin | CallSelect | CallExec | CallExec2 | CallCommit

type_synonym faults = "db_call \<Rightarrow> outcome"

definition no_faults :: faults where
  "no_faults = (\<lambda>_. Done)"

text \<open>
  A commit, or a statement outside a transaction, that fails may have been applied all the same. The
  deferred \<open>Rollback\<close> discards a transaction that did not reach its commit.
\<close>

definition apply_outcome :: "outcome \<Rightarrow> 'd \<Rightarrow> 'd \<Rightarrow> store_error option \<times> 'd" where
  "apply_outcome out d d' =
     (case out of Done \<Rightarrow> (None, d') | Refused \<Rightarrow> (Some ErrInfra, d) | Lost \<Rightarrow> (Some ErrInfra, d'))"

definition locked_event ::
  "faults \<Rightarrow> uuid \<Rightarrow> db \<Rightarrow> (store_error \<Rightarrow> 'a) \<Rightarrow> (event \<Rightarrow> 'a) \<Rightarrow> 'a" where
  "locked_event flt ident d fail k =
     (if flt CallBegin \<noteq> Done then fail ErrInfra
      else if flt CallSelect \<noteq> Done then fail ErrInfra
      else case event_row d ident of
             None \<Rightarrow> fail ErrEventNotFound
           | Some row \<Rightarrow> k row)"

section \<open>Event repository\<close>

definition Create ::
  "(bytes \<Rightarrow> bytes option) \<Rightarrow> faults \<Rightarrow> event \<Rightarrow> db \<Rightarrow> store_error option \<times> db" where
  "Create jsonb flt e d =
     (case event_columns jsonb e of
        None \<Rightarrow> (Some ErrInfra, d)
      | Some row \<Rightarrow>
          (case row_insert eID row (events d) of
             None \<Rightarrow> (Some ErrInfra, d)
           | Some rows \<Rightarrow> apply_outcome (flt CallExec) d (d\<lparr>events := rows\<rparr>)))"

definition GetByID :: "faults \<Rightarrow> uuid \<Rightarrow> db \<Rightarrow> store_error + event" where
  "GetByID flt ident d =
     (if flt CallSelect \<noteq> Done then Inl ErrInfra
      else case event_row d ident of
             None \<Rightarrow> Inl ErrEventNotFound
           | Some e \<Rightarrow> Inr e)"

definition UpdateStatus ::
  "faults \<Rightarrow> time \<Rightarrow> uuid \<Rightarrow> event_status \<Rightarrow> event_status \<Rightarrow> db \<Rightarrow> store_error option \<times> db" where
  "UpdateStatus flt now ident old new d =
     (if \<not> IsValidTransition old new then (Some ErrInvalidStateTransition, d)
      else locked_event flt ident d (\<lambda>err. (Some err, d)) (\<lambda>row.
        if eStatus row \<noteq> old then (Some ErrInvalidStateTransition, d)
        else
          let set_row = (if new = StatusCompleted
                then (\<lambda>r. r\<lparr>eStatus := new, eUpdatedAt := timestamptz now, eCompletedAt := Some (timestamptz now)\<rparr>)
                else (\<lambda>r. r\<lparr>eStatus := new, eUpdatedAt := timestamptz now\<rparr>));
              (rows, affected) = row_update eID ident (\<lambda>r. eStatus r = old) set_row (events d)
          in if flt CallExec \<noteq> Done then (Some ErrInfra, d)
             else if affected = 0 then (Some ErrInvalidStateTransition, d)
             else apply_outcome (flt CallCommit) d (d\<lparr>events := rows\<rparr>)))"

definition AssignEvent ::
  "(string \<Rightarrow> uuid option) \<Rightarrow> faults \<Rightarrow> time \<Rightarrow> uuid \<Rightarrow> string \<Rightarrow> event_status \<Rightarrow> event_status
    \<Rightarrow> db \<Rightarrow> store_error option \<times> db" where
  "AssignEvent uuid_Parse flt now ident workerID old new d =
     (if \<not> IsValidTransition old new then (Some ErrInvalidStateTransition, d)
      else locked_event flt ident d (\<lambda>err. (Some err, d)) (\<lambda>row.
        if eStatus row \<noteq> old then (Some ErrInvalidStateTransition, d)
        else
          let parsedWorkerID = (if workerID \<noteq> '''' then uuid_Parse workerID else None);
              set_row = (if new = StatusCompleted
                then (\<lambda>r. r\<lparr>eStatus := new, eWorkerID := parsedWorkerID, eUpdatedAt := timestamptz now,
                             eCompletedAt := Some (timestamptz now)\<rparr>)
                else (\<lambda>r. r\<lparr>eStatus := new, eWorkerID := parsedWorkerID, eUpdatedAt := timestamptz now\<rparr>));
              (rows, affected) = row_update eID ident (\<lambda>r. eStatus r = old) set_row (events d)
          in if flt CallExec \<noteq> Done then (Some ErrInfra, d)
             else if affected = 0 then (Some ErrInvalidStateTransition, d)
             else apply_outcome (flt CallCommit) d (d\<lparr>events := rows\<rparr>)))"

definition FinalizeEvent ::
  "faults \<Rightarrow> time \<Rightarrow> uuid \<Rightarrow> string \<Rightarrow> db \<Rightarrow> store_error option \<times> db" where
  "FinalizeEvent flt now ident resultHash d =
     (if \<not> IsValidTransition StatusProcessing StatusCompleted then (Some ErrInvalidStateTransition, d)
      else locked_event flt ident d (\<lambda>err. (Some err, d)) (\<lambda>row.
        if eStatus row \<noteq> StatusProcessing then
          (if eStatus row = StatusCompleted then (Some ErrAlreadyFinalized, d)
           else (Some ErrInvalidStateTransition, d))
        else if flt CallExec \<noteq> Done then (Some ErrInfra, d)
        else case row_insert idEventID
                    \<lparr>idEventID = ident, idResultHash = resultHash, idCreatedAt = timestamptz now\<rparr> (idempotency d) of
               None \<Rightarrow> (Some ErrAlreadyFinalized, d)
             | Some idems \<Rightarrow>
                 let (rows, affected) = row_update eID ident (\<lambda>_. True)
                       (\<lambda>r. r\<lparr>eStatus := StatusCompleted, eUpdatedAt := timestamptz now, eCompletedAt := Some (timestamptz now)\<rparr>)
                       (events d)
                 in if flt CallExec2 \<noteq> Done then (Some ErrInfra, d)
                    else apply_outcome (flt CallCommit) d (d\<lparr>idempotency := idems, events := rows\<rparr>)))"

definition RecordFailure ::
  "faults \<Rightarrow> time \<Rightarrow> uuid \<Rightarrow> int \<Rightarrow> db \<Rightarrow> (event_status \<times> store_error option) \<times> db" where
  "RecordFailure flt now ident maxAttempts d =
     locked_event flt ident d (\<lambda>err. (('''', Some err), d)) (\<lambda>row.
        if eStatus row \<noteq> StatusProcessing then (('''', Some ErrInvalidStateTransition), d)
        else
          let newAttempt = eAttempt row + 1;
              nextStatus = (if newAttempt < maxAttempts then StatusRetrying else StatusFailed)
          in if \<not> IsValidTransition (eStatus row) nextStatus
             then (('''', Some ErrInvalidStateTransition), d)
             else
               let set_row = (if nextStatus = StatusFailed
                     then (\<lambda>r. r\<lparr>eStatus := nextStatus, eAttempt := newAttempt, eUpdatedAt := timestamptz now,
                                  eCompletedAt := Some (timestamptz now)\<rparr>)
                     else (\<lambda>r. r\<lparr>eStatus := nextStatus, eAttempt := newAttempt, eUpdatedAt := timestamptz now\<rparr>));
                   (rows, affected) = row_update eID ident (\<lambda>_. True) set_row (events d)
               in if flt CallExec \<noteq> Done then (('''', Some ErrInfra), d)
                  else case apply_outcome (flt CallCommit) d (d\<lparr>events := rows\<rparr>) of
                         (err, d') \<Rightarrow> ((nextStatus, err), d'))"

text \<open>
  \<open>ORDER BY\<close> leaves the order of equal keys to the server, which may scan the rows differently each
  time: the order of this one query is the argument \<open>row_order\<close>. A negative limit or offset is refused
  by the server.
\<close>

definition ListEvents ::
  "(event list \<Rightarrow> event list) \<Rightarrow> faults \<Rightarrow> int \<Rightarrow> int \<Rightarrow> db \<Rightarrow> store_error + event list" where
  "ListEvents row_order flt limit offset d =
     (if flt CallSelect \<noteq> Done \<or> limit < 0 \<or> offset < 0 then Inl ErrInfra
      else Inr (take (nat limit) (drop (nat offset)
             (sort_key (\<lambda>r. - eCreatedAt r) (row_order (events d))))))"

definition GetStaleEvents ::
  "(event list \<Rightarrow> event list) \<Rightarrow> faults \<Rightarrow> event_status \<Rightarrow> time \<Rightarrow> db \<Rightarrow> store_error + event list" where
  "GetStaleEvents row_order flt status updatedBefore d =
     (if flt CallSelect \<noteq> Done then Inl ErrInfra
      else Inr (sort_key eUpdatedAt
             (filter (\<lambda>r. eStatus r = status \<and> eUpdatedAt r < timestamptz updatedBefore) (row_order (events d)))))"

section \<open>Worker, execution and idempotency repositories\<close>

definition stored_worker :: "worker_row \<Rightarrow> worker_row" where
  "stored_worker w =
     w\<lparr>wkLastHeartbeat := timestamptz (wkLastHeartbeat w), wkCreatedAt := timestamptz (wkCreatedAt w),
       wkUpdatedAt := timestamptz (wkUpdatedAt w)\<rparr>"

definition Upsert :: "faults \<Rightarrow> worker_row \<Rightarrow> db \<Rightarrow> store_error option \<times> db" where
  "Upsert flt w d =
     (if \<not> varchar 20 (wkStatus w) then (Some ErrInfra, d)
      else let new = stored_worker w in
        apply_outcome (flt CallExec) d
          (d\<lparr>workers :=
             (case row_insert wkID new (workers d) of
                Some rows \<Rightarrow> rows
              | None \<Rightarrow> fst (row_update wkID (wkID new) (\<lambda>_. True)
                    (\<lambda>r. r\<lparr>wkStatus := wkStatus new, wkLastHeartbeat := wkLastHeartbeat new,
                           wkCurrentEventID := wkCurrentEventID new, wkUpdatedAt := wkUpdatedAt new\<rparr>)
                    (workers d)))\<rparr>))"

definition MarkOffline :: "faults \<Rightarrow> time \<Rightarrow> time \<Rightarrow> db \<Rightarrow> (int \<times> store_error option) \<times> db" where
  "MarkOffline flt now threshold d =
     (let (rows, affected) = rows_update
            (\<lambda>r. wkStatus r \<noteq> ''OFFLINE'' \<and> wkLastHeartbeat r < timestamptz threshold)
            (\<lambda>r. r\<lparr>wkStatus := ''OFFLINE'', wkUpdatedAt := timestamptz now\<rparr>) (workers d)
      in case apply_outcome (flt CallExec) d (d\<lparr>workers := rows\<rparr>) of
           (None, d') \<Rightarrow> ((int affected, None), d')
         | (Some err, d') \<Rightarrow> ((0, Some err), d'))"

definition Execution_Create :: "faults \<Rightarrow> execution \<Rightarrow> db \<Rightarrow> store_error option \<times> db" where
  "Execution_Create flt ex d =
     (case (if int4 (exAttempt ex) \<and> varchar 20 (exStatus ex)
            then row_insert exID
              (ex\<lparr>exStartedAt := timestamptz (exStartedAt ex), exFinishedAt := map_option timestamptz (exFinishedAt ex)\<rparr>)
              (executions d)
            else None) of
        None \<Rightarrow> (Some ErrInfra, d)
      | Some rows \<Rightarrow> apply_outcome (flt CallExec) d (d\<lparr>executions := rows\<rparr>))"

definition Execution_Complete ::
  "faults \<Rightarrow> time \<Rightarrow> uuid \<Rightarrow> string \<Rightarrow> string option \<Rightarrow> db \<Rightarrow> store_error option \<times> db" where
  "Execution_Complete flt now ident status errStr d =
     (if \<not> varchar 20 status then (Some ErrInfra, d)
      else apply_outcome (flt CallExec) d
        (d\<lparr>executions := fst (row_update exID ident (\<lambda>_. True)
             (\<lambda>r. r\<lparr>exStatus := status, exError := errStr, exFinishedAt := Some (timestamptz now)\<rparr>)
             (executions d))\<rparr>))"

definition CheckOrInsert ::
  "faults \<Rightarrow> idempotency_record \<Rightarrow> db \<Rightarrow> (bool \<times> store_error option) \<times> db" where
  "CheckOrInsert flt rec d =
     (if \<not> varchar 64 (idResultHash rec) then ((False, Some ErrInfra), d)
      else let (d', affected) =
            (case row_insert idEventID (rec\<lparr>idCreatedAt := timestamptz (idCreatedAt rec)\<rparr>) (idempotency d) of
               None \<Rightarrow> (d, 0 :: nat)
             | Some rows \<Rightarrow> (d\<lparr>idempotency := rows\<rparr>, 1))
      in case apply_outcome (flt CallExec) d d' of
           (None, d'') \<Rightarrow> ((affected > 0, None), d'')
         | (Some err, d'') \<Rightarrow> ((False, Some err), d''))"

end
