(* ===== verification/StoreRules.thy ===== *)
theory StoreRules
  imports Store
begin

text \<open>
  What the event repository does to the tables, as rules the other theories use: each operation either
  leaves the database as it was or moves exactly one row, under exactly the guard its SQL states
  (\<open>row_moved\<close>). From these rules follow the facts about runs of arbitrary operations: statuses only
  follow the table of transitions, terminal rows never change, a finalized event is completed.
\<close>

section \<open>Writing one row\<close>

lemma row_write:
  assumes "wf_db d" and "event_row d i = Some row" and "P row"
    and key: "\<And>r. eID (f r) = eID r"
    and upd: "row_update eID i P f (events d) = (rows, n)"
  shows "n = 1"
    and "event_row (d\<lparr>events := rows\<rparr>) = (event_row d)(i \<mapsto> f row)"
    and "unique_key eID rows"
proof -
  have wf: "unique_key eID (events d)" and sel: "row_select eID (events d) i = Some row"
    using assms by (simp_all add: wf_db_def event_row_def)
  from event_rows.update_count_hit [of "events d" i row P f] wf sel assms show "n = 1" by simp
  from event_rows.select_update_hit [of f "events d" i row P] key sel assms
  show "event_row (d\<lparr>events := rows\<rparr>) = (event_row d)(i \<mapsto> f row)"
    by (simp add: event_row_def)
  from event_rows.wf_update [of f "events d" i P] key wf upd show "unique_key eID rows" by simp
qed

lemma event_row_key: "event_row d i = Some row \<Longrightarrow> eID row = i"
  by (simp add: event_row_def event_rows.select_key)

text \<open>
  \<open>row_moved i f d d'\<close>: the row of \<open>i\<close> was replaced by its image under \<open>f\<close>, and nothing else of the
  event table, of the workers or of the executions changed.
\<close>

definition row_moved :: "uuid \<Rightarrow> event \<Rightarrow> event \<Rightarrow> db \<Rightarrow> db \<Rightarrow> bool" where
  "row_moved i row row' d d' \<longleftrightarrow>
     event_row d i = Some row \<and> event_row d' = (event_row d)(i \<mapsto> row') \<and>
     workers d' = workers d \<and> executions d' = executions d \<and> wf_db d'"

lemma locked_event_cases:
  assumes "locked_event flt i d fail k = x"
  obtains (failed) err where "x = fail err" "err = ErrInfra \<or> err = ErrEventNotFound"
      "err = ErrEventNotFound \<Longrightarrow> event_row d i = None"
  | (locked) row where "event_row d i = Some row" "x = k row"
      "flt CallBegin = Done" "flt CallSelect = Done"
  using assms by (cases "flt CallBegin = Done"; cases "flt CallSelect = Done"; cases "event_row d i")
    (auto simp: locked_event_def)

lemma apply_outcome_cases:
  assumes "apply_outcome out d d' = (r, d'')"
  obtains (acked) "out = Done" "r = None" "d'' = d'"
  | (refused) "out = Refused" "r = Some ErrInfra" "d'' = d"
  | (lost) "out = Lost" "r = Some ErrInfra" "d'' = d'"
  using assms by (cases out) (auto simp: apply_outcome_def)

text \<open>What an operation may answer: success, or an error with either no change or a lost reply.\<close>

definition answered :: "store_error option \<Rightarrow> outcome \<Rightarrow> bool" where
  "answered r out \<longleftrightarrow> r = None \<and> out = Done \<or> r = Some ErrInfra \<and> out = Lost"

section \<open>The operations that move a row\<close>

definition updated_row :: "time \<Rightarrow> event_status \<Rightarrow> event \<Rightarrow> event" where
  "updated_row now new row =
     row\<lparr>eStatus := new, eUpdatedAt := timestamptz now,
         eCompletedAt := if new = StatusCompleted then Some (timestamptz now) else eCompletedAt row\<rparr>"

lemma UpdateStatus_cases:
  assumes "wf_db d" and "UpdateStatus flt now i old new d = (r, d')"
  obtains (same) err where "d' = d" "r = Some err"
  | (moved) row where "row_moved i row (updated_row now new row) d d'" "eStatus row = old"
      "IsValidTransition old new" "idempotency d' = idempotency d" "answered r (flt CallCommit)"
proof (cases "IsValidTransition old new")
  case False
  with assms(2) show ?thesis by (intro same [of ErrInvalidStateTransition]) (auto simp: UpdateStatus_def)
next
  case True
  define set_row :: "event \<Rightarrow> event" where
    "set_row = (if new = StatusCompleted
       then (\<lambda>r. r\<lparr>eStatus := new, eUpdatedAt := timestamptz now, eCompletedAt := Some (timestamptz now)\<rparr>)
       else (\<lambda>r. r\<lparr>eStatus := new, eUpdatedAt := timestamptz now\<rparr>))"
  obtain rows n where u: "row_update eID i (\<lambda>r. eStatus r = old) set_row (events d) = (rows, n)"
    by fastforce
  note body = assms(2)[unfolded UpdateStatus_def, simplified True if_True if_False not_True_eq_False]
  from body show ?thesis
  proof (cases rule: locked_event_cases)
    case (failed err)
    then show ?thesis by (intro same [of err]) auto
  next
    case (locked row)
    show ?thesis
    proof (cases "eStatus row = old \<and> flt CallExec = Done")
      case False
      with locked u show ?thesis
        by (intro same [of "if eStatus row = old then ErrInfra else ErrInvalidStateTransition"])
          (auto simp: Let_def set_row_def split: if_splits)
    next
      case True
      have f: "eID (set_row r) = eID r" for r by (simp add: set_row_def)
      note w = row_write [OF assms(1) locked(1) _ f u]
      have upd: "set_row row = updated_row now new row"
        by (simp add: set_row_def updated_row_def)
      from locked True u w(1) have "apply_outcome (flt CallCommit) d (d\<lparr>events := rows\<rparr>) = (r, d')"
        by (auto simp: Let_def set_row_def split: if_splits)
      moreover have "row_moved i row (updated_row now new row) d (d\<lparr>events := rows\<rparr>)"
        using locked True w upd assms(1) by (simp add: row_moved_def wf_db_def)
      ultimately show ?thesis
        using same [of ErrInfra] moved [of row] True \<open>IsValidTransition old new\<close>
        by (cases rule: apply_outcome_cases) (auto simp: answered_def)
    qed
  qed
qed

definition assigned_row :: "time \<Rightarrow> uuid option \<Rightarrow> event_status \<Rightarrow> event \<Rightarrow> event" where
  "assigned_row now w new row =
     row\<lparr>eStatus := new, eWorkerID := w, eUpdatedAt := timestamptz now,
         eCompletedAt := if new = StatusCompleted then Some (timestamptz now) else eCompletedAt row\<rparr>"

definition parsed_worker :: "(string \<Rightarrow> uuid option) \<Rightarrow> string \<Rightarrow> uuid option" where
  "parsed_worker parse w = (if w \<noteq> '''' then parse w else None)"

lemma AssignEvent_cases:
  assumes "wf_db d" and "AssignEvent parse flt now i w old new d = (r, d')"
  obtains (same) err where "d' = d" "r = Some err"
  | (moved) row where "row_moved i row (assigned_row now (parsed_worker parse w) new row) d d'"
      "eStatus row = old" "IsValidTransition old new" "idempotency d' = idempotency d"
      "answered r (flt CallCommit)"
proof (cases "IsValidTransition old new")
  case False
  with assms(2) show ?thesis by (intro same [of ErrInvalidStateTransition]) (auto simp: AssignEvent_def)
next
  case True
  define set_row :: "event \<Rightarrow> event" where
    "set_row = (if new = StatusCompleted
       then (\<lambda>r. r\<lparr>eStatus := new, eWorkerID := parsed_worker parse w, eUpdatedAt := timestamptz now,
                    eCompletedAt := Some (timestamptz now)\<rparr>)
       else (\<lambda>r. r\<lparr>eStatus := new, eWorkerID := parsed_worker parse w, eUpdatedAt := timestamptz now\<rparr>))"
  obtain rows n where u: "row_update eID i (\<lambda>r. eStatus r = old) set_row (events d) = (rows, n)"
    by fastforce
  note body = assms(2)[unfolded AssignEvent_def parsed_worker_def [symmetric], simplified True if_True if_False not_True_eq_False]
  from body show ?thesis
  proof (cases rule: locked_event_cases)
    case (failed err)
    then show ?thesis by (intro same [of err]) auto
  next
    case (locked row)
    show ?thesis
    proof (cases "eStatus row = old \<and> flt CallExec = Done")
      case False
      with locked u show ?thesis
        by (intro same [of "if eStatus row = old then ErrInfra else ErrInvalidStateTransition"])
          (auto simp: Let_def set_row_def split: if_splits)
    next
      case True
      have f: "eID (set_row r) = eID r" for r by (simp add: set_row_def)
      note w = row_write [OF assms(1) locked(1) _ f u]
      have upd: "set_row row = assigned_row now (parsed_worker parse w) new row"
        by (simp add: set_row_def assigned_row_def)
      from locked True u w(1) have "apply_outcome (flt CallCommit) d (d\<lparr>events := rows\<rparr>) = (r, d')"
        by (auto simp: Let_def set_row_def split: if_splits)
      moreover have "row_moved i row (assigned_row now (parsed_worker parse w) new row) d (d\<lparr>events := rows\<rparr>)"
        using locked True w upd assms(1) by (simp add: row_moved_def wf_db_def)
      ultimately show ?thesis
        using same [of ErrInfra] moved [of row] True \<open>IsValidTransition old new\<close>
        by (cases rule: apply_outcome_cases) (auto simp: answered_def)
    qed
  qed
qed

text \<open>
  Finalizing completes the row and adds the idempotency record, both or neither. With a record
  present, or the row completed already, it answers \<open>ErrAlreadyFinalized\<close>.
\<close>

lemma FinalizeEvent_cases:
  assumes "wf_db d" and "FinalizeEvent flt now i h d = (r, d')"
  obtains (same) err where "d' = d" "r = Some err"
  | (moved) row where "row_moved i row (updated_row now StatusCompleted row) d d'"
      "eStatus row = StatusProcessing" "idem_row d i = None"
      "idem_row d' = (idem_row d)(i \<mapsto> \<lparr>idEventID = i, idResultHash = h, idCreatedAt = timestamptz now\<rparr>)"
      "answered r (flt CallCommit)"
proof -
  define rec where "rec = \<lparr>idEventID = i, idResultHash = h, idCreatedAt = timestamptz now\<rparr>"
  define set_row :: "event \<Rightarrow> event" where
    "set_row = (\<lambda>r. r\<lparr>eStatus := StatusCompleted, eUpdatedAt := timestamptz now, eCompletedAt := Some (timestamptz now)\<rparr>)"
  obtain rows n where u: "row_update eID i (\<lambda>_. True) set_row (events d) = (rows, n)" by fastforce
  note body = assms(2)[unfolded FinalizeEvent_def, simplified, folded rec_def]
  from body show ?thesis
  proof (cases rule: locked_event_cases)
    case (failed err)
    then show ?thesis by (intro same [of err]) auto
  next
    case (locked row)
    show ?thesis
    proof (cases "eStatus row = StatusProcessing \<and> flt CallExec = Done \<and> flt CallExec2 = Done
                  \<and> row_insert idEventID rec (idempotency d) \<noteq> None")
      case False
      with locked u show ?thesis
        by (intro same [of "the r"])
          (auto simp: Let_def set_row_def [symmetric] split: if_splits option.splits)
    next
      case True
      then obtain idems where ins: "row_insert idEventID rec (idempotency d) = Some idems" by auto
      have f: "eID (set_row r) = eID r" for r by (simp add: set_row_def)
      note w = row_write [OF assms(1) locked(1) TrueI f u]
      have new: "idem_row d i = None"
        using ins by (auto simp: row_insert_def idem_row_def rec_def split: if_splits)
      have sel: "row_select idEventID idems = (idem_row d)(i \<mapsto> rec)"
        using idempotency_rows.select_insert [OF ins] by (simp add: idem_row_def rec_def)
      have wf: "unique_key idEventID idems"
        using idempotency_rows.wf_insert ins assms(1) by (auto simp: wf_db_def)
      let ?d = "d\<lparr>idempotency := idems, events := rows\<rparr>"
      have ev: "event_row ?d = (event_row d)(i \<mapsto> set_row row)"
        using w(2) by (simp add: event_row_def)
      from locked True u ins have ap: "apply_outcome (flt CallCommit) d ?d = (r, d')"
        by (simp add: Let_def set_row_def [symmetric])
      have mv: "row_moved i row (updated_row now StatusCompleted row) d ?d"
        using locked(1) ev w(3) wf assms(1)
        by (simp add: row_moved_def wf_db_def set_row_def updated_row_def)
      from ap show ?thesis
        using same [of ErrInfra] moved [of row] True mv new sel
        by (cases rule: apply_outcome_cases) (auto simp: answered_def idem_row_def rec_def)
    qed
  qed
qed

definition failed_row :: "time \<Rightarrow> int \<Rightarrow> event \<Rightarrow> event" where
  "failed_row now maxAttempts row =
     (if eAttempt row + 1 < maxAttempts
      then row\<lparr>eStatus := StatusRetrying, eAttempt := eAttempt row + 1, eUpdatedAt := timestamptz now\<rparr>
      else row\<lparr>eStatus := StatusFailed, eAttempt := eAttempt row + 1, eUpdatedAt := timestamptz now,
               eCompletedAt := Some (timestamptz now)\<rparr>)"

lemma RecordFailure_cases:
  assumes "wf_db d" and "RecordFailure flt now i m d = ((s, r), d')"
  obtains (same) err where "d' = d" "r = Some err"
  | (moved) row where "row_moved i row (failed_row now m row) d d'"
      "eStatus row = StatusProcessing" "s = eStatus (failed_row now m row)"
      "idempotency d' = idempotency d" "answered r (flt CallCommit)"
proof -
  note body = assms(2)[unfolded RecordFailure_def]
  from body show ?thesis
  proof (cases rule: locked_event_cases)
    case (failed err)
    then show ?thesis by (intro same [of err]) auto
  next
    case (locked row)
    define nextStatus where "nextStatus = (if eAttempt row + 1 < m then StatusRetrying else StatusFailed)"
    define set_row :: "event \<Rightarrow> event" where
      "set_row = (if nextStatus = StatusFailed
         then (\<lambda>r. r\<lparr>eStatus := nextStatus, eAttempt := eAttempt row + 1, eUpdatedAt := timestamptz now,
                      eCompletedAt := Some (timestamptz now)\<rparr>)
         else (\<lambda>r. r\<lparr>eStatus := nextStatus, eAttempt := eAttempt row + 1, eUpdatedAt := timestamptz now\<rparr>))"
    obtain rows n where u: "row_update eID i (\<lambda>_. True) set_row (events d) = (rows, n)" by fastforce
    have valid: "IsValidTransition StatusProcessing nextStatus" by (simp add: nextStatus_def)
    show ?thesis
    proof (cases "eStatus row = StatusProcessing \<and> flt CallExec = Done")
      case False
      with locked valid u show ?thesis
        by (intro same [of "the r"])
          (auto simp: Let_def nextStatus_def [symmetric] set_row_def [symmetric] split: if_splits)
    next
      case True
      have f: "eID (set_row r) = eID r" for r by (simp add: set_row_def)
      note w = row_write [OF assms(1) locked(1) TrueI f u]
      have upd: "set_row row = failed_row now m row"
        by (simp add: set_row_def failed_row_def nextStatus_def)
      have st: "nextStatus = eStatus (failed_row now m row)"
        by (simp add: failed_row_def nextStatus_def)
      from locked(2) True valid u
      have ap: "apply_outcome (flt CallCommit) d (d\<lparr>events := rows\<rparr>) = (r, d') \<and> s = nextStatus"
        by (cases "eAttempt row + 1 < m") (auto simp: Let_def nextStatus_def set_row_def split: prod.splits)
      have mv: "row_moved i row (failed_row now m row) d (d\<lparr>events := rows\<rparr>)"
        using locked(1) w upd assms(1) by (simp add: row_moved_def wf_db_def)
      from ap [THEN conjunct1] show ?thesis
        using same [of ErrInfra] moved [of row] True mv st ap
        by (cases rule: apply_outcome_cases) (auto simp: answered_def)
    qed
  qed
qed

lemma event_columns_cases:
  assumes "event_columns jsonb e = Some row"
  obtains p where "jsonb (ePayload e) = Some p" "row = stored_event p e" "eID row = eID e"
  using assms by (auto simp: event_columns_def split: if_splits)

lemma Create_cases:
  assumes "wf_db d" and "Create jsonb flt e d = (r, d')"
  obtains (same) err where "d' = d" "r = Some err"
  | (added) p where "jsonb (ePayload e) = Some p" "event_row d (eID e) = None"
      "event_row d' = (event_row d)(eID e \<mapsto> stored_event p e)"
      "idempotency d' = idempotency d" "workers d' = workers d" "executions d' = executions d"
      "wf_db d'" "answered r (flt CallExec)"
proof (cases "event_columns jsonb e")
  case None
  with assms(2) show ?thesis by (intro same [of ErrInfra]) (auto simp: Create_def)
next
  case (Some row)
  then obtain p where p: "jsonb (ePayload e) = Some p" "row = stored_event p e" "eID row = eID e"
    by (rule event_columns_cases)
  show ?thesis
  proof (cases "row_insert eID row (events d)")
    case None
    with Some assms(2) show ?thesis by (intro same [of ErrInfra]) (auto simp: Create_def)
  next
    case ins: (Some rows)
    let ?d = "d\<lparr>events := rows\<rparr>"
    have ap: "apply_outcome (flt CallExec) d ?d = (r, d')"
      using assms(2) Some ins by (simp add: Create_def)
    have sel: "event_row ?d = (event_row d)(eID e \<mapsto> row)"
      using event_rows.select_insert [OF ins] p(3) by (simp add: event_row_def)
    have none: "event_row d (eID e) = None"
      using ins event_rows.insert_conflict [of row "events d"] p(3)
      by (cases "event_row d (eID e)") (simp_all add: event_row_def)
    have wf: "wf_db ?d"
      using event_rows.wf_insert [OF _ ins] assms(1) by (simp add: wf_db_def)
    from ap show ?thesis
      using same [of ErrInfra] added [OF p(1) none] sel wf p(2)
      by (cases rule: apply_outcome_cases) (auto simp: answered_def)
  qed
qed

end
