(* ===== verification/StoreRuns.thy ===== *)
theory StoreRuns
  imports StoreRules
begin

text \<open>
  Runs of repository operations. The operations of the API, the workers and the scheduler reach the
  event table through the five writing operations of the event repository only, so a property of every
  sequence of them, with any faults, is a property of every interleaving of the processes. The theory
  also gives the abstract repository (maps instead of tables, no faults) that the operations refine.
\<close>

section \<open>Sequences of operations\<close>

datatype repo_op =
    OpCreate faults event
  | OpUpdateStatus faults time uuid event_status event_status
  | OpAssignEvent faults time uuid string event_status event_status
  | OpFinalizeEvent faults time uuid string
  | OpRecordFailure faults time uuid int

fun exec_op ::
  "(bytes \<Rightarrow> bytes option) \<Rightarrow> (string \<Rightarrow> uuid option) \<Rightarrow> repo_op \<Rightarrow> db \<Rightarrow> db" where
  "exec_op jsonb parse (OpCreate flt e) d = snd (Create jsonb flt e d)"
| "exec_op jsonb parse (OpUpdateStatus flt now i old new) d = snd (UpdateStatus flt now i old new d)"
| "exec_op jsonb parse (OpAssignEvent flt now i w old new) d = snd (AssignEvent parse flt now i w old new d)"
| "exec_op jsonb parse (OpFinalizeEvent flt now i h) d = snd (FinalizeEvent flt now i h d)"
| "exec_op jsonb parse (OpRecordFailure flt now i m) d = snd (RecordFailure flt now i m d)"

definition exec_ops ::
  "(bytes \<Rightarrow> bytes option) \<Rightarrow> (string \<Rightarrow> uuid option) \<Rightarrow> repo_op list \<Rightarrow> db \<Rightarrow> db" where
  "exec_ops jsonb parse = fold (exec_op jsonb parse)"

lemma exec_ops_simps [simp]:
  "exec_ops jsonb parse [] d = d"
  "exec_ops jsonb parse (x # xs) d = exec_ops jsonb parse xs (exec_op jsonb parse x d)"
  by (simp_all add: exec_ops_def)

section \<open>What one operation can do to a row\<close>

text \<open>The columns no operation writes after the insert.\<close>

definition same_identity :: "event \<Rightarrow> event \<Rightarrow> bool" where
  "same_identity r r' \<longleftrightarrow> eID r' = eID r \<and> eType r' = eType r \<and> ePayload r' = ePayload r
     \<and> ePriority r' = ePriority r \<and> eCreatedAt r' = eCreatedAt r"

definition row_evolves :: "event \<Rightarrow> event \<Rightarrow> bool" where
  "row_evolves r r' \<longleftrightarrow> r' = r \<or>
     IsValidTransition (eStatus r) (eStatus r') \<and> same_identity r r'
     \<and> eAttempt r' = eAttempt r + (if eStatus r' \<in> {StatusRetrying, StatusFailed} then 1 else 0)"

text \<open>
  The attempt counter is only written together with a failure, and a row does not enter the two failure
  statuses by any other operation the program makes. The general operations \<open>UpdateStatus\<close> and
  \<open>AssignEvent\<close> could enter them; \<open>failure_free\<close> says that a call does not.
\<close>

fun failure_free :: "repo_op \<Rightarrow> bool" where
  "failure_free (OpUpdateStatus flt now i old new) \<longleftrightarrow> new \<notin> {StatusRetrying, StatusFailed}"
| "failure_free (OpAssignEvent flt now i w old new) \<longleftrightarrow> new \<notin> {StatusRetrying, StatusFailed}"
| "failure_free _ \<longleftrightarrow> True"

lemma evolves_updated:
  "IsValidTransition (eStatus row) new \<Longrightarrow> new \<notin> {StatusRetrying, StatusFailed} \<Longrightarrow>
   row_evolves row (updated_row now new row)"
  by (simp add: row_evolves_def same_identity_def updated_row_def)

lemma evolves_assigned:
  "IsValidTransition (eStatus row) new \<Longrightarrow> new \<notin> {StatusRetrying, StatusFailed} \<Longrightarrow>
   row_evolves row (assigned_row now w new row)"
  by (simp add: row_evolves_def same_identity_def assigned_row_def)

lemma evolves_failed: "eStatus row = StatusProcessing \<Longrightarrow> row_evolves row (failed_row now m row)"
  by (simp add: row_evolves_def same_identity_def failed_row_def)

text \<open>
  An operation changes the event table in one of three ways: not at all, by one new row, or by moving
  one row along an arrow of the state machine.
\<close>

lemma exec_op_cases:
  assumes "wf_db d"
  obtains (same) "exec_op jsonb parse x d = d"
  | (added) e where "event_row d (eID e) = None" "event_row (exec_op jsonb parse x d) = (event_row d)(eID e \<mapsto> e)"
      "idempotency (exec_op jsonb parse x d) = idempotency d" "wf_db (exec_op jsonb parse x d)"
  | (moved) i row row' where "row_moved i row row' d (exec_op jsonb parse x d)"
      "IsValidTransition (eStatus row) (eStatus row')" "same_identity row row'"
      "failure_free x \<Longrightarrow> row_evolves row row'"
proof (cases x)
  case (OpCreate flt e)
  obtain r d' where c: "Create jsonb flt e d = (r, d')" by fastforce
  from assms c show ?thesis
  proof (cases rule: Create_cases)
    case (added p)
    with c OpCreate show ?thesis by (intro that(2) [of "stored_event p e"]) auto
  qed (use c OpCreate same in auto)
next
  case (OpUpdateStatus flt now i old new)
  obtain r d' where c: "UpdateStatus flt now i old new d = (r, d')" by fastforce
  from assms c show ?thesis
  proof (cases rule: UpdateStatus_cases)
    case (moved row)
    with c OpUpdateStatus show ?thesis
      by (intro that(3) [of i row "updated_row now new row"])
        (auto simp: evolves_updated, auto simp: updated_row_def same_identity_def)
  qed (use c OpUpdateStatus same in auto)
next
  case (OpAssignEvent flt now i w old new)
  obtain r d' where c: "AssignEvent parse flt now i w old new d = (r, d')" by fastforce
  from assms c show ?thesis
  proof (cases rule: AssignEvent_cases)
    case (moved row)
    with c OpAssignEvent show ?thesis
      by (intro that(3) [of i row "assigned_row now (parsed_worker parse w) new row"])
        (auto simp: evolves_assigned, auto simp: assigned_row_def same_identity_def)
  qed (use c OpAssignEvent same in auto)
next
  case (OpFinalizeEvent flt now i h)
  obtain r d' where c: "FinalizeEvent flt now i h d = (r, d')" by fastforce
  from assms c show ?thesis
  proof (cases rule: FinalizeEvent_cases)
    case (moved row)
    with c OpFinalizeEvent show ?thesis
      by (intro that(3) [of i row "updated_row now StatusCompleted row"])
        (auto simp: evolves_updated, auto simp: updated_row_def same_identity_def)
  qed (use c OpFinalizeEvent same in auto)
next
  case (OpRecordFailure flt now i m)
  obtain s r d' where c: "RecordFailure flt now i m d = ((s, r), d')"
    by (metis surj_pair)
  from assms c show ?thesis
  proof (cases rule: RecordFailure_cases)
    case (moved row)
    with c OpRecordFailure show ?thesis
      by (intro that(3) [of i row "failed_row now m row"])
        (auto simp: evolves_failed, auto simp: failed_row_def same_identity_def)
  qed (use c OpRecordFailure same in auto)
qed

lemma exec_op_wf: "wf_db d \<Longrightarrow> wf_db (exec_op jsonb parse x d)"
  by (rule exec_op_cases [where jsonb = jsonb and parse = parse and x = x]) (auto simp: row_moved_def)

lemma exec_op_row:
  assumes "wf_db d" and "event_row d i = Some row"
  obtains row' where "event_row (exec_op jsonb parse x d) i = Some row'"
    "row' = row \<or> IsValidTransition (eStatus row) (eStatus row')" "same_identity row row'"
    "failure_free x \<Longrightarrow> row_evolves row row'"
  using assms(1)
proof (cases rule: exec_op_cases [where jsonb = jsonb and parse = parse and x = x])
  case same
  with assms that [of row] show ?thesis by (simp add: same_identity_def row_evolves_def)
next
  case (added e)
  with assms that [of row] show ?thesis by (cases "i = eID e") (auto simp: same_identity_def row_evolves_def)
next
  case (moved j r r')
  show ?thesis
  proof (cases "i = j")
    case True
    with moved assms that [of r'] show ?thesis by (auto simp: row_moved_def)
  next
    case False
    with moved assms that [of row] show ?thesis
      by (auto simp: row_moved_def same_identity_def row_evolves_def)
  qed
qed

section \<open>Whole runs\<close>

lemma exec_ops_wf: "wf_db d \<Longrightarrow> wf_db (exec_ops jsonb parse xs d)"
  by (induction xs arbitrary: d) (auto simp: exec_op_wf)

lemma same_identity_trans: "same_identity a b \<Longrightarrow> same_identity b c \<Longrightarrow> same_identity a c"
  by (simp add: same_identity_def)

lemma exec_ops_row:
  assumes "wf_db d" and "event_row d i = Some row"
  shows "\<exists>row'. event_row (exec_ops jsonb parse xs d) i = Some row' \<and>
           (eStatus row, eStatus row') \<in> lifecycle\<^sup>* \<and> same_identity row row'"
  using assms
proof (induction xs arbitrary: d row)
  case Nil
  then show ?case by (simp add: same_identity_def)
next
  case (Cons x xs)
  from Cons.prems obtain r where r: "event_row (exec_op jsonb parse x d) i = Some r"
    "r = row \<or> IsValidTransition (eStatus row) (eStatus r)" "same_identity row r"
    by (rule exec_op_row)
  from Cons.IH [OF exec_op_wf [OF Cons.prems(1)] r(1)] r(2,3) show ?case
    by (auto simp: IsValidTransition_iff intro: converse_rtrancl_into_rtrancl same_identity_trans)
qed

lemma exec_op_terminal:
  assumes "wf_db d" and "event_row d i = Some row" and "terminal (eStatus row)"
  shows "event_row (exec_op jsonb parse x d) i = Some row"
  by (rule exec_op_row [OF assms(1,2), where jsonb = jsonb and parse = parse and x = x]) (use assms(3) in \<open>auto simp: status_rules\<close>)

lemma exec_ops_terminal:
  assumes "wf_db d" and "event_row d i = Some row" and "terminal (eStatus row)"
  shows "event_row (exec_ops jsonb parse xs d) i = Some row"
  using assms by (induction xs arbitrary: d) (auto simp: exec_op_wf exec_op_terminal)

section \<open>Faults\<close>

fun without_faults :: "repo_op \<Rightarrow> repo_op" where
  "without_faults (OpCreate flt e) = OpCreate no_faults e"
| "without_faults (OpUpdateStatus flt now i old new) = OpUpdateStatus no_faults now i old new"
| "without_faults (OpAssignEvent flt now i w old new) = OpAssignEvent no_faults now i w old new"
| "without_faults (OpFinalizeEvent flt now i h) = OpFinalizeEvent no_faults now i h"
| "without_faults (OpRecordFailure flt now i m) = OpRecordFailure no_faults now i m"

text \<open>The answer of an operation; only \<open>RecordFailure\<close> gives a status beside the error.\<close>

fun reply_op ::
  "(bytes \<Rightarrow> bytes option) \<Rightarrow> (string \<Rightarrow> uuid option) \<Rightarrow> repo_op \<Rightarrow> db \<Rightarrow> event_status \<times> store_error option" where
  "reply_op jsonb parse (OpCreate flt e) d = ('''', fst (Create jsonb flt e d))"
| "reply_op jsonb parse (OpUpdateStatus flt now i old new) d = ('''', fst (UpdateStatus flt now i old new d))"
| "reply_op jsonb parse (OpAssignEvent flt now i w old new) d = ('''', fst (AssignEvent parse flt now i w old new d))"
| "reply_op jsonb parse (OpFinalizeEvent flt now i h) d = ('''', fst (FinalizeEvent flt now i h d))"
| "reply_op jsonb parse (OpRecordFailure flt now i m) d = fst (RecordFailure flt now i m d)"

section \<open>The abstract repository\<close>

record abs_repo =
  abs_events :: "uuid \<rightharpoonup> event"
  abs_idem :: "uuid \<rightharpoonup> idempotency_record"

definition abs_db :: "db \<Rightarrow> abs_repo" where
  "abs_db d = \<lparr>abs_events = event_row d, abs_idem = idem_row d\<rparr>"

text \<open>A guarded change of one event: the contract behind all status-changing operations.\<close>

definition guarded_move ::
  "uuid \<Rightarrow> (event \<Rightarrow> store_error option) \<Rightarrow> (event \<Rightarrow> event) \<Rightarrow> abs_repo \<Rightarrow> store_error option \<times> abs_repo" where
  "guarded_move i guard f a =
     (case abs_events a i of
        None \<Rightarrow> (Some ErrEventNotFound, a)
      | Some row \<Rightarrow>
          (case guard row of
             Some err \<Rightarrow> (Some err, a)
           | None \<Rightarrow> (None, a\<lparr>abs_events := (abs_events a)(i \<mapsto> f row)\<rparr>)))"

definition expect_status :: "event_status \<Rightarrow> event \<Rightarrow> store_error option" where
  "expect_status s row = (if eStatus row = s then None else Some ErrInvalidStateTransition)"

fun spec_op ::
  "(bytes \<Rightarrow> bytes option) \<Rightarrow> (string \<Rightarrow> uuid option) \<Rightarrow> repo_op \<Rightarrow> abs_repo
    \<Rightarrow> (event_status \<times> store_error option) \<times> abs_repo" where
  "spec_op jsonb parse (OpCreate flt e) a =
     (case event_columns jsonb e of
        None \<Rightarrow> (('''', Some ErrInfra), a)
      | Some row \<Rightarrow>
          if abs_events a (eID e) \<noteq> None then (('''', Some ErrInfra), a)
          else (('''', None), a\<lparr>abs_events := (abs_events a)(eID e \<mapsto> row)\<rparr>))"
| "spec_op jsonb parse (OpUpdateStatus flt now i old new) a =
     (if (old, new) \<notin> lifecycle then (('''', Some ErrInvalidStateTransition), a)
      else apfst (Pair '''') (guarded_move i (expect_status old) (updated_row now new) a))"
| "spec_op jsonb parse (OpAssignEvent flt now i w old new) a =
     (if (old, new) \<notin> lifecycle then (('''', Some ErrInvalidStateTransition), a)
      else apfst (Pair '''')
        (guarded_move i (expect_status old) (assigned_row now (parsed_worker parse w) new) a))"
| "spec_op jsonb parse (OpFinalizeEvent flt now i h) a =
     apfst (Pair '''')
       (case guarded_move i
               (\<lambda>row. if eStatus row = StatusCompleted \<or> eStatus row = StatusProcessing \<and> abs_idem a i \<noteq> None
                      then Some ErrAlreadyFinalized else expect_status StatusProcessing row)
               (updated_row now StatusCompleted) a of
          (None, a') \<Rightarrow> (None, a'\<lparr>abs_idem := (abs_idem a)(i \<mapsto> \<lparr>idEventID = i, idResultHash = h, idCreatedAt = timestamptz now\<rparr>)\<rparr>)
        | (Some err, a') \<Rightarrow> (Some err, a'))"
| "spec_op jsonb parse (OpRecordFailure flt now i m) a =
     (case guarded_move i (expect_status StatusProcessing) (failed_row now m) a of
        (None, a') \<Rightarrow> ((eStatus (the (abs_events a' i)), None), a')
      | (Some err, a') \<Rightarrow> (('''', Some err), a'))"

section \<open>Normal forms of the operations\<close>

text \<open>
  On a table with unique keys an update by key affects the row that the transaction has locked, so the
  check for zero affected rows never fails, and the operations take the short forms below.
\<close>

lemma event_row_write:
  assumes "event_row d i = Some row" and "P row" and "\<And>r. eID (f r) = eID r"
  shows "event_row (d\<lparr>events := fst (row_update eID i P f (events d))\<rparr>) = (event_row d)(i \<mapsto> f row)"
  using event_rows.select_update_hit [of f "events d" i row P] assms by (simp add: event_row_def)

lemma update_affected:
  assumes "wf_db d" and "event_row d i = Some row" and "P row"
  shows "snd (row_update eID i P f (events d)) = 1"
  using event_rows.update_count_hit [of "events d" i row P f] assms by (simp add: event_row_def wf_db_def)

lemma updated_row_eq:
  "(if new = StatusCompleted
    then (\<lambda>r. r\<lparr>eStatus := new, eUpdatedAt := timestamptz now, eCompletedAt := Some (timestamptz now)\<rparr>)
    else (\<lambda>r. r\<lparr>eStatus := new, eUpdatedAt := timestamptz now\<rparr>)) = updated_row now new"
  by (auto simp: updated_row_def fun_eq_iff)

lemma assigned_row_eq:
  "(if new = StatusCompleted
    then (\<lambda>r. r\<lparr>eStatus := new, eWorkerID := w, eUpdatedAt := timestamptz now, eCompletedAt := Some (timestamptz now)\<rparr>)
    else (\<lambda>r. r\<lparr>eStatus := new, eWorkerID := w, eUpdatedAt := timestamptz now\<rparr>)) = assigned_row now w new"
  by (auto simp: assigned_row_def fun_eq_iff)

definition failure_set :: "time \<Rightarrow> int \<Rightarrow> event \<Rightarrow> event \<Rightarrow> event" where
  "failure_set now m row =
     (if eAttempt row + 1 < m
      then (\<lambda>r. r\<lparr>eStatus := StatusRetrying, eAttempt := eAttempt row + 1, eUpdatedAt := timestamptz now\<rparr>)
      else (\<lambda>r. r\<lparr>eStatus := StatusFailed, eAttempt := eAttempt row + 1, eUpdatedAt := timestamptz now,
                   eCompletedAt := Some (timestamptz now)\<rparr>))"

lemma failure_set_row: "failure_set now m row row = failed_row now m row"
  by (simp add: failure_set_def failed_row_def)

lemma row_id_simps [simp]:
  "eID (updated_row now new r) = eID r" "eID (assigned_row now w new r) = eID r"
  "eID (failed_row now m r) = eID r" "eID (failure_set now m row r) = eID r"
  by (simp_all add: updated_row_def assigned_row_def failed_row_def failure_set_def)

definition write_row :: "db \<Rightarrow> uuid \<Rightarrow> (event \<Rightarrow> bool) \<Rightarrow> (event \<Rightarrow> event) \<Rightarrow> db" where
  "write_row d i P f = d\<lparr>events := fst (row_update eID i P f (events d))\<rparr>"

lemma UpdateStatus_normal [repo_unfold]:
  assumes "wf_db d"
  shows "UpdateStatus flt now i old new d =
    (if IsValidTransition old new then
       locked_event flt i d (\<lambda>err. (Some err, d)) (\<lambda>row.
         if eStatus row \<noteq> old then (Some ErrInvalidStateTransition, d)
         else if flt CallExec \<noteq> Done then (Some ErrInfra, d)
         else apply_outcome (flt CallCommit) d (write_row d i (\<lambda>r. eStatus r = old) (updated_row now new)))
     else (Some ErrInvalidStateTransition, d))"
  unfolding UpdateStatus_def Let_def updated_row_eq case_prod_beta write_row_def [symmetric]
  using update_affected [OF assms] by (simp add: locked_event_def split: option.split)

lemma AssignEvent_normal [repo_unfold]:
  assumes "wf_db d"
  shows "AssignEvent parse flt now i w old new d =
    (if IsValidTransition old new then
       locked_event flt i d (\<lambda>err. (Some err, d)) (\<lambda>row.
         if eStatus row \<noteq> old then (Some ErrInvalidStateTransition, d)
         else if flt CallExec \<noteq> Done then (Some ErrInfra, d)
         else apply_outcome (flt CallCommit) d
                (write_row d i (\<lambda>r. eStatus r = old) (assigned_row now (parsed_worker parse w) new)))
     else (Some ErrInvalidStateTransition, d))"
  unfolding AssignEvent_def Let_def parsed_worker_def [symmetric] assigned_row_eq case_prod_beta
    write_row_def [symmetric]
  using update_affected [OF assms] by (simp add: locked_event_def split: option.split)

lemma FinalizeEvent_normal [repo_unfold]:
  "FinalizeEvent flt now i h d =
     locked_event flt i d (\<lambda>err. (Some err, d)) (\<lambda>row.
       if eStatus row = StatusCompleted then (Some ErrAlreadyFinalized, d)
       else if eStatus row \<noteq> StatusProcessing then (Some ErrInvalidStateTransition, d)
       else if flt CallExec \<noteq> Done then (Some ErrInfra, d)
       else if idem_row d i \<noteq> None then (Some ErrAlreadyFinalized, d)
       else if flt CallExec2 \<noteq> Done then (Some ErrInfra, d)
       else apply_outcome (flt CallCommit) d
         (write_row
            (d\<lparr>idempotency := idempotency d @ [\<lparr>idEventID = i, idResultHash = h, idCreatedAt = timestamptz now\<rparr>]\<rparr>)
            i (\<lambda>_. True) (updated_row now StatusCompleted)))"
proof -
  have f: "(\<lambda>r. r\<lparr>eStatus := StatusCompleted, eUpdatedAt := timestamptz now, eCompletedAt := Some (timestamptz now)\<rparr>) =
    updated_row now StatusCompleted"
    by (auto simp: updated_row_def fun_eq_iff)
  show ?thesis
    unfolding FinalizeEvent_def Let_def f case_prod_beta write_row_def
    by (auto simp: locked_event_def row_insert_def idem_row_def split: option.split)
qed

lemma RecordFailure_normal [repo_unfold]:
  "RecordFailure flt now i m d =
     locked_event flt i d (\<lambda>err. (('''', Some err), d)) (\<lambda>row.
       if eStatus row \<noteq> StatusProcessing then (('''', Some ErrInvalidStateTransition), d)
       else if flt CallExec \<noteq> Done then (('''', Some ErrInfra), d)
       else apfst (Pair (eStatus (failed_row now m row)))
              (apply_outcome (flt CallCommit) d (write_row d i (\<lambda>_. True) (failure_set now m row))))"
  by (auto simp: RecordFailure_def locked_event_def Let_def case_prod_beta write_row_def failed_row_def
      failure_set_def apfst_def map_prod_def split: option.split)

lemma event_row_write_row:
  assumes "event_row d i = Some row" and "P row" and "\<And>r. eID (f r) = eID r"
  shows "event_row (write_row d i P f) = (event_row d)(i \<mapsto> f row)"
  unfolding write_row_def by (rule event_row_write; fact assms)

lemma idem_row_write_row [simp]: "idem_row (write_row d i P f) = idem_row d"
  by (simp add: write_row_def idem_row_def)

section \<open>Fault atomicity and refinement\<close>

lemma exec_op_atomic:
  assumes "wf_db d"
  shows "exec_op jsonb parse x d = d \<or> exec_op jsonb parse x d = exec_op jsonb parse (without_faults x) d"
  by (cases x)
    (auto simp: repo_unfold assms Create_def locked_event_def apply_outcome_def no_faults_def
      split: option.splits outcome.splits if_splits)

lemma reply_None_applied:
  assumes "wf_db d" and "snd (reply_op jsonb parse x d) = None"
  shows "exec_op jsonb parse x d = exec_op jsonb parse (without_faults x) d
    \<and> reply_op jsonb parse x d = reply_op jsonb parse (without_faults x) d"
  using assms(2)
  by (cases x)
    (auto simp: repo_unfold assms(1) Create_def locked_event_def apply_outcome_def no_faults_def
      split: option.splits outcome.splits if_splits)

lemma exec_op_refines:
  assumes "wf_db d"
  shows "(reply_op jsonb parse (without_faults x) d, abs_db (exec_op jsonb parse (without_faults x) d)) =
     spec_op jsonb parse x (abs_db d)"
proof (cases x)
  case (OpCreate flt e)
  show ?thesis
  proof (cases "event_columns jsonb e")
    case None
    with OpCreate show ?thesis by (simp add: Create_def)
  next
    case (Some row)
    then have "eID row = eID e" by (rule event_columns_cases)
    with OpCreate Some event_rows.insert_conflict [of row "events d"] event_rows.select_insert [of row "events d"]
    show ?thesis
      by (auto simp: Create_def apply_outcome_def no_faults_def abs_db_def event_row_def idem_row_def
          split: option.splits)
  qed
next
  case (OpUpdateStatus flt now i old new)
  then show ?thesis
    by (cases "event_row d i")
      (auto simp: repo_unfold assms locked_event_def apply_outcome_def no_faults_def abs_db_def
        guarded_move_def expect_status_def IsValidTransition_iff event_row_write_row)
next
  case (OpAssignEvent flt now i w old new)
  then show ?thesis
    by (cases "event_row d i")
      (auto simp: repo_unfold assms locked_event_def apply_outcome_def no_faults_def abs_db_def
        guarded_move_def expect_status_def IsValidTransition_iff event_row_write_row)
next
  case (OpFinalizeEvent flt now i h)
  have "idem_row (d\<lparr>idempotency := idempotency d @ [r]\<rparr>) = (idem_row d)(idEventID r \<mapsto> r)"
    if "idem_row d (idEventID r) = None" for r
    using that by (auto simp: idem_row_def row_select_def find_append fun_eq_iff split: option.split)
  note idem = this
  have ev: "event_row (d\<lparr>idempotency := z\<rparr>) = event_row d" for z by (simp add: event_row_def)
  show ?thesis using OpFinalizeEvent
    by (cases "event_row d i")
      (auto simp: repo_unfold locked_event_def apply_outcome_def no_faults_def abs_db_def
        guarded_move_def expect_status_def event_row_write_row idem ev)
next
  case (OpRecordFailure flt now i m)
  then show ?thesis
    by (cases "event_row d i")
      (auto simp: repo_unfold locked_event_def apply_outcome_def no_faults_def abs_db_def
        guarded_move_def expect_status_def event_row_write_row failure_set_row)
qed

end
