(* ===== verification/StoreProps.thy ===== *)
theory StoreProps
  imports StoreRuns "HOL-Library.Multiset"
begin

text \<open>
  The properties of the repositories: races for one event, the invariants of the tables under arbitrary
  sequences of operations, and the two queries. The helper lemmas come first in each section.
\<close>

section \<open>Races for one event\<close>

text \<open>
  Workers claim an event by \<open>AssignEvent(QUEUED, PROCESSING)\<close>. The database serializes the transactions,
  so a race of several workers is some sequence of claims; each has its own faults, clock and name.
\<close>

fun claims ::
  "(string \<Rightarrow> uuid option) \<Rightarrow> uuid \<Rightarrow> (faults \<times> time \<times> string) list \<Rightarrow> db \<Rightarrow> store_error option list \<times> db" where
  "claims parse i [] d = ([], d)"
| "claims parse i ((flt, now, w) # cs) d =
     (let (r, d1) = AssignEvent parse flt now i w StatusQueued StatusProcessing d;
          (rs, d2) = claims parse i cs d1
      in (r # rs, d2))"

lemma claims_blocked:
  assumes "wf_db d" and "event_row d i = Some row" and "eStatus row \<noteq> StatusQueued"
  shows "snd (claims parse i cs d) = d \<and> None \<notin> set (fst (claims parse i cs d))"
proof (induction cs)
  case Nil
  then show ?case by simp
next
  case (Cons c cs)
  obtain flt now w where c: "c = (flt, now, w)" by (cases c)
  obtain r d' where a: "AssignEvent parse flt now i w StatusQueued StatusProcessing d = (r, d')" by fastforce
  from assms(1) a have "d' = d \<and> r \<noteq> None"
    by (cases rule: AssignEvent_cases) (use assms in \<open>auto simp: row_moved_def\<close>)
  with Cons c a show ?case by (auto simp: case_prod_beta)
qed

lemma claims_one_winner:
  assumes "wf_db d"
  shows "count_list (fst (claims parse i cs d)) None \<le> 1"
  using assms
proof (induction cs arbitrary: d)
  case Nil
  then show ?case by simp
next
  case (Cons c cs)
  obtain flt now w where c: "c = (flt, now, w)" by (cases c)
  obtain r d' where a: "AssignEvent parse flt now i w StatusQueued StatusProcessing d = (r, d')" by fastforce
  from Cons.prems a show ?case
  proof (cases rule: AssignEvent_cases)
    case same
    with Cons c a show ?thesis by (auto simp: case_prod_beta)
  next
    case (moved row)
    then have "event_row d' i = Some (assigned_row now (parsed_worker parse w) StatusProcessing row)" "wf_db d'"
      by (auto simp: row_moved_def)
    then have "None \<notin> set (fst (claims parse i cs d'))"
      using claims_blocked [of d' i] by (auto simp: assigned_row_def)
    with c a show ?thesis by (auto simp: case_prod_beta count_list_0_iff)
  qed
qed

lemma claim_queued:
  assumes "wf_db d" and "event_row d i = Some row" and "eStatus row = StatusQueued"
  shows "\<exists>d'. AssignEvent parse no_faults now i w StatusQueued StatusProcessing d = (None, d') \<and> wf_db d' \<and>
     event_row d' i = Some (assigned_row now (parsed_worker parse w) StatusProcessing row)"
proof -
  obtain r d' where a: "AssignEvent parse no_faults now i w StatusQueued StatusProcessing d = (r, d')"
    by fastforce
  moreover have "r = None"
    using a assms by (simp add: repo_unfold locked_event_def no_faults_def apply_outcome_def)
  ultimately have a: "AssignEvent parse no_faults now i w StatusQueued StatusProcessing d = (None, d')" by simp
  from assms(1) a show ?thesis
    by (cases rule: AssignEvent_cases) (use a assms in \<open>auto simp: row_moved_def\<close>)
qed

lemma claims_first_wins:
  assumes "wf_db d" and row: "event_row d i = Some row" "eStatus row = StatusQueued"
    and nf: "list_all (\<lambda>(flt, now, w). flt = no_faults) cs'"
  shows "fst (claims parse i ((no_faults, now, w) # cs') d) =
       None # replicate (length cs') (Some ErrInvalidStateTransition) \<and>
     event_row (snd (claims parse i ((no_faults, now, w) # cs') d)) i =
       Some (assigned_row now (parsed_worker parse w) StatusProcessing row)"
proof -
  obtain d' where d': "AssignEvent parse no_faults now i w StatusQueued StatusProcessing d = (None, d')"
    "wf_db d'" "event_row d' i = Some (assigned_row now (parsed_worker parse w) StatusProcessing row)"
    using claim_queued [OF assms(1) row] by blast
  have "fst (claims parse i cs' d') = replicate (length cs') (Some ErrInvalidStateTransition) \<and>
        snd (claims parse i cs' d') = d'"
    using nf
  proof (induction cs')
    case (Cons c cs'')
    then show ?case using d'(2,3)
      by (cases c) (simp add: repo_unfold locked_event_def no_faults_def assigned_row_def case_prod_beta)
  qed simp
  with d' show ?thesis by (simp add: case_prod_beta)
qed

text \<open>
  Finalizations race the same way: duplicate deliveries make several workers finish the same event.
\<close>

fun finalizations ::
  "uuid \<Rightarrow> (faults \<times> time \<times> string) list \<Rightarrow> db \<Rightarrow> store_error option list \<times> db" where
  "finalizations i [] d = ([], d)"
| "finalizations i ((flt, now, h) # fs) d =
     (let (r, d1) = FinalizeEvent flt now i h d;
          (rs, d2) = finalizations i fs d1
      in (r # rs, d2))"

lemma finalizations_blocked:
  assumes "wf_db d" and "event_row d i = Some row" and "eStatus row = StatusCompleted"
  shows "snd (finalizations i fs d) = d \<and> set (fst (finalizations i fs d)) \<subseteq> {Some ErrAlreadyFinalized, Some ErrInfra}"
proof (induction fs)
  case Nil
  then show ?case by simp
next
  case (Cons x fs)
  obtain flt now h where x: "x = (flt, now, h)" by (cases x)
  have "FinalizeEvent flt now i h d \<in> {(Some ErrAlreadyFinalized, d), (Some ErrInfra, d)}"
    using assms by (simp add: FinalizeEvent_normal locked_event_def)
  with Cons x show ?case by (auto simp: case_prod_beta)
qed

lemma finalizations_one_winner:
  assumes "wf_db d"
  shows "count_list (fst (finalizations i fs d)) None \<le> 1"
  using assms
proof (induction fs arbitrary: d)
  case Nil
  then show ?case by simp
next
  case (Cons x fs)
  obtain flt now h where x: "x = (flt, now, h)" by (cases x)
  obtain r d' where f: "FinalizeEvent flt now i h d = (r, d')" by fastforce
  from Cons.prems f show ?case
  proof (cases rule: FinalizeEvent_cases)
    case same
    with Cons x f show ?thesis by (auto simp: case_prod_beta)
  next
    case (moved row)
    then have "wf_db d'" "event_row d' i = Some (updated_row now StatusCompleted row)"
      by (auto simp: row_moved_def)
    from finalizations_blocked [OF this] have "None \<notin> set (fst (finalizations i fs d'))"
      by (fastforce simp: updated_row_def)
    with x f show ?thesis by (auto simp: case_prod_beta count_list_0_iff)
  qed
qed

lemma finalizations_first_wins:
  assumes "wf_db d" and row: "event_row d i = Some row" "eStatus row = StatusProcessing"
    and idem: "idem_row d i = None" and nf: "list_all (\<lambda>(flt, now, h). flt = no_faults) fs"
  shows "fst (finalizations i ((no_faults, now, h) # fs) d) =
       None # replicate (length fs) (Some ErrAlreadyFinalized) \<and>
     event_row (snd (finalizations i ((no_faults, now, h) # fs) d)) i = Some (updated_row now StatusCompleted row) \<and>
     idem_row (snd (finalizations i ((no_faults, now, h) # fs) d)) i =
       Some \<lparr>idEventID = i, idResultHash = h, idCreatedAt = timestamptz now\<rparr>"
proof -
  obtain r d' where f: "FinalizeEvent no_faults now i h d = (r, d')" by fastforce
  have "r = None"
    using f row idem by (simp add: FinalizeEvent_normal locked_event_def no_faults_def apply_outcome_def)
  with assms(1) f have d': "event_row d' i = Some (updated_row now StatusCompleted row)"
      "idem_row d' i = Some \<lparr>idEventID = i, idResultHash = h, idCreatedAt = timestamptz now\<rparr>"
    by (cases rule: FinalizeEvent_cases; use row in \<open>auto simp: row_moved_def\<close>)+
  have "fst (finalizations i fs d') = replicate (length fs) (Some ErrAlreadyFinalized) \<and>
        snd (finalizations i fs d') = d'"
    using nf
  proof (induction fs)
    case (Cons x fs)
    then show ?case using d'(1)
      by (cases x) (simp add: FinalizeEvent_normal locked_event_def no_faults_def updated_row_def case_prod_beta)
  qed simp
  with f \<open>r = None\<close> d' show ?thesis by (simp add: case_prod_beta)
qed

section \<open>Finalized events are completed\<close>

definition finalized_ok :: "db \<Rightarrow> bool" where
  "finalized_ok d \<longleftrightarrow> (\<forall>i r. idem_row d i = Some r \<longrightarrow>
     (\<exists>row. event_row d i = Some row \<and> eStatus row = StatusCompleted))"

lemma exec_op_finalized_ok:
  assumes "wf_db d" and "finalized_ok d"
  shows "finalized_ok (exec_op jsonb parse x d)"
proof -
  let ?d = "exec_op jsonb parse x d"
  have frozen: "event_row ?d i = Some row" if "event_row d i = Some row" "eStatus row = StatusCompleted" for i row
    using exec_op_terminal [OF assms(1) that(1)] that(2) by (simp add: terminal_def)
  have "\<exists>row. event_row ?d i = Some row \<and> eStatus row = StatusCompleted"
    if new: "idem_row ?d i = Some r" for i r
  proof (cases "idem_row d i")
    case (Some r')
    with assms(2) frozen show ?thesis by (fastforce simp: finalized_ok_def)
  next
    case None
    with new have ne: "idempotency ?d \<noteq> idempotency d" by (auto simp: idem_row_def)
    show ?thesis
    proof (cases x)
      case (OpFinalizeEvent flt now j h)
      obtain a d' where f: "FinalizeEvent flt now j h d = (a, d')" by fastforce
      from assms(1) f show ?thesis
        by (cases rule: FinalizeEvent_cases)
          (use OpFinalizeEvent ne f None new in \<open>auto simp: row_moved_def updated_row_def split: if_splits\<close>)
    next
      case (OpCreate flt e)
      with ne show ?thesis
        by (auto simp: Create_def apply_outcome_def split: option.splits outcome.splits)
    next
      case (OpUpdateStatus flt now j old new)
      with ne assms(1) show ?thesis
        by (auto simp: repo_unfold locked_event_def apply_outcome_def write_row_def
            split: option.splits outcome.splits if_splits)
    next
      case (OpAssignEvent flt now j w old new)
      with ne assms(1) show ?thesis
        by (auto simp: repo_unfold locked_event_def apply_outcome_def write_row_def
            split: option.splits outcome.splits if_splits)
    next
      case (OpRecordFailure flt now j m)
      with ne show ?thesis
        by (auto simp: repo_unfold locked_event_def apply_outcome_def write_row_def
            split: option.splits outcome.splits if_splits)
    qed
  qed
  then show ?thesis by (auto simp: finalized_ok_def)
qed

lemma exec_ops_finalized_ok:
  "wf_db d \<Longrightarrow> finalized_ok d \<Longrightarrow> finalized_ok (exec_ops jsonb parse xs d)"
  by (induction xs arbitrary: d) (auto simp: exec_op_wf exec_op_finalized_ok)

section \<open>The attempt counter\<close>

text \<open>
  The operations the program makes: events are created received with no attempt, the two failure
  statuses are written by \<open>RecordFailure\<close> only, and all workers use one bound \<open>m\<close>.
\<close>

fun program_op :: "int \<Rightarrow> repo_op \<Rightarrow> bool" where
  "program_op m (OpCreate flt e) \<longleftrightarrow> eStatus e = StatusReceived \<and> eAttempt e = 0"
| "program_op m (OpUpdateStatus flt now i old new) \<longleftrightarrow> new \<noteq> StatusRetrying \<and> new \<noteq> StatusFailed"
| "program_op m (OpAssignEvent flt now i w old new) \<longleftrightarrow> new \<noteq> StatusRetrying \<and> new \<noteq> StatusFailed"
| "program_op m (OpFinalizeEvent flt now i h) \<longleftrightarrow> True"
| "program_op m (OpRecordFailure flt now i m') \<longleftrightarrow> m' = m"

definition attempts_ok :: "int \<Rightarrow> event \<Rightarrow> bool" where
  "attempts_ok m row \<longleftrightarrow> 0 \<le> eAttempt row \<and> eAttempt row \<le> m \<and> (eStatus row = StatusFailed \<longleftrightarrow> eAttempt row = m)"

definition all_attempts_ok :: "int \<Rightarrow> db \<Rightarrow> bool" where
  "all_attempts_ok m d \<longleftrightarrow> (\<forall>i row. event_row d i = Some row \<longrightarrow> attempts_ok m row)"

lemma all_attempts_upd:
  "all_attempts_ok m d \<Longrightarrow> event_row d' = (event_row d)(i \<mapsto> row) \<Longrightarrow> attempts_ok m row \<Longrightarrow> all_attempts_ok m d'"
  by (auto simp: all_attempts_ok_def)

lemma attempts_ok_updated:
  "IsValidTransition (eStatus row) new \<Longrightarrow> new \<noteq> StatusFailed \<Longrightarrow> attempts_ok m row \<Longrightarrow>
   attempts_ok m (updated_row now new row) \<and> attempts_ok m (assigned_row now w new row)"
  by (auto simp: attempts_ok_def updated_row_def assigned_row_def IsValidTransition_iff lifecycle_def)

lemma attempts_ok_failed:
  "eStatus row = StatusProcessing \<Longrightarrow> attempts_ok m row \<Longrightarrow> attempts_ok m (failed_row now m row)"
  by (auto simp: attempts_ok_def failed_row_def)

lemma exec_op_attempts:
  assumes "wf_db d" and "all_attempts_ok m d" and "program_op m x" and "0 < m"
  shows "all_attempts_ok m (exec_op jsonb parse x d)"
proof (cases x)
  case (OpCreate flt e)
  obtain r d' where c: "Create jsonb flt e d = (r, d')" by fastforce
  from assms(1) c show ?thesis
    by (cases rule: Create_cases)
      (use OpCreate c assms in \<open>auto simp: attempts_ok_def elim!: all_attempts_upd\<close>)
next
  case (OpUpdateStatus flt now i old new)
  obtain r d' where c: "UpdateStatus flt now i old new d = (r, d')" by fastforce
  from assms(1) c show ?thesis
  proof (cases rule: UpdateStatus_cases)
    case (moved row)
    with assms have "attempts_ok m (updated_row now new row)"
      using OpUpdateStatus attempts_ok_updated [of row new m] by (auto simp: row_moved_def all_attempts_ok_def)
    with moved OpUpdateStatus c assms show ?thesis
      by (auto simp: row_moved_def elim!: all_attempts_upd)
  qed (use OpUpdateStatus c assms in auto)
next
  case (OpAssignEvent flt now i w old new)
  obtain r d' where c: "AssignEvent parse flt now i w old new d = (r, d')" by fastforce
  from assms(1) c show ?thesis
  proof (cases rule: AssignEvent_cases)
    case (moved row)
    with assms have "attempts_ok m (assigned_row now (parsed_worker parse w) new row)"
      using OpAssignEvent attempts_ok_updated [of row new m] by (auto simp: row_moved_def all_attempts_ok_def)
    with moved OpAssignEvent c assms show ?thesis
      by (auto simp: row_moved_def elim!: all_attempts_upd)
  qed (use OpAssignEvent c assms in auto)
next
  case (OpFinalizeEvent flt now i h)
  obtain r d' where c: "FinalizeEvent flt now i h d = (r, d')" by fastforce
  from assms(1) c show ?thesis
  proof (cases rule: FinalizeEvent_cases)
    case (moved row)
    with assms have "attempts_ok m (updated_row now StatusCompleted row)"
      using attempts_ok_updated [of row StatusCompleted m] by (auto simp: row_moved_def all_attempts_ok_def)
    with moved OpFinalizeEvent c assms show ?thesis
      by (auto simp: row_moved_def elim!: all_attempts_upd)
  qed (use OpFinalizeEvent c assms in auto)
next
  case (OpRecordFailure flt now i m')
  obtain s r d' where c: "RecordFailure flt now i m' d = ((s, r), d')" by (metis surj_pair)
  from assms(1) c show ?thesis
  proof (cases rule: RecordFailure_cases)
    case (moved row)
    with assms OpRecordFailure have "attempts_ok m (failed_row now m' row)"
      using attempts_ok_failed [of row m] by (auto simp: row_moved_def all_attempts_ok_def)
    with moved OpRecordFailure c assms show ?thesis
      by (auto simp: row_moved_def elim!: all_attempts_upd)
  qed (use OpRecordFailure c assms in auto)
qed

lemma exec_ops_attempts:
  "wf_db d \<Longrightarrow> all_attempts_ok m d \<Longrightarrow> list_all (program_op m) xs \<Longrightarrow> 0 < m \<Longrightarrow>
   all_attempts_ok m (exec_ops jsonb parse xs d)"
  by (induction xs arbitrary: d) (auto simp: exec_op_wf exec_op_attempts)

section \<open>Queries\<close>

definition newest_first :: "event \<Rightarrow> event \<Rightarrow> bool" where
  "newest_first a b \<longleftrightarrow> eCreatedAt b \<le> eCreatedAt a"

lemma sorted_newest: "sorted_wrt newest_first (sort_key (\<lambda>r. - eCreatedAt r) xs)"
proof -
  have "sorted (map (\<lambda>r. - eCreatedAt r) (sort_key (\<lambda>r. - eCreatedAt r) xs))" by (rule sorted_sort_key)
  then show ?thesis by (simp add: sorted_map newest_first_def [abs_def])
qed

lemma newest_first_times:
  assumes "map eCreatedAt xs = map eCreatedAt ys"
  shows "sorted_wrt newest_first xs = sorted_wrt newest_first ys"
proof -
  have "sorted_wrt newest_first zs = sorted_wrt (\<ge>) (map eCreatedAt zs)" for zs
    by (simp add: sorted_wrt_map newest_first_def [abs_def])
  with assms show ?thesis by simp
qed

text \<open>
  Two scans of the same rows, sorted by a key, give the same keys at every place, and the same rows
  wherever a key belongs to one row only.
\<close>

lemma sort_key_keys:
  assumes "mset xs = mset ys"
  shows "map f (sort_key f xs) = map f (sort_key f ys)"
proof -
  have "map f (sort_key f zs) = sort (map f zs)" for zs
    by (rule properties_for_sort [symmetric]) (simp_all add: mset_map)
  moreover have "sort (map f xs) = sort (map f ys)"
    by (rule properties_for_sort) (simp_all add: mset_map assms)
  ultimately show ?thesis by simp
qed

lemma count_by_key:
  assumes "\<forall>x \<in> set xs. f x = f a \<longrightarrow> x = a"
  shows "count_list xs a = count_list (map f xs) (f a)"
  using assms by (induction xs) auto

lemma ListEvents_page:
  assumes "0 \<le> l" and "0 \<le> off"
  shows "ListEvents ord no_faults l off d =
    Inr (take (nat l) (drop (nat off) (sort_key (\<lambda>r. - eCreatedAt r) (ord (events d)))))"
  using assms by (simp add: ListEvents_def no_faults_def)

lemma page_times:
  assumes "0 \<le> l" and "0 \<le> l'" and "0 \<le> off" and "\<And>rows. mset (ord rows) = mset rows"
    and "\<And>rows. mset (ord' rows) = mset rows" and "\<And>rows. mset (ord'' rows) = mset rows"
    and "ListEvents ord no_faults l off d = Inr xs" and "ListEvents ord' no_faults l' (off + l) d = Inr ys"
    and "ListEvents ord'' no_faults (l + l') off d = Inr zs"
  shows "map eCreatedAt (xs @ ys) = map eCreatedAt zs"
proof -
  let ?k = "\<lambda>r. - eCreatedAt r"
  have key: "map ?k (sort_key ?k (f (events d))) = map ?k (sort_key ?k (g (events d)))"
    if "\<And>rows. mset (f rows) = mset rows" "\<And>rows. mset (g rows) = mset rows" for f g
    by (rule sort_key_keys) (simp add: that)
  have "xs = take (nat l) (drop (nat off) (sort_key ?k (ord (events d))))"
    "ys = take (nat l') (drop (nat (off + l)) (sort_key ?k (ord' (events d))))"
    "zs = take (nat (l + l')) (drop (nat off) (sort_key ?k (ord'' (events d))))"
    using assms by (simp_all add: ListEvents_page)
  then have "map ?k (xs @ ys) = map ?k zs"
    using assms(1-3) key [OF assms(4,6)] key [OF assms(5,6)]
    by (simp add: take_map [symmetric] drop_map [symmetric] nat_add_distrib take_add add.commute)
  then have "map uminus (map ?k (xs @ ys)) = map uminus (map ?k zs)" by simp
  then show ?thesis by (simp add: comp_def)
qed

lemma ListEvents_sound:
  assumes "ListEvents ord flt l off d = Inr xs" and "mset (ord (events d)) = mset (events d)"
  shows "sorted_wrt newest_first xs" and "mset xs \<subseteq># mset (events d)"
    and "length xs = min (nat l) (length (events d) - nat off)"
    and "off = 0 \<Longrightarrow> length (events d) \<le> nat l \<Longrightarrow> mset xs = mset (events d)"
proof -
  let ?s = "sort_key (\<lambda>r. - eCreatedAt r) (ord (events d))"
  have xs: "xs = take (nat l) (drop (nat off) ?s)"
    using assms(1) by (auto simp: ListEvents_def split: if_splits)
  have len: "length (ord (events d)) = length (events d)"
    using arg_cong [OF assms(2), of size] by simp
  show "sorted_wrt newest_first xs"
    unfolding xs by (intro sorted_wrt_take sorted_wrt_drop sorted_newest)
  show "length xs = min (nat l) (length (events d) - nat off)" unfolding xs by (simp add: len min.commute)
  show "mset xs \<subseteq># mset (events d)"
  proof -
    have "mset xs \<subseteq># mset ?s" unfolding xs
      by (metis append_take_drop_id mset_append mset_subset_eq_add_left mset_subset_eq_add_right subset_mset.order_trans)
    then show ?thesis using assms(2) by simp
  qed
  show "mset xs = mset (events d)" if "off = 0" "length (events d) \<le> nat l"
    unfolding xs using that assms(2) by (simp add: len)
qed

lemma GetStaleEvents_exact:
  assumes "GetStaleEvents ord flt s t d = Inr xs" and "mset (ord (events d)) = mset (events d)"
  shows "sorted (map eUpdatedAt xs)"
    and "mset xs = filter_mset (\<lambda>r. eStatus r = s \<and> eUpdatedAt r < timestamptz t) (mset (events d))"
  using assms by (auto simp: GetStaleEvents_def split: if_splits)

section \<open>Workers and idempotency records\<close>

lemma stored_worker_id [simp]: "wkID (stored_worker w) = wkID w" "wkStatus (stored_worker w) = wkStatus w"
  by (simp_all add: stored_worker_def)

lemma Upsert_effect:
  assumes "wf_db d" and "varchar 20 (wkStatus w)"
  shows "row_select wkID (workers (snd (Upsert no_faults w d))) =
     (row_select wkID (workers d))(wkID w \<mapsto>
        (case row_select wkID (workers d) (wkID w) of
           None \<Rightarrow> stored_worker w | Some r \<Rightarrow> (stored_worker w)\<lparr>wkCreatedAt := wkCreatedAt r\<rparr>))"
proof (cases "row_insert wkID (stored_worker w) (workers d)")
  case (Some rows)
  have "row_select wkID (workers d) (wkID w) = None"
    using Some worker_rows.insert_conflict [of "stored_worker w" "workers d"] by (cases "row_select wkID (workers d) (wkID w)") auto
  with Some worker_rows.select_insert [OF Some] show ?thesis using assms(2)
    by (simp add: Upsert_def Let_def apply_outcome_def no_faults_def)
next
  case None
  then obtain r where r: "row_select wkID (workers d) (wkID w) = Some r"
    using worker_rows.insert_conflict [of "stored_worker w" "workers d"] by auto
  then have "wkID r = wkID (stored_worker w)" using worker_rows.select_key [OF r] by (simp add: stored_worker_def)
  then have "r\<lparr>wkStatus := wkStatus (stored_worker w), wkLastHeartbeat := wkLastHeartbeat (stored_worker w),
      wkCurrentEventID := wkCurrentEventID (stored_worker w), wkUpdatedAt := wkUpdatedAt (stored_worker w)\<rparr> = (stored_worker w)\<lparr>wkCreatedAt := wkCreatedAt r\<rparr>"
    by (intro worker_row.equality) simp_all
  with None r show ?thesis using assms(2)
    by (simp add: Upsert_def Let_def apply_outcome_def no_faults_def row_select_update)
qed

lemma MarkOffline_effect:
  assumes "MarkOffline no_faults now t d = ((n, None), d')"
  shows "n = int (length (filter (\<lambda>w. wkStatus w \<noteq> ''OFFLINE'' \<and> wkLastHeartbeat w < timestamptz t) (workers d)))"
    and "list_all (\<lambda>w. wkLastHeartbeat w < timestamptz t \<longrightarrow> wkStatus w = ''OFFLINE'') (workers d')"
    and "MarkOffline no_faults now' t d' = ((0, None), d')"
proof -
  have w: "workers d' = map (\<lambda>r. if wkStatus r \<noteq> ''OFFLINE'' \<and> wkLastHeartbeat r < timestamptz t
        then r\<lparr>wkStatus := ''OFFLINE'', wkUpdatedAt := timestamptz now\<rparr> else r) (workers d)"
    and n: "n = int (length (filter (\<lambda>w. wkStatus w \<noteq> ''OFFLINE'' \<and> wkLastHeartbeat w < timestamptz t) (workers d)))"
    using assms by (auto simp: MarkOffline_def rows_update_def apply_outcome_def no_faults_def)
  show "n = int (length (filter (\<lambda>w. wkStatus w \<noteq> ''OFFLINE'' \<and> wkLastHeartbeat w < timestamptz t) (workers d)))"
    by (rule n)
  show off: "list_all (\<lambda>w. wkLastHeartbeat w < timestamptz t \<longrightarrow> wkStatus w = ''OFFLINE'') (workers d')"
    by (auto simp: w list_all_iff)
  then have "filter (\<lambda>r. wkStatus r \<noteq> ''OFFLINE'' \<and> wkLastHeartbeat r < timestamptz t) (workers d') = []"
    by (auto simp: filter_empty_conv list_all_iff)
  moreover have "map (\<lambda>r. if wkStatus r \<noteq> ''OFFLINE'' \<and> wkLastHeartbeat r < timestamptz t
        then r\<lparr>wkStatus := ''OFFLINE'', wkUpdatedAt := timestamptz now'\<rparr> else r) (workers d') = workers d'"
    using off by (intro map_idI) (auto simp: list_all_iff)
  ultimately show "MarkOffline no_faults now' t d' = ((0, None), d')"
    by (simp add: MarkOffline_def rows_update_def apply_outcome_def no_faults_def)
qed

section \<open>A table with one event\<close>

definition sample_event :: "event_status \<Rightarrow> event" where
  "sample_event s =
     \<lparr> eID = 7, eType = TypeOrderCreated, ePayload = ''{}'', ePriority = PriorityNormal, eStatus = s,
       eAttempt = 0, eWorkerID = None, eCreatedAt = 100000, eUpdatedAt = 100000, eCompletedAt = None \<rparr>"

definition sample_db :: "event_status \<Rightarrow> db" where
  "sample_db s = empty_db\<lparr>events := [sample_event s]\<rparr>"

lemma sample_db_simps [simp]:
  "wf_db (sample_db s)"
  "event_row (sample_db s) i = (if i = 7 then Some (sample_event s) else None)"
  "idem_row (sample_db s) i = None"
  "eStatus (sample_event s) = s" "eAttempt (sample_event s) = 0"
  by (simp_all add: sample_db_def empty_db_def wf_db_def unique_key_def event_row_def idem_row_def
      row_select_def sample_event_def)

lemma sample_db_ok [simp]: "finalized_ok (sample_db s)" "s \<noteq> StatusFailed \<Longrightarrow> 0 < m \<Longrightarrow> all_attempts_ok m (sample_db s)"
  by (simp_all add: finalized_ok_def all_attempts_ok_def attempts_ok_def)

section \<open>Properties\<close>

text \<open>
  Every sequence of repository operations, with any faults, takes a row only along arrows of the
  state machine and never changes its id, type, payload, priority or creation time; no row disappears.
\<close>

theorem statuses_follow_lifecycle:
  assumes "wf_db d" and "event_row d i = Some row"
  shows "\<exists>row'. event_row (exec_ops jsonb parse xs d) i = Some row' \<and>
           (eStatus row, eStatus row') \<in> lifecycle\<^sup>* \<and> same_identity row row'"
  using assms by (rule exec_ops_row)

theorem statuses_follow_lifecycle_witness:
  "\<exists>row'. event_row (exec_ops Some (\<lambda>_. None)
       [OpAssignEvent no_faults 101 7 ''worker-1'' StatusQueued StatusProcessing,
        OpFinalizeEvent no_faults 102 7 ''h''] (sample_db StatusQueued)) 7 = Some row' \<and>
     (eStatus (sample_event StatusQueued), eStatus row') \<in> lifecycle\<^sup>* \<and>
     same_identity (sample_event StatusQueued) row'"
  by (rule statuses_follow_lifecycle) simp_all

text \<open>
  A row that is completed or failed is never written again, by any sequence of operations: its
  status, attempt, owner and timestamps stay what they are.
\<close>

theorem terminal_rows_frozen:
  assumes "wf_db d" and "event_row d i = Some row" and "eStatus row \<in> {StatusCompleted, StatusFailed}"
  shows "event_row (exec_ops jsonb parse xs d) i = Some row"
  using assms exec_ops_terminal [of d i row] by (auto simp: terminal_def)

theorem terminal_rows_frozen_witness:
  "event_row (exec_ops Some (\<lambda>_. None)
     [OpRecordFailure no_faults 101 7 3, OpUpdateStatus no_faults 102 7 StatusProcessing StatusQueued]
     (sample_db StatusCompleted)) 7 = Some (sample_event StatusCompleted)"
  by (rule terminal_rows_frozen) simp_all

text \<open>
  C6 Whatever faults occur, at most one of the workers that race for an event is told that it got it;
  without faults, on a queued event, it is the first one, the others are told of the conflict, and the
  row is processing under the first one's name.
\<close>

theorem claim_race:
  assumes "wf_db d"
  shows "count_list (fst (claims parse i cs d)) None \<le> 1 \<and>
    (\<forall>row now w cs'. event_row d i = Some row \<and> eStatus row = StatusQueued \<and> cs = (no_faults, now, w) # cs' \<and>
       list_all (\<lambda>(flt, now, w). flt = no_faults) cs' \<longrightarrow>
       fst (claims parse i cs d) = None # replicate (length cs') (Some ErrInvalidStateTransition) \<and>
       event_row (snd (claims parse i cs d)) i =
         Some (assigned_row now (parsed_worker parse w) StatusProcessing row))"
  using claims_one_winner [OF assms, of parse i cs] claims_first_wins [OF assms, of i _ _ parse] by blast

theorem claim_race_witness:
  "fst (claims (\<lambda>_. Some 1) 7 [(no_faults, 101, ''a''), (no_faults, 102, ''b''), (no_faults, 103, ''c'')]
      (sample_db StatusQueued)) =
     [None, Some ErrInvalidStateTransition, Some ErrInvalidStateTransition]"
  using claim_race [of "sample_db StatusQueued" "\<lambda>_. Some 1" 7
      "[(no_faults, 101, ''a''), (no_faults, 102, ''b''), (no_faults, 103, ''c'')]"]
  by simp

text \<open>
  C7 An event is finalized at most once however many workers try and whatever faults occur; without
  faults the first attempt on a processing event completes it and leaves its result hash in the
  idempotency table, and every later one is told that the event is finalized already.
\<close>

theorem finalize_once:
  assumes "wf_db d"
  shows "count_list (fst (finalizations i fs d)) None \<le> 1 \<and>
    (\<forall>row now h fs'. event_row d i = Some row \<and> eStatus row = StatusProcessing \<and> idem_row d i = None \<and>
       fs = (no_faults, now, h) # fs' \<and> list_all (\<lambda>(flt, now, h). flt = no_faults) fs' \<longrightarrow>
       fst (finalizations i fs d) = None # replicate (length fs') (Some ErrAlreadyFinalized) \<and>
       event_row (snd (finalizations i fs d)) i = Some (updated_row now StatusCompleted row) \<and>
       idem_row (snd (finalizations i fs d)) i =
         Some \<lparr>idEventID = i, idResultHash = h, idCreatedAt = timestamptz now\<rparr>)"
  using finalizations_one_winner [OF assms, of i fs] finalizations_first_wins [OF assms, of i] by blast

theorem finalize_once_witness:
  "fst (finalizations 7 [(no_faults, 101, ''h''), (no_faults, 102, ''k'')] (sample_db StatusProcessing)) =
     [None, Some ErrAlreadyFinalized]"
  using finalize_once [of "sample_db StatusProcessing" 7 "[(no_faults, 101, ''h''), (no_faults, 102, ''k'')]"]
  by simp

text \<open>
  C16 Faults cannot tear an operation: the database is afterwards either as before or as the operation
  without faults leaves it, and an operation that reports success has had exactly its fault-free effect
  and answer.
\<close>

theorem faults_are_atomic:
  assumes "wf_db d"
  shows "(exec_op jsonb parse x d = d \<or> exec_op jsonb parse x d = exec_op jsonb parse (without_faults x) d) \<and>
    (snd (reply_op jsonb parse x d) = None \<longrightarrow>
       exec_op jsonb parse x d = exec_op jsonb parse (without_faults x) d \<and>
       reply_op jsonb parse x d = reply_op jsonb parse (without_faults x) d)"
  using exec_op_atomic [OF assms] reply_None_applied [OF assms] by blast

theorem faults_are_atomic_witness:
  "exec_op Some (\<lambda>_. None) (OpFinalizeEvent (no_faults(CallCommit := Lost)) 101 7 ''h'') (sample_db StatusProcessing)
     \<in> {sample_db StatusProcessing,
        exec_op Some (\<lambda>_. None) (OpFinalizeEvent no_faults 101 7 ''h'') (sample_db StatusProcessing)}"
  using faults_are_atomic [of "sample_db StatusProcessing" Some "\<lambda>_. None"
      "OpFinalizeEvent (no_faults(CallCommit := Lost)) 101 7 ''h''"]
  by simp

text \<open>
  C10 The SQL transactions refine the abstract repository: without faults, the answer of an operation
  and its effect on the event and idempotency tables, read as maps, are those of the specification (a
  guarded move of one event along the lifecycle), including which error is reported when.
\<close>

theorem repository_refines_spec:
  assumes "wf_db d"
  shows "(reply_op jsonb parse (without_faults x) d, abs_db (exec_op jsonb parse (without_faults x) d)) =
     spec_op jsonb parse x (abs_db d)"
  using assms by (rule exec_op_refines)

theorem repository_refines_spec_witness:
  "(reply_op Some (\<lambda>_. None) (without_faults (OpRecordFailure no_faults 101 7 1)) (sample_db StatusProcessing),
    abs_db (exec_op Some (\<lambda>_. None) (without_faults (OpRecordFailure no_faults 101 7 1)) (sample_db StatusProcessing))) =
   spec_op Some (\<lambda>_. None) (OpRecordFailure no_faults 101 7 1) (abs_db (sample_db StatusProcessing))"
  by (rule repository_refines_spec) simp

text \<open>
  An idempotency record is only ever found beside a completed event: the invariant holds after every
  sequence of repository operations with any faults if it held before.
\<close>

theorem finalized_implies_completed:
  assumes "wf_db d" and "finalized_ok d"
  shows "finalized_ok (exec_ops jsonb parse xs d)"
  using assms by (rule exec_ops_finalized_ok)

theorem finalized_implies_completed_witness:
  "finalized_ok (exec_ops Some (\<lambda>_. None)
     [OpFinalizeEvent (no_faults(CallCommit := Lost)) 101 7 ''h'', OpFinalizeEvent no_faults 102 7 ''k'']
     (sample_db StatusProcessing))"
  by (rule finalized_implies_completed) simp_all

text \<open>
  C15 With one bound on the attempts, no event is ever attempted more often than the bound, and an event
  is failed exactly when its last allowed attempt has failed.
\<close>

theorem failed_after_max_attempts:
  assumes "wf_db d" and "all_attempts_ok m d" and "list_all (program_op m) xs" and "0 < m"
    and "event_row (exec_ops jsonb parse xs d) i = Some row"
  shows "0 \<le> eAttempt row \<and> eAttempt row \<le> m \<and> (eStatus row = StatusFailed \<longleftrightarrow> eAttempt row = m)"
  using exec_ops_attempts [OF assms(1-4), of jsonb parse] assms(5)
  by (auto simp: all_attempts_ok_def attempts_ok_def)

theorem failed_after_max_attempts_witness:
  "let row = failed_row 101 1 (sample_event StatusProcessing) in
     0 \<le> eAttempt row \<and> eAttempt row \<le> 1 \<and> (eStatus row = StatusFailed \<longleftrightarrow> eAttempt row = 1)"
  unfolding Let_def
  by (rule failed_after_max_attempts [of "sample_db StatusProcessing" 1 "[OpRecordFailure no_faults 101 7 1]" Some "\<lambda>_. None" 7])
    (simp_all add: RecordFailure_normal locked_event_def no_faults_def apply_outcome_def event_row_write_row failure_set_row)

text \<open>
  C38 The server may scan the rows in a different order for every query, and \<open>ORDER BY created_at\<close> has no
  tie-breaker. Whatever the orders: a page has the requested length as far as there are rows and holds
  rows of the table only, none twice; two adjacent pages together are in descending order of creation,
  with at every place the creation time the double page has there; an event that shares its creation time with no
  other is in the two pages exactly as often as in the double page, neither skipped nor repeated; and
  without equal creation times the two pages are the halves of the double page. With equal times a page
  can repeat an event of the page before (\<open>tied_pages_repeat\<close>).
\<close>

theorem list_pages:
  assumes "0 \<le> l" and "0 \<le> l'" and "0 \<le> off" and "\<forall>rows. mset (ord rows) = mset rows"
    and "\<forall>rows. mset (ord' rows) = mset rows" and "\<forall>rows. mset (ord'' rows) = mset rows"
  shows "\<exists>xs ys zs. ListEvents ord no_faults l off d = Inr xs \<and> ListEvents ord' no_faults l' (off + l) d = Inr ys \<and>
    ListEvents ord'' no_faults (l + l') off d = Inr zs \<and>
    length xs = min (nat l) (length (events d) - nat off) \<and> mset xs \<subseteq># mset (events d) \<and>
    sorted_wrt newest_first (xs @ ys) \<and> map eCreatedAt (xs @ ys) = map eCreatedAt zs \<and>
    (\<forall>r. (\<forall>r' \<in> set (events d). eCreatedAt r' = eCreatedAt r \<longrightarrow> r' = r) \<longrightarrow>
       count_list (xs @ ys) r = count_list zs r) \<and>
    (distinct (map eCreatedAt (events d)) \<longrightarrow> xs @ ys = zs)"
proof -
  obtain xs ys zs where p: "ListEvents ord no_faults l off d = Inr xs"
      "ListEvents ord' no_faults l' (off + l) d = Inr ys" "ListEvents ord'' no_faults (l + l') off d = Inr zs"
    using ListEvents_page assms(1-3) by simp
  have times: "map eCreatedAt (xs @ ys) = map eCreatedAt zs"
    by (rule page_times [OF assms(1-3) _ _ _ p]) (use assms(4-6) in simp_all)
  note x = ListEvents_sound [OF p(1) assms(4) [rule_format]] and y = ListEvents_sound [OF p(2) assms(5) [rule_format]]
    and z = ListEvents_sound [OF p(3) assms(6) [rule_format]]
  have sets: "set (xs @ ys) \<subseteq> set (events d)" "set zs \<subseteq> set (events d)"
    using set_mset_mono [OF x(2)] set_mset_mono [OF y(2)] set_mset_mono [OF z(2)] by auto
  have sorted: "sorted_wrt newest_first (xs @ ys)"
    using newest_first_times [OF times] z(1) by simp
  have alone: "count_list (xs @ ys) r = count_list zs r"
    if "\<forall>r' \<in> set (events d). eCreatedAt r' = eCreatedAt r \<longrightarrow> r' = r" for r
  proof -
    have "\<forall>x \<in> set (xs @ ys). eCreatedAt x = eCreatedAt r \<longrightarrow> x = r" "\<forall>x \<in> set zs. eCreatedAt x = eCreatedAt r \<longrightarrow> x = r"
      using that sets by blast+
    from this [THEN count_by_key] times show ?thesis by (simp only:)
  qed
  have halves: "xs @ ys = zs" if "distinct (map eCreatedAt (events d))"
    using times sets map_inj_on [of eCreatedAt "xs @ ys" zs] that inj_on_subset [of eCreatedAt "set (events d)"]
    by (simp add: distinct_map)
  show ?thesis using p x(2,3) sorted times alone halves by (intro exI [of _ xs] exI [of _ ys] exI [of _ zs]) blast
qed

definition two_rows :: "time \<Rightarrow> time \<Rightarrow> db" where
  "two_rows t u = empty_db\<lparr>events := [(sample_event StatusQueued)\<lparr>eCreatedAt := t\<rparr>,
     (sample_event StatusQueued)\<lparr>eID := 8, eCreatedAt := u\<rparr>]\<rparr>"

theorem list_pages_witness:
  "\<exists>xs ys zs. ListEvents (\<lambda>r. r) no_faults 1 0 (two_rows 1000 2000) = Inr xs \<and>
    ListEvents rev no_faults 1 (0 + 1) (two_rows 1000 2000) = Inr ys \<and>
    ListEvents (\<lambda>r. r) no_faults (1 + 1) 0 (two_rows 1000 2000) = Inr zs \<and> xs @ ys = zs"
proof -
  have "distinct (map eCreatedAt (events (two_rows 1000 2000)))" by (simp add: two_rows_def empty_db_def)
  with list_pages [of 1 1 0 "\<lambda>r. r" rev "\<lambda>r. r" "two_rows 1000 2000"] show ?thesis by simp blast
qed

lemma tied_pages_repeat:
  "ListEvents (\<lambda>r. r) no_faults 1 0 (two_rows 1000 1000) = ListEvents rev no_faults 1 1 (two_rows 1000 1000)"
  by (simp add: ListEvents_def no_faults_def two_rows_def empty_db_def)

text \<open>
  The scheduler's query returns exactly the rows with the given status not written since the cutoff,
  each once, the stalest first.
\<close>

theorem stale_events_exact:
  assumes "GetStaleEvents ord flt s t d = Inr xs" and "\<forall>rows. mset (ord rows) = mset rows"
  shows "sorted (map eUpdatedAt xs) \<and>
    mset xs = filter_mset (\<lambda>r. eStatus r = s \<and> eUpdatedAt r < timestamptz t) (mset (events d))"
  using GetStaleEvents_exact [OF assms(1)] assms(2) by blast

theorem stale_events_exact_witness:
  "sorted (map eUpdatedAt [sample_event StatusProcessing]) \<and>
   mset [sample_event StatusProcessing] =
     filter_mset (\<lambda>r. eStatus r = StatusProcessing \<and> eUpdatedAt r < timestamptz 200000) (mset (events (sample_db StatusProcessing)))"
  by (rule stale_events_exact [of "\<lambda>r. r" no_faults StatusProcessing 200000])
    (simp_all add: GetStaleEvents_def no_faults_def sample_db_def sample_event_def)

text \<open>
  Upserting a worker stores its status, heartbeat and current event and keeps the creation time of
  the first insert; marking workers offline counts and changes exactly the ones whose heartbeat is
  older than the threshold, and a second pass over the same threshold finds nothing left to do.
\<close>

theorem worker_registry:
  assumes "wf_db d" and "varchar 20 (wkStatus w)"
  shows "row_select wkID (workers (snd (Upsert no_faults w d))) =
     (row_select wkID (workers d))(wkID w \<mapsto>
        (case row_select wkID (workers d) (wkID w) of
           None \<Rightarrow> stored_worker w | Some r \<Rightarrow> (stored_worker w)\<lparr>wkCreatedAt := wkCreatedAt r\<rparr>)) \<and>
    (\<forall>now now' t n d'. MarkOffline no_faults now t d = ((n, None), d') \<longrightarrow>
       n = int (length (filter (\<lambda>w. wkStatus w \<noteq> ''OFFLINE'' \<and> wkLastHeartbeat w < timestamptz t) (workers d))) \<and>
       list_all (\<lambda>w. wkLastHeartbeat w < timestamptz t \<longrightarrow> wkStatus w = ''OFFLINE'') (workers d') \<and>
       MarkOffline no_faults now' t d' = ((0, None), d'))"
  using Upsert_effect [OF assms] MarkOffline_effect by blast

theorem worker_registry_witness:
  "row_select wkID (workers (snd (Upsert no_faults
       \<lparr>wkID = 3, wkStatus = ''READY'', wkLastHeartbeat = 50000, wkCurrentEventID = None, wkCreatedAt = 40000, wkUpdatedAt = 50000\<rparr>
       empty_db))) 3 =
     Some \<lparr>wkID = 3, wkStatus = ''READY'', wkLastHeartbeat = 50000, wkCurrentEventID = None, wkCreatedAt = 40000, wkUpdatedAt = 50000\<rparr>"
  using worker_registry [of empty_db
      "\<lparr>wkID = 3, wkStatus = ''READY'', wkLastHeartbeat = 50000, wkCurrentEventID = None, wkCreatedAt = 40000, wkUpdatedAt = 50000\<rparr>"]
  by (simp add: empty_db_def wf_db_def unique_key_def row_select_def varchar_def stored_worker_def)

end
