(* ===== verification/Queue.thy ===== *)
theory Queue
  imports Event
begin

text \<open>
  \<open>internal/queue\<close>: the job and the interfaces (\<open>queue.go\<close>) and the Redis Streams implementation
  (\<open>redis/queue.go\<close>). The Redis server is not part of the repository: its commands are the fields of a
  record the operations take, over a server state \<open>'r\<close> that stays abstract, and so is the encoding of
  an event as a message \<open>'m\<close>. What the code relies on is the locale \<open>redis_streams\<close>, stated on what a
  consumer group can see of a stream: the entries it has not been given yet and its pending entries.
\<close>

section \<open>Jobs and errors\<close>

record job =
  jEvent :: event
  jReceipt :: string
  jQueue :: string
  jGroup :: string

datatype queue_error =
    MarshalFailed
  | RedisError string
  | GroupCreateFailed string string
  | ReadFailed string string
  | MissingData
  | UnmarshalFailed
  | InvalidJob
  | RepublishFailed queue_error
  | AckOriginalFailed queue_error
  | CtxDone

section \<open>The client of the server\<close>

text \<open>
  \<open>ReadNil\<close> is the answer \<open>redis.Nil\<close>, or an answer without messages; a message comes with its id and
  the string under its key \<open>data\<close>, when there is one.
\<close>

datatype 'm read_reply = ReadError string | ReadNil | ReadMsg string "'m option"

record ('m, 'r) redis_client =
  XGroupCreateMkStream :: "string \<Rightarrow> string \<Rightarrow> 'r \<Rightarrow> string option \<times> 'r"
  XAdd :: "string \<Rightarrow> 'm \<Rightarrow> 'r \<Rightarrow> string option \<times> 'r"
  XReadGroup :: "string \<Rightarrow> string \<Rightarrow> string \<Rightarrow> 'r \<Rightarrow> 'm read_reply \<times> 'r"
  XAck :: "string \<Rightarrow> string \<Rightarrow> string \<Rightarrow> 'r \<Rightarrow> string option \<times> 'r"

section \<open>Operations\<close>

definition StreamHigh :: string where "StreamHigh = ''events:high''"
definition StreamNormal :: string where "StreamNormal = ''events:normal''"
definition StreamLow :: string where "StreamLow = ''events:low''"

definition AllStreams :: "string list" where
  "AllStreams = [StreamHigh, StreamNormal, StreamLow]"

lemma streams_distinct [simp]:
  "StreamHigh \<noteq> StreamNormal" "StreamHigh \<noteq> StreamLow" "StreamNormal \<noteq> StreamLow"
  "StreamNormal \<noteq> StreamHigh" "StreamLow \<noteq> StreamHigh" "StreamLow \<noteq> StreamNormal"
  "StreamHigh \<noteq> ''''" "StreamNormal \<noteq> ''''" "StreamLow \<noteq> ''''"
  by (simp_all add: StreamHigh_def StreamNormal_def StreamLow_def)

fun init_groups :: "('m, 'r) redis_client \<Rightarrow> string \<Rightarrow> string list \<Rightarrow> 'r \<Rightarrow> queue_error option \<times> 'r" where
  "init_groups R grp [] s = (None, s)"
| "init_groups R grp (stream # rest) s =
     (case XGroupCreateMkStream R stream grp s of
        (None, s') \<Rightarrow> init_groups R grp rest s'
      | (Some err, s') \<Rightarrow>
          if err \<noteq> ''BUSYGROUP Consumer Group name already exists'' \<and>
             err \<noteq> ''ERR BUSYGROUP Consumer Group name already exists''
          then (Some (GroupCreateFailed stream err), s')
          else init_groups R grp rest s')"

definition InitConsumerGroups :: "('m, 'r) redis_client \<Rightarrow> string \<Rightarrow> 'r \<Rightarrow> queue_error option \<times> 'r" where
  "InitConsumerGroups R grp s = init_groups R grp AllStreams s"

definition stream_of :: "int \<Rightarrow> string" where
  "stream_of priority =
     (if priority = PriorityHigh then StreamHigh
      else if priority = PriorityNormal then StreamNormal else StreamLow)"

definition Publish ::
  "('m, 'r) redis_client \<Rightarrow> (event \<Rightarrow> 'm option) \<Rightarrow> event \<Rightarrow> 'r \<Rightarrow> queue_error option \<times> 'r" where
  "Publish R marshal e s =
     (case marshal e of
        None \<Rightarrow> (Some MarshalFailed, s)
      | Some b \<Rightarrow>
          (case XAdd R (stream_of (ePriority e)) b s of
             (None, s') \<Rightarrow> (None, s')
           | (Some err, s') \<Rightarrow> (Some (RedisError err), s')))"

text \<open>The publisher from before there was a queue, \<open>NoopPublisher\<close> of \<open>queue/queue.go\<close>.\<close>

definition NoopPublisher_Publish :: "event \<Rightarrow> 'r \<Rightarrow> queue_error option \<times> 'r" where
  "NoopPublisher_Publish e s = (None, s)"

text \<open>
  One pass of \<open>Consume\<close> over the streams. Between two commands other clients act on the server:
  \<open>others stream\<close> is what they do after an empty read of \<open>stream\<close>.
\<close>

fun poll_streams ::
  "('m, 'r) redis_client \<Rightarrow> ('m \<Rightarrow> event option) \<Rightarrow> (string \<Rightarrow> 'r \<Rightarrow> 'r) \<Rightarrow> string \<Rightarrow> string \<Rightarrow> string list
    \<Rightarrow> 'r \<Rightarrow> (queue_error + job) option \<times> 'r" where
  "poll_streams R unmarshal others grp consumer [] s = (None, s)"
| "poll_streams R unmarshal others grp consumer (stream # rest) s =
     (case XReadGroup R grp consumer stream s of
        (ReadError err, s') \<Rightarrow> (Some (Inl (ReadFailed stream err)), s')
      | (ReadNil, s') \<Rightarrow> poll_streams R unmarshal others grp consumer rest (others stream s')
      | (ReadMsg ident dat, s') \<Rightarrow>
          (case dat of
             None \<Rightarrow> (Some (Inl MissingData), s')
           | Some m \<Rightarrow>
               (case unmarshal m of
                  None \<Rightarrow> (Some (Inl UnmarshalFailed), s')
                | Some e \<Rightarrow>
                    (Some (Inr \<lparr>jEvent = e, jReceipt = ident, jQueue = stream, jGroup = grp\<rparr>), s'))))"

text \<open>
  The polling loop. The context is read twice per round, before the pass and in the 100 ms sleep after
  it; the loop may run forever, so its value is an option.
\<close>

record ctx =
  done_before :: "nat \<Rightarrow> bool"
  done_asleep :: "nat \<Rightarrow> bool"

partial_function (option) Consume ::
  "('m, 'r) redis_client \<Rightarrow> ('m \<Rightarrow> event option) \<Rightarrow> ctx \<Rightarrow> (nat \<Rightarrow> string \<Rightarrow> 'r \<Rightarrow> 'r) \<Rightarrow> string \<Rightarrow> string
    \<Rightarrow> nat \<Rightarrow> 'r \<Rightarrow> ((queue_error + job) \<times> 'r) option" where
  "Consume R unmarshal c others grp consumer k s =
     (if done_before c k then Some (Inl CtxDone, s)
      else case poll_streams R unmarshal (others k) grp consumer AllStreams s of
             (Some r, s') \<Rightarrow> Some (r, s')
           | (None, s') \<Rightarrow>
               if done_asleep c k then Some (Inl CtxDone, s')
               else Consume R unmarshal c others grp consumer (Suc k) s')"

definition Ack :: "('m, 'r) redis_client \<Rightarrow> job \<Rightarrow> 'r \<Rightarrow> queue_error option \<times> 'r" where
  "Ack R j s =
     (if jReceipt j = '''' \<or> jQueue j = '''' \<or> jGroup j = '''' then (Some InvalidJob, s)
      else case XAck R (jQueue j) (jGroup j) (jReceipt j) s of
             (None, s') \<Rightarrow> (None, s')
           | (Some err, s') \<Rightarrow> (Some (RedisError err), s'))"

definition Retry ::
  "('m, 'r) redis_client \<Rightarrow> (event \<Rightarrow> 'm option) \<Rightarrow> job \<Rightarrow> 'r \<Rightarrow> queue_error option \<times> 'r" where
  "Retry R marshal j s =
     (if jReceipt j = '''' \<or> jQueue j = '''' \<or> jGroup j = '''' then (Some InvalidJob, s)
      else case Publish R marshal (jEvent j) s of
             (Some err, s') \<Rightarrow> (Some (RepublishFailed err), s')
           | (None, s') \<Rightarrow>
               (case Ack R j s' of
                  (Some err, s'') \<Rightarrow> (Some (AckOriginalFailed err), s'')
                | (None, s'') \<Rightarrow> (None, s'')))"

section \<open>What the code relies on\<close>

record 'm group_view =
  exists_group :: bool
  undelivered :: "(string \<times> 'm) list"
  pending :: "(string \<times> 'm) list"

type_synonym 'm view = "string \<Rightarrow> string \<Rightarrow> 'm group_view"

definition view_add :: "string \<Rightarrow> string \<Rightarrow> 'm \<Rightarrow> 'm view \<Rightarrow> 'm view" where
  "view_add stream ident m v =
     (\<lambda>st g. if st = stream \<and> exists_group (v st g)
             then (v st g)\<lparr>undelivered := undelivered (v st g) @ [(ident, m)]\<rparr> else v st g)"

definition view_take :: "string \<Rightarrow> string \<Rightarrow> 'm view \<Rightarrow> 'm view" where
  "view_take stream grp v =
     (\<lambda>st g. if st = stream \<and> g = grp
             then (v st g)\<lparr>undelivered := tl (undelivered (v st g)),
                           pending := pending (v st g) @ [hd (undelivered (v st g))]\<rparr> else v st g)"

definition view_ack :: "string \<Rightarrow> string \<Rightarrow> string \<Rightarrow> 'm view \<Rightarrow> 'm view" where
  "view_ack stream grp ident v =
     (\<lambda>st g. if st = stream \<and> g = grp
             then (v st g)\<lparr>pending := filter (\<lambda>p. fst p \<noteq> ident) (pending (v st g))\<rparr> else v st g)"

definition view_create :: "string \<Rightarrow> string \<Rightarrow> 'm view \<Rightarrow> 'm view" where
  "view_create stream grp v =
     (\<lambda>st g. if st = stream \<and> g = grp
             then \<lparr>exists_group = True, undelivered = [], pending = []\<rparr> else v st g)"

text \<open>
  The documented behaviour of the four stream commands. A command that reports an error has either not
  been executed or has been executed with its reply lost. \<open>XADD\<close> with \<open>*\<close> gives a fresh, non-empty id
  and appends for every group; \<open>XREADGROUP >\<close> with count 1 hands out the oldest entry the group has not
  been given and makes it pending; \<open>XACK\<close> removes a pending entry; \<open>XGROUP CREATE ... $\<close> starts a new
  group at the end of the stream and refuses an existing one with \<open>BUSYGROUP\<close>.
\<close>

locale redis_streams =
  fixes R :: "('m, 'r) redis_client"
    and view :: "'r \<Rightarrow> 'm view"
    and ok :: "'r \<Rightarrow> bool"
  assumes xadd: "ok s \<Longrightarrow> XAdd R stream m s = (r, s') \<Longrightarrow>
      ok s' \<and> ((\<exists>ident. ident \<noteq> '''' \<and> view s' = view_add stream ident m (view s) \<and>
          (\<forall>g. ident \<notin> fst ` set (undelivered (view s stream g)) \<union> fst ` set (pending (view s stream g))))
        \<or> r \<noteq> None \<and> view s' = view s)"
    and xread: "ok s \<Longrightarrow> XReadGroup R grp consumer stream s = (reply, s') \<Longrightarrow>
      ok s' \<and> (case undelivered (view s stream grp) of
         [] \<Rightarrow> view s' = view s \<and> (reply = ReadNil \<or> (\<exists>err. reply = ReadError err))
       | (ident, m) # _ \<Rightarrow>
           reply = ReadMsg ident (Some m) \<and> view s' = view_take stream grp (view s)
           \<or> (\<exists>err. reply = ReadError err) \<and> view s' \<in> {view s, view_take stream grp (view s)})"
    and xack: "ok s \<Longrightarrow> XAck R stream grp ident s = (r, s') \<Longrightarrow>
      ok s' \<and> (view s' = view_ack stream grp ident (view s) \<or> r \<noteq> None \<and> view s' = view s)"
    and xgroup: "ok s \<Longrightarrow> XGroupCreateMkStream R stream grp s = (r, s') \<Longrightarrow>
      ok s' \<and> (if exists_group (view s stream grp)
         then view s' = view s \<and> r \<noteq> None
         else view s' = view_create stream grp (view s) \<or> r \<noteq> None \<and> view s' = view s)"
    and busygroup: "ok s \<Longrightarrow> XGroupCreateMkStream R stream grp s = (Some err, s') \<Longrightarrow>
      err = ''BUSYGROUP Consumer Group name already exists'' \<or>
      err = ''ERR BUSYGROUP Consumer Group name already exists'' \<Longrightarrow> exists_group (view s stream grp)"
begin

text \<open>A publication appends the encoded event to the stream of its priority, for every group.\<close>

lemma Publish_cases:
  assumes "ok s" and "Publish R marshal e s = (r, s')"
  obtains (published) ident m where "marshal e = Some m" "ident \<noteq> ''''" "ok s'"
      "view s' = view_add (stream_of (ePriority e)) ident m (view s)"
      "\<And>g. ident \<notin> fst ` set (pending (view s (stream_of (ePriority e)) g))"
  | (failed) "r \<noteq> None" "view s' = view s" "ok s'"
proof (cases "marshal e")
  case None
  with assms show ?thesis by (intro failed) (auto simp: Publish_def)
next
  case (Some m)
  obtain q t where x: "XAdd R (stream_of (ePriority e)) m s = (q, t)" by fastforce
  with Some assms(2) have r: "s' = t" "q \<noteq> None \<Longrightarrow> r \<noteq> None"
    by (auto simp: Publish_def split: option.splits)
  from xadd [OF assms(1) x] r Some show ?thesis
    using published failed by blast
qed

lemma Ack_effect:
  assumes "ok s" and "Ack R j s = (r, s')"
  shows "ok s'" and "view s' = view_ack (jQueue j) (jGroup j) (jReceipt j) (view s) \<or> r \<noteq> None \<and> view s' = view s"
proof -
  have "ok s' \<and> (view s' = view_ack (jQueue j) (jGroup j) (jReceipt j) (view s) \<or> r \<noteq> None \<and> view s' = view s)"
  proof (cases "jReceipt j = '''' \<or> jQueue j = '''' \<or> jGroup j = ''''")
    case True
    with assms show ?thesis by (auto simp: Ack_def)
  next
    case False
    obtain q t where x: "XAck R (jQueue j) (jGroup j) (jReceipt j) s = (q, t)" by fastforce
    with False assms(2) have "s' = t" "q \<noteq> None \<Longrightarrow> r \<noteq> None" by (auto simp: Ack_def split: option.splits)
    with xack [OF assms(1) x] show ?thesis by blast
  qed
  then show "ok s'" and "view s' = view_ack (jQueue j) (jGroup j) (jReceipt j) (view s) \<or> r \<noteq> None \<and> view s' = view s"
    by auto
qed

end

end
