(* ===== verification/QueueRules.thy ===== *)
theory QueueRules
  imports Queue
begin

text \<open>
  Facts about the queue operations against any server that keeps the laws of \<open>redis_streams\<close>: what a
  poll returns, that \<open>Consume\<close> returns when its context ends or a message is there, that \<open>Retry\<close> does
  not lose an event, and what the consumer groups are after the initialization.
\<close>

lemma view_simps [simp]:
  "exists_group (view_add stream ident m v st g) = exists_group (v st g)"
  "pending (view_add stream ident m v st g) = pending (v st g)"
  "exists_group (view_take stream grp v st g) = exists_group (v st g)"
  "exists_group (view_ack stream grp ident v st g) = exists_group (v st g)"
  "undelivered (view_ack stream grp ident v st g) = undelivered (v st g)"
  "view_take stream grp v stream grp =
     (v stream grp)\<lparr>undelivered := tl (undelivered (v stream grp)),
        pending := pending (v stream grp) @ [hd (undelivered (v stream grp))]\<rparr>"
  by (simp_all add: view_add_def view_take_def view_ack_def)

lemma view_take_other: "st \<noteq> stream \<or> g \<noteq> grp \<Longrightarrow> view_take stream grp v st g = v st g"
  by (auto simp: view_take_def)

text \<open>Where an event is for a group: among the entries to come or among the pending ones.\<close>

definition in_stream :: "'m view \<Rightarrow> string \<Rightarrow> string \<Rightarrow> 'm \<Rightarrow> bool" where
  "in_stream v stream grp m \<longleftrightarrow>
     m \<in> snd ` set (undelivered (v stream grp)) \<or> m \<in> snd ` set (pending (v stream grp))"

text \<open>
  An invariant rule for the polling loop: a property kept by the passes that find nothing holds when
  the loop ends, be it by the context or by the pass that returned something.
\<close>

lemma Consume_rule:
  assumes "Consume R unmarshal c others grp consumer k s = Some (r, s')" and "I s"
    and "\<And>n t t'. I t \<Longrightarrow> poll_streams R unmarshal (others n) grp consumer AllStreams t = (None, t') \<Longrightarrow> I t'"
  obtains (cancelled) "r = Inl CtxDone" "I s'"
  | (polled) n t where "I t" "poll_streams R unmarshal (others n) grp consumer AllStreams t = (Some r, s')"
proof -
  have "\<forall>I. I s \<longrightarrow> (\<forall>n t t'. I t \<longrightarrow> poll_streams R unmarshal (others n) grp consumer AllStreams t = (None, t') \<longrightarrow> I t') \<longrightarrow>
      (fst (r, s') = Inl CtxDone \<and> I (snd (r, s'))) \<or>
      (\<exists>n t. I t \<and> poll_streams R unmarshal (others n) grp consumer AllStreams t = (Some (fst (r, s')), snd (r, s')))"
  proof (rule Consume.raw_induct [where P = "\<lambda>R unmarshal c others grp consumer k s y.
      \<forall>I. I s \<longrightarrow> (\<forall>n t t'. I t \<longrightarrow> poll_streams R unmarshal (others n) grp consumer AllStreams t = (None, t') \<longrightarrow> I t') \<longrightarrow>
        (fst y = Inl CtxDone \<and> I (snd y)) \<or>
        (\<exists>n t. I t \<and> poll_streams R unmarshal (others n) grp consumer AllStreams t = (Some (fst y), snd y))",
      OF _ assms(1)], intro allI impI, goal_cases)
    case (1 f R unmarshal c others grp consumer k s y I)
    obtain q u where poll: "poll_streams R unmarshal (others k) grp consumer AllStreams s = (q, u)" by fastforce
    show ?case
    proof (cases "done_before c k \<or> q \<noteq> None \<or> done_asleep c k")
      case True
      with 1 poll show ?thesis by (cases q) (fastforce split: if_splits)+
    next
      case False
      then have q: "q = None" by simp
      from False 1(2) poll have "f R unmarshal c others grp consumer (Suc k) u = Some y" by simp
      moreover have "I u" using 1(3) 1(4) poll [unfolded q] by blast
      ultimately show ?thesis using 1(1) 1(4) by blast
    qed
  qed
  with assms(2,3) cancelled polled show ?thesis by auto
qed

context redis_streams
begin

lemma read_cases:
  assumes "ok s" and "XReadGroup R grp consumer stream s = (reply, s')"
  obtains (empty) "undelivered (view s stream grp) = []" "view s' = view s" "ok s'"
      "reply = ReadNil \<or> (\<exists>err. reply = ReadError err)"
  | (message) ident m rest where "undelivered (view s stream grp) = (ident, m) # rest" "ok s'"
      "reply = ReadMsg ident (Some m)" "view s' = view_take stream grp (view s)"
  | (error) err where "reply = ReadError err" "ok s'" "view s' \<in> {view s, view_take stream grp (view s)}"
proof (cases "undelivered (view s stream grp)")
  case Nil
  with xread [OF assms] show ?thesis by (intro empty) auto
next
  case (Cons p rest)
  obtain ident m where "p = (ident, m)" by (cases p)
  with Cons xread [OF assms] message error show ?thesis by auto
qed

text \<open>
  A poll that returns a job found it at the head of the first stream with an undelivered entry, when
  nobody else acts on the streams meanwhile; the entry is pending from then on.
\<close>

lemma poll_streams_job:
  assumes "ok s" and "\<And>st t. ok t \<Longrightarrow> ok (others st t) \<and> view (others st t) = view t"
    and "poll_streams R unmarshal others grp consumer streams s = (Some (Inr j), s')"
  shows "ok s' \<and> (\<exists>pre post m rest. streams = pre @ jQueue j # post \<and>
     (\<forall>st \<in> set pre. undelivered (view s st grp) = []) \<and>
     undelivered (view s (jQueue j) grp) = (jReceipt j, m) # rest \<and> unmarshal m = Some (jEvent j) \<and>
     jGroup j = grp \<and> view s' = view_take (jQueue j) grp (view s))"
  using assms(1,3)
proof (induction streams arbitrary: s)
  case Nil
  then show ?case by simp
next
  case (Cons stream streams)
  obtain reply t where r: "XReadGroup R grp consumer stream s = (reply, t)" by fastforce
  from Cons.prems(1) r show ?case
  proof (cases rule: read_cases)
    case empty
    let ?t = "others stream t"
    have t: "ok ?t" "view ?t = view s" using assms(2) [OF empty(3)] empty(2) by auto
    have "poll_streams R unmarshal others grp consumer streams ?t = (Some (Inr j), s')"
      using Cons.prems(2) r empty(4) by auto
    from Cons.IH [OF t(1) this] show ?thesis
      unfolding t(2) using empty(1) by (metis append_Cons set_ConsD)
  next
    case (message ident m rest)
    with Cons.prems(2) r show ?thesis
      by (intro conjI exI [of _ "[]"] exI [of _ streams] exI [of _ m] exI [of _ rest]) (auto split: option.splits)
  next
    case (error err)
    with Cons.prems(2) r show ?thesis by simp
  qed
qed

text \<open>The same for the polling loop, on a server where nobody else acts.\<close>

lemma poll_streams_none:
  assumes "ok s" and "\<And>st t. ok t \<Longrightarrow> ok (others st t) \<and> view (others st t) = view t"
    and "poll_streams R unmarshal others grp consumer streams s = (None, s')"
  shows "ok s' \<and> view s' = view s \<and> (\<forall>st \<in> set streams. undelivered (view s st grp) = [])"
  using assms(1,3)
proof (induction streams arbitrary: s)
  case Nil
  then show ?case by simp
next
  case (Cons stream streams)
  obtain reply t where r: "XReadGroup R grp consumer stream s = (reply, t)" by fastforce
  from Cons.prems(1) r show ?case
  proof (cases rule: read_cases)
    case empty
    let ?t = "others stream t"
    have t: "ok ?t" "view ?t = view s" using assms(2) [OF empty(3)] empty(2) by auto
    have "poll_streams R unmarshal others grp consumer streams ?t = (None, s')"
      using Cons.prems(2) r empty(4) by auto
    from Cons.IH [OF t(1) this] t(2) empty(1) show ?thesis by simp
  qed (use Cons.prems(2) r in \<open>auto split: option.splits\<close>)
qed

definition takes_first :: "'r \<Rightarrow> string \<Rightarrow> ('m \<Rightarrow> event option) \<Rightarrow> job \<Rightarrow> 'r \<Rightarrow> bool" where
  "takes_first s grp unmarshal j s' \<longleftrightarrow>
     (\<exists>pre post m rest. AllStreams = pre @ jQueue j # post \<and>
        (\<forall>st \<in> set pre. undelivered (view s st grp) = []) \<and>
        undelivered (view s (jQueue j) grp) = (jReceipt j, m) # rest \<and> unmarshal m = Some (jEvent j) \<and>
        jGroup j = grp \<and> view s' = view_take (jQueue j) grp (view s))"

lemma Consume_job:
  assumes "Consume R unmarshal c others grp consumer k s = Some (Inr j, s')" and "ok s"
    and quiet: "\<And>n st t. ok t \<Longrightarrow> ok (others n st t) \<and> view (others n st t) = view t"
  shows "ok s' \<and> takes_first s grp unmarshal j s'"
proof (rule Consume_rule [OF assms(1), where I = "\<lambda>t. ok t \<and> view t = view s"], goal_cases)
  case 1
  show ?case using assms(2) by simp
next
  case (2 n t t')
  then show ?case using poll_streams_none [of t "others n"] quiet by auto
next
  case 3
  then show ?case by simp
next
  case (4 n t)
  then show ?case using poll_streams_job [of t "others n"] quiet by (auto simp: takes_first_def)
qed

end

section \<open>Whatever the others do\<close>

context redis_streams
begin

text \<open>
  With other clients at work between the commands, a job is still the head of its stream at the moment it
  was read, and what the reader leaves is that entry made pending.
\<close>

definition takes_head :: "string \<Rightarrow> ('m \<Rightarrow> event option) \<Rightarrow> job \<Rightarrow> 'r \<Rightarrow> bool" where
  "takes_head grp unmarshal j s' \<longleftrightarrow>
     (\<exists>t m rest. ok t \<and> jQueue j \<in> set AllStreams \<and> jGroup j = grp \<and>
        undelivered (view t (jQueue j) grp) = (jReceipt j, m) # rest \<and> unmarshal m = Some (jEvent j) \<and>
        view s' = view_take (jQueue j) grp (view t))"

lemma poll_streams_head:
  assumes "ok s" and "\<And>st t. ok t \<Longrightarrow> ok (others st t)" and "set streams \<subseteq> set AllStreams"
    and "poll_streams R unmarshal others grp consumer streams s = (r, s')"
  shows "ok s' \<and> (\<forall>j. r = Some (Inr j) \<longrightarrow> takes_head grp unmarshal j s')"
  using assms(1,3,4)
proof (induction streams arbitrary: s)
  case Nil
  then show ?case by simp
next
  case (Cons stream streams)
  obtain reply t where x: "XReadGroup R grp consumer stream s = (reply, t)" by fastforce
  from Cons.prems(1) x show ?case
  proof (cases rule: read_cases)
    case empty
    then show ?thesis
      using Cons.IH [of "others stream t"] Cons.prems x assms(2) [OF empty(3)] by auto
  next
    case (message ident m rest)
    then show ?thesis
      using Cons.prems x by (auto simp: takes_head_def split: option.splits)
  next
    case (error err)
    with Cons.prems x show ?thesis by auto
  qed
qed

lemma Consume_head:
  assumes "Consume R unmarshal c others grp consumer k s = Some (r, s')" and "ok s"
    and others: "\<And>n st t. ok t \<Longrightarrow> ok (others n st t)"
  shows "ok s' \<and> (\<forall>j. r = Inr j \<longrightarrow> takes_head grp unmarshal j s')"
proof (rule Consume_rule [OF assms(1), where I = ok], goal_cases)
  case 1
  show ?case by (rule assms(2))
next
  case (2 n t t')
  then show ?case using poll_streams_head [of t "others n" AllStreams] others by auto
next
  case 3
  then show ?case by simp
next
  case (4 n t)
  then show ?case using poll_streams_head [of t "others n" AllStreams] others by auto
qed

text \<open>A pass over streams of which one has an undelivered entry does not end empty-handed.\<close>

lemma Consume_finds:
  assumes "ok s" and "\<And>n st t. ok t \<Longrightarrow> ok (others n st t) \<and> view (others n st t) = view t"
    and "st \<in> set AllStreams" "undelivered (view s st grp) \<noteq> []" and "\<not> done_before c k"
  shows "\<exists>r s'. poll_streams R unmarshal (others k) grp consumer AllStreams s = (Some r, s') \<and>
    Consume R unmarshal c others grp consumer k s = Some (r, s')"
proof -
  obtain q t where p: "poll_streams R unmarshal (others k) grp consumer AllStreams s = (q, t)" by fastforce
  then have "q \<noteq> None"
    using poll_streams_none [OF assms(1), of "others k" unmarshal grp consumer AllStreams t] assms(2-4) by auto
  with p assms(5) show ?thesis by (auto simp: Consume.simps)
qed

end

section \<open>Retry and initialization\<close>

context redis_streams
begin

lemma Retry_cases:
  assumes "ok s" and "Retry R marshal j s = (r, s')"
  obtains (requeued) ident m where "marshal (jEvent j) = Some m" "ok s'"
      "view s' = view_ack (jQueue j) (jGroup j) (jReceipt j) (view_add (stream_of (ePriority (jEvent j))) ident m (view s))"
  | (duplicated) ident m where "r \<noteq> None" "marshal (jEvent j) = Some m" "ok s'"
      "view s' = view_add (stream_of (ePriority (jEvent j))) ident m (view s)"
  | (unchanged) "r \<noteq> None" "view s' = view s" "ok s'"
proof (cases "jReceipt j = '''' \<or> jQueue j = '''' \<or> jGroup j = ''''")
  case True
  with assms show ?thesis by (intro unchanged) (auto simp: Retry_def)
next
  case False
  obtain q t where p: "Publish R marshal (jEvent j) s = (q, t)" by fastforce
  show ?thesis
  proof (cases q)
    case (Some err)
    with False assms(2) p have "r \<noteq> None" "s' = t" by (auto simp: Retry_def)
    with assms(1) p show ?thesis
      by (cases rule: Publish_cases) (use duplicated unchanged in auto)
  next
    case None
    obtain a u where a: "Ack R j t = (a, u)" by fastforce
    from False assms(2) p None a have r: "s' = u" "r \<noteq> None \<longleftrightarrow> a \<noteq> None"
      by (auto simp: Retry_def split: option.splits)
    from assms(1) p show ?thesis
    proof (cases rule: Publish_cases)
      case (published ident m)
      with Ack_effect [OF \<open>ok t\<close> a] r show ?thesis using requeued duplicated by auto
    qed (use None in auto)
  qed
qed

text \<open>
  However \<open>Retry\<close> ends, the event is still somewhere for the group: encoded again at the end of its
  stream, or pending under its old receipt.
\<close>

lemma Retry_keeps_event:
  assumes "ok s" and "Retry R marshal j s = (r, s')"
    and "(jReceipt j, m0) \<in> set (pending (view s (jQueue j) (jGroup j)))"
    and "exists_group (view s (stream_of (ePriority (jEvent j))) (jGroup j))"
    and "marshal (jEvent j) = Some m"
  shows "m \<in> snd ` set (undelivered (view s' (stream_of (ePriority (jEvent j))) (jGroup j))) \<or>
    r \<noteq> None \<and> (jReceipt j, m0) \<in> set (pending (view s' (jQueue j) (jGroup j)))"
  using assms(1,2)
proof (cases rule: Retry_cases)
  case (requeued ident m')
  with assms(4,5) show ?thesis by (simp add: view_add_def image_iff)
next
  case (duplicated ident m')
  with assms(4,5) show ?thesis by (simp add: view_add_def image_iff)
next
  case unchanged
  with assms(3) show ?thesis by simp
qed

lemma Retry_success:
  assumes "ok s" and "Retry R marshal j s = (None, s')"
  shows "\<exists>ident m. marshal (jEvent j) = Some m \<and>
    view s' = view_ack (jQueue j) (jGroup j) (jReceipt j) (view_add (stream_of (ePriority (jEvent j))) ident m (view s))"
  using assms by (cases rule: Retry_cases) auto

lemma init_groups_view:
  assumes "ok s" and "init_groups R grp streams s = (None, s')"
  shows "ok s' \<and> (\<forall>st g. view s' st g =
    (if g = grp \<and> st \<in> set streams \<and> \<not> exists_group (view s st g)
     then \<lparr>exists_group = True, undelivered = [], pending = []\<rparr> else view s st g))"
  using assms
proof (induction streams arbitrary: s)
  case Nil
  then show ?case by simp
next
  case (Cons stream streams)
  obtain r t where x: "XGroupCreateMkStream R stream grp s = (r, t)" by fastforce
  have rest: "init_groups R grp streams t = (None, s')"
    using Cons.prems(2) x by (auto split: option.splits if_splits)
  have t: "ok t" "view t = (if exists_group (view s stream grp) then view s else view_create stream grp (view s))"
  proof -
    have "r = None \<or> exists_group (view s stream grp)"
      using Cons.prems x busygroup [OF Cons.prems(1), of stream grp] by (auto split: option.splits if_splits)
    with xgroup [OF Cons.prems(1) x]
    show "ok t" "view t = (if exists_group (view s stream grp) then view s else view_create stream grp (view s))"
      by (auto split: if_splits)
  qed
  from Cons.IH [OF t(1) rest] t(2) show ?case by (auto simp: view_create_def)
qed

end

section \<open>From publication to acknowledgement\<close>

lemma stream_of_in [simp]: "stream_of p \<in> set AllStreams"
  by (simp add: stream_of_def AllStreams_def)

lemma undelivered_add:
  "undelivered (view_add stream ident m v st g) =
     (if st = stream \<and> exists_group (v st g) then undelivered (v st g) @ [(ident, m)] else undelivered (v st g))"
  by (auto simp: view_add_def)

context redis_streams
begin

lemma Publish_Consume:
  assumes "ok s" and "Publish R marshal e s = (None, s1)"
    and "exists_group (view s (stream_of (ePriority e)) grp)"
    and "\<forall>st \<in> set AllStreams. undelivered (view s st grp) = []"
    and "\<And>n st t. ok t \<Longrightarrow> ok (others n st t) \<and> view (others n st t) = view t"
    and "\<And>m. marshal e = Some m \<Longrightarrow> unmarshal m = Some e"
    and "Consume R unmarshal c others grp consumer k s1 = Some (Inr j, s2)"
  shows "ok s2 \<and> jEvent j = e \<and> jQueue j = stream_of (ePriority e) \<and> jGroup j = grp \<and> jReceipt j \<noteq> '''' \<and>
    (\<exists>m. marshal e = Some m \<and> pending (view s2 (jQueue j) grp) = pending (view s (jQueue j) grp) @ [(jReceipt j, m)]) \<and>
    (\<forall>p \<in> set (pending (view s (jQueue j) grp)). fst p \<noteq> jReceipt j)"
proof -
  let ?st = "stream_of (ePriority e)"
  from assms(1,2) obtain ident m where p: "marshal e = Some m" "ident \<noteq> ''''" "ok s1"
      "view s1 = view_add ?st ident m (view s)" "\<And>g. ident \<notin> fst ` set (pending (view s ?st g))"
    by (cases rule: Publish_cases) blast+
  from Consume_job [OF assms(7) p(3) assms(5)] obtain m' rest where c: "ok s2"
      "undelivered (view s1 (jQueue j) grp) = (jReceipt j, m') # rest" "unmarshal m' = Some (jEvent j)"
      "jGroup j = grp" "view s2 = view_take (jQueue j) grp (view s1)" "jQueue j \<in> set AllStreams"
    unfolding takes_first_def by (metis in_set_conv_decomp)
  with assms(3,4) p(4) have "jQueue j = ?st" "(ident, m) = (jReceipt j, m')" "rest = []"
    by (auto simp: undelivered_add split: if_splits)
  moreover have "\<forall>p \<in> set (pending (view s ?st grp)). fst p \<noteq> ident" using p(5) by force
  ultimately show ?thesis using c p(1,2,4) assms(4) assms(6) [OF p(1)] by (auto simp: undelivered_add)
qed

lemma Ack_pending:
  assumes "ok s" and "Ack R j s = (None, s')"
  shows "pending (view s' (jQueue j) (jGroup j)) = filter (\<lambda>p. fst p \<noteq> jReceipt j) (pending (view s (jQueue j) (jGroup j)))"
  using Ack_effect [OF assms] by (simp add: view_ack_def)

end

section \<open>The polling loop returns\<close>

lemma poll_streams_no_cancel:
  "poll_streams R unmarshal others grp consumer streams s = (Some r, s') \<Longrightarrow> r \<noteq> Inl CtxDone"
  by (induction streams arbitrary: s) (auto split: prod.splits read_reply.splits option.splits)

lemma Consume_returns:
  assumes "done_before c n" and "k \<le> n"
  shows "\<exists>y. Consume R unmarshal c others grp consumer k s = Some y"
  using assms(2)
proof (induction k arbitrary: s rule: inc_induct)
  case base
  with assms(1) show ?case by (simp add: Consume.simps)
next
  case (step k)
  show ?case
    by (subst Consume.simps) (use step.IH in \<open>auto split: prod.split option.split\<close>)
qed

text \<open>The loop as its rounds: what one round does, with nobody else at work during the pass.\<close>

definition consume_round ::
  "('m, 'r) redis_client \<Rightarrow> ('m \<Rightarrow> event option) \<Rightarrow> bool \<Rightarrow> string \<Rightarrow> string \<Rightarrow> 'r
    \<Rightarrow> (queue_error + job) option \<times> 'r" where
  "consume_round R unmarshal fin grp consumer s =
     (if fin then (Some (Inl CtxDone), s)
      else poll_streams R unmarshal (\<lambda>_ t. t) grp consumer AllStreams s)"

lemma Consume_rounds:
  "Consume R unmarshal c (\<lambda>_ _ t. t) grp consumer k s =
     (case consume_round R unmarshal (done_before c k) grp consumer s of
        (Some r, s') \<Rightarrow> Some (r, s')
      | (None, s') \<Rightarrow> if done_asleep c k then Some (Inl CtxDone, s')
                      else Consume R unmarshal c (\<lambda>_ _ t. t) grp consumer (Suc k) s')"
  by (subst Consume.simps) (simp add: consume_round_def)

end
