(* ===== verification/RedisModel.thy ===== *)
theory RedisModel
  imports QueueRules
begin

text \<open>
  A server with streams and consumer groups, as the Redis documentation describes them: a stream is its
  entries in order of their ids, a group is the last id it was given and the ids it has not
  acknowledged. It never fails. It shows that the laws of \<open>redis_streams\<close> can be met, and it is the
  server on which concrete runs of the queue, the workers and the whole system are evaluated. Entries
  stay in the stream when they are acknowledged.
\<close>

record 'm mem_stream =
  ms_entries :: "(nat \<times> 'm) list"
  ms_groups :: "string \<Rightarrow> (nat \<times> nat list) option"

record 'm mem_redis =
  mr_streams :: "string \<Rightarrow> 'm mem_stream"
  mr_next :: nat
  mr_keys :: "string list"
  mr_published :: "(string \<times> bytes) list"

definition mem_empty :: "'m mem_redis" where
  "mem_empty = \<lparr>mr_streams = (\<lambda>_. \<lparr>ms_entries = [], ms_groups = (\<lambda>_. None)\<rparr>), mr_next = 1,
     mr_keys = [], mr_published = []\<rparr>"

definition msg_id :: "nat \<Rightarrow> string" where
  "msg_id n = dec_nat n"

definition upd_stream :: "string \<Rightarrow> ('m mem_stream \<Rightarrow> 'm mem_stream) \<Rightarrow> 'm mem_redis \<Rightarrow> 'm mem_redis" where
  "upd_stream st f s = s\<lparr>mr_streams := (mr_streams s)(st := f (mr_streams s st))\<rparr>"

definition last_id :: "'m mem_stream \<Rightarrow> nat" where
  "last_id x = (if ms_entries x = [] then 0 else fst (last (ms_entries x)))"

definition new_entries :: "'m mem_stream \<Rightarrow> nat \<Rightarrow> (nat \<times> 'm) list" where
  "new_entries x l = filter (\<lambda>p. l < fst p) (ms_entries x)"

definition mem_xadd :: "string \<Rightarrow> 'm \<Rightarrow> 'm mem_redis \<Rightarrow> string option \<times> 'm mem_redis" where
  "mem_xadd st m s =
     (None, (upd_stream st (\<lambda>x. x\<lparr>ms_entries := ms_entries x @ [(mr_next s, m)]\<rparr>) s)\<lparr>mr_next := Suc (mr_next s)\<rparr>)"

definition mem_xreadgroup :: "string \<Rightarrow> string \<Rightarrow> string \<Rightarrow> 'm mem_redis \<Rightarrow> 'm read_reply \<times> 'm mem_redis" where
  "mem_xreadgroup grp consumer st s =
     (case ms_groups (mr_streams s st) grp of
        None \<Rightarrow> (ReadError ''NOGROUP No such key or consumer group'', s)
      | Some (l, pel) \<Rightarrow>
          (case new_entries (mr_streams s st) l of
             [] \<Rightarrow> (ReadNil, s)
           | (n, m) # _ \<Rightarrow>
               (ReadMsg (msg_id n) (Some m),
                upd_stream st (\<lambda>x. x\<lparr>ms_groups := (ms_groups x)(grp \<mapsto> (n, pel @ [n]))\<rparr>) s)))"

definition mem_xack :: "string \<Rightarrow> string \<Rightarrow> string \<Rightarrow> 'm mem_redis \<Rightarrow> string option \<times> 'm mem_redis" where
  "mem_xack st grp ident s =
     (None,
      case ms_groups (mr_streams s st) grp of
        None \<Rightarrow> s
      | Some (l, pel) \<Rightarrow>
          upd_stream st (\<lambda>x. x\<lparr>ms_groups := (ms_groups x)(grp \<mapsto> (l, filter (\<lambda>n. msg_id n \<noteq> ident) pel))\<rparr>) s)"

definition mem_xgroup :: "string \<Rightarrow> string \<Rightarrow> 'm mem_redis \<Rightarrow> string option \<times> 'm mem_redis" where
  "mem_xgroup st grp s =
     (case ms_groups (mr_streams s st) grp of
        Some _ \<Rightarrow> (Some ''BUSYGROUP Consumer Group name already exists'', s)
      | None \<Rightarrow>
          (None, upd_stream st (\<lambda>x. x\<lparr>ms_groups := (ms_groups x)(grp \<mapsto> (last_id x, []))\<rparr>) s))"

definition mem_client :: "('m, 'm mem_redis) redis_client" where
  "mem_client = \<lparr>XGroupCreateMkStream = mem_xgroup, XAdd = mem_xadd, XReadGroup = mem_xreadgroup, XAck = mem_xack\<rparr>"

definition mem_view :: "'m mem_redis \<Rightarrow> 'm view" where
  "mem_view s st grp =
     (case ms_groups (mr_streams s st) grp of
        None \<Rightarrow> \<lparr>exists_group = False, undelivered = [], pending = []\<rparr>
      | Some (l, pel) \<Rightarrow>
          \<lparr>exists_group = True,
           undelivered = map (\<lambda>p. (msg_id (fst p), snd p)) (new_entries (mr_streams s st) l),
           pending = map (\<lambda>n. (msg_id n, the (map_of (ms_entries (mr_streams s st)) n))) pel\<rparr>)"

definition mem_stream_ok :: "nat \<Rightarrow> 'm mem_stream \<Rightarrow> bool" where
  "mem_stream_ok nxt x \<longleftrightarrow>
     sorted_wrt (<) (map fst (ms_entries x)) \<and> (\<forall>n \<in> fst ` set (ms_entries x). 0 < n \<and> n < nxt) \<and>
     (\<forall>g l pel. ms_groups x g = Some (l, pel) \<longrightarrow> l < nxt \<and> set pel \<subseteq> fst ` set (ms_entries x))"

definition mem_ok :: "'m mem_redis \<Rightarrow> bool" where
  "mem_ok s \<longleftrightarrow> 0 < mr_next s \<and> (\<forall>st. mem_stream_ok (mr_next s) (mr_streams s st))"

lemma msg_id_inject [simp]: "msg_id a = msg_id b \<longleftrightarrow> a = b"
  by (metis dec_value_dec_nat msg_id_def option.inject)

lemma msg_id_nonempty [simp]: "msg_id n \<noteq> ''''"
  using dec_nat_Cons [of n] by (auto simp: msg_id_def)

lemma mem_empty_ok: "mem_ok mem_empty"
  by (simp add: mem_ok_def mem_stream_ok_def mem_empty_def)

lemma mem_stream_ok_mono: "mem_stream_ok n x \<Longrightarrow> n \<le> n' \<Longrightarrow> mem_stream_ok n' x"
  by (fastforce simp: mem_stream_ok_def)

lemma mem_stream_ok_group:
  "mem_stream_ok nxt x \<Longrightarrow> ms_groups x g = Some (l, pel) \<Longrightarrow>
   l < nxt \<and> (\<forall>n \<in> set pel. n \<in> fst ` set (ms_entries x))"
  unfolding mem_stream_ok_def by blast

lemma mem_ok_upd:
  "mem_ok s \<Longrightarrow> (mem_stream_ok (mr_next s) (mr_streams s st) \<Longrightarrow> mem_stream_ok (mr_next s) (f (mr_streams s st))) \<Longrightarrow>
   mem_ok (upd_stream st f s)"
  by (simp add: mem_ok_def upd_stream_def)

lemma entry_le_last_id:
  assumes "mem_stream_ok n x" and "p \<in> set (ms_entries x)"
  shows "fst p \<le> last_id x"
proof -
  obtain ys y where e: "ms_entries x = ys @ [y]" using assms(2) by (cases "ms_entries x" rule: rev_exhaust) auto
  with assms show ?thesis by (auto simp: mem_stream_ok_def sorted_wrt_append last_id_def)
qed

lemma view_xadd:
  assumes "mem_ok s"
  shows "mem_view (snd (mem_xadd st m s)) = view_add st (msg_id (mr_next s)) m (mem_view s)"
proof (intro ext)
  fix st' g
  have ok: "mem_stream_ok (mr_next s) (mr_streams s st')" using assms by (simp add: mem_ok_def)
  show "mem_view (snd (mem_xadd st m s)) st' g = view_add st (msg_id (mr_next s)) m (mem_view s) st' g"
  proof (cases "st' = st \<and> ms_groups (mr_streams s st) g \<noteq> None")
    case False
    then show ?thesis
      by (auto simp: mem_view_def view_add_def mem_xadd_def upd_stream_def split: option.split)
  next
    case True
    then obtain l pel where g: "ms_groups (mr_streams s st') g = Some (l, pel)" by auto
    note pel = mem_stream_ok_group [OF ok g]
    moreover have "map_of (ms_entries (mr_streams s st') @ [(mr_next s, m)]) n = map_of (ms_entries (mr_streams s st')) n"
      if "n \<in> set pel" for n
      using pel that by (auto simp: map_add_def map_of_eq_None_iff split: option.split)
    ultimately show ?thesis using g True
      by (simp add: mem_view_def view_add_def mem_xadd_def upd_stream_def new_entries_def)
  qed
qed

lemma ok_xadd:
  assumes "mem_ok s"
  shows "mem_ok (snd (mem_xadd st m s))"
proof -
  have "mem_stream_ok (Suc (mr_next s)) (mr_streams s st')" for st'
    using assms by (auto simp: mem_ok_def intro: mem_stream_ok_mono)
  moreover have "mem_stream_ok (Suc (mr_next s)) ((mr_streams s st)\<lparr>ms_entries := ms_entries (mr_streams s st) @ [(mr_next s, m)]\<rparr>)"
  proof -
    have ok: "mem_stream_ok (mr_next s) (mr_streams s st)" and "0 < mr_next s" using assms by (simp_all add: mem_ok_def)
    then show ?thesis
      using mem_stream_ok_group [OF ok] by (fastforce simp: mem_stream_ok_def sorted_wrt_append)
  qed
  ultimately show ?thesis by (simp add: mem_ok_def mem_xadd_def upd_stream_def)
qed

lemma ok_xadd_fresh:
  assumes "mem_ok s"
  shows "msg_id (mr_next s) \<notin> fst ` set (undelivered (mem_view s st g)) \<union> fst ` set (pending (mem_view s st g))"
proof -
  have ok: "mem_stream_ok (mr_next s) (mr_streams s st)" using assms by (simp add: mem_ok_def)
  then have "n \<noteq> mr_next s" if "n \<in> fst ` set (ms_entries (mr_streams s st))" for n
    using that by (auto simp: mem_stream_ok_def)
  with ok show ?thesis
    by (fastforce simp: mem_view_def new_entries_def mem_stream_ok_def split: option.splits)
qed

lemma new_entries_next:
  assumes "mem_stream_ok n x" and "new_entries x l = p # rest"
  shows "new_entries x (fst p) = rest" and "p \<in> set (ms_entries x)" and "l < fst p"
proof -
  show p: "p \<in> set (ms_entries x)" "l < fst p"
  proof -
    have "p \<in> set (new_entries x l)" by (simp add: assms(2))
    then show "p \<in> set (ms_entries x)" "l < fst p" by (auto simp: new_entries_def)
  qed
  have "sorted_wrt (<) (map fst (new_entries x l))"
    using assms(1) by (simp add: mem_stream_ok_def new_entries_def sorted_wrt_map sorted_wrt_filter)
  then have "\<forall>q \<in> set rest. fst p < fst q" by (simp add: assms(2))
  then have "filter (\<lambda>q. fst p < fst q) (new_entries x l) = rest" by (simp add: assms(2) filter_id_conv)
  moreover have "filter (\<lambda>q. fst p < fst q) (new_entries x l) = new_entries x (fst p)"
    using p by (auto simp: new_entries_def intro!: filter_cong)
  ultimately show "new_entries x (fst p) = rest" by simp
qed

lemma read_effect:
  assumes "mem_ok s" and "mem_xreadgroup grp consumer st s = (reply, s')"
  shows "mem_ok s' \<and> (case undelivered (mem_view s st grp) of
     [] \<Rightarrow> mem_view s' = mem_view s \<and> (reply = ReadNil \<or> (\<exists>err. reply = ReadError err))
   | (ident, m) # _ \<Rightarrow> reply = ReadMsg ident (Some m) \<and> mem_view s' = view_take st grp (mem_view s))"
proof (cases "ms_groups (mr_streams s st) grp")
  case None
  with assms show ?thesis by (auto simp: mem_xreadgroup_def mem_view_def)
next
  case (Some lp)
  obtain l pel where g: "ms_groups (mr_streams s st) grp = Some (l, pel)" using Some by (cases lp) simp
  let ?x = "mr_streams s st"
  have ok: "mem_stream_ok (mr_next s) ?x" using assms(1) by (simp add: mem_ok_def)
  show ?thesis
  proof (cases "new_entries ?x l")
    case Nil
    with g assms show ?thesis by (auto simp: mem_xreadgroup_def mem_view_def)
  next
    case (Cons p rest)
    note new = new_entries_next [OF ok Cons]
    let ?f = "\<lambda>x. x\<lparr>ms_groups := (ms_groups x)(grp \<mapsto> (fst p, pel @ [fst p]))\<rparr>"
    have r: "reply = ReadMsg (msg_id (fst p)) (Some (snd p))" "s' = upd_stream st ?f s"
      using assms(2) g Cons by (auto simp: mem_xreadgroup_def split: prod.splits)
    have "distinct (map fst (ms_entries ?x))"
      using ok by (simp add: mem_stream_ok_def strict_sorted_iff)
    then have lookup: "map_of (ms_entries ?x) (fst p) = Some (snd p)" using new(2) by simp
    have "mem_stream_ok (mr_next s) (?f ?x)"
      using ok new(2) mem_stream_ok_group [OF ok g] by (auto simp: mem_stream_ok_def)
    then have "mem_ok s'" unfolding r(2) using assms(1) by (intro mem_ok_upd)
    moreover have "mem_view s' = view_take st grp (mem_view s)"
      using g Cons new(1) lookup
      by (auto simp: fun_eq_iff r(2) mem_view_def view_take_def upd_stream_def new_entries_def split: option.split)
    ultimately show ?thesis using r(1) g Cons by (simp add: mem_view_def)
  qed
qed

lemma ack_effect:
  assumes "mem_ok s" and "mem_xack st grp ident s = (r, s')"
  shows "mem_ok s' \<and> mem_view s' = view_ack st grp ident (mem_view s)"
proof (cases "ms_groups (mr_streams s st) grp")
  case None
  with assms show ?thesis by (auto simp: mem_xack_def mem_view_def view_ack_def fun_eq_iff)
next
  case (Some lp)
  obtain l pel where g: "ms_groups (mr_streams s st) grp = Some (l, pel)" using Some by (cases lp) simp
  let ?f = "\<lambda>x. x\<lparr>ms_groups := (ms_groups x)(grp \<mapsto> (l, filter (\<lambda>n. msg_id n \<noteq> ident) pel))\<rparr>"
  have s': "s' = upd_stream st ?f s" using assms(2) g by (simp add: mem_xack_def)
  have ok: "mem_stream_ok (mr_next s) (mr_streams s st)" using assms(1) by (simp add: mem_ok_def)
  have "mem_stream_ok (mr_next s) (?f (mr_streams s st))"
    using ok mem_stream_ok_group [OF ok g] by (auto simp: mem_stream_ok_def)
  then have "mem_ok s'" unfolding s' using assms(1) by (intro mem_ok_upd)
  moreover have "mem_view s' = view_ack st grp ident (mem_view s)"
    using g by (auto simp: fun_eq_iff s' mem_view_def view_ack_def upd_stream_def new_entries_def filter_map comp_def split: option.split)
  ultimately show ?thesis by simp
qed

lemma group_effect:
  assumes "mem_ok s" and "mem_xgroup st grp s = (r, s')"
  shows "mem_ok s' \<and> (if exists_group (mem_view s st grp) then mem_view s' = mem_view s \<and> r \<noteq> None
     else mem_view s' = view_create st grp (mem_view s) \<and> r = None)"
proof (cases "ms_groups (mr_streams s st) grp")
  case (Some lp)
  with assms show ?thesis by (auto simp: mem_xgroup_def mem_view_def split: prod.split)
next
  case None
  let ?x = "mr_streams s st"
  let ?f = "\<lambda>x. x\<lparr>ms_groups := (ms_groups x)(grp \<mapsto> (last_id x, []))\<rparr>"
  have s': "s' = upd_stream st ?f s" "r = None" using assms(2) None by (simp_all add: mem_xgroup_def)
  have ok: "mem_stream_ok (mr_next s) ?x" "0 < mr_next s" using assms(1) by (simp_all add: mem_ok_def)
  have "last_id ?x < mr_next s"
    using ok by (cases "ms_entries ?x" rule: rev_cases) (auto simp: last_id_def mem_stream_ok_def)
  then have "mem_stream_ok (mr_next s) (?f ?x)" using ok(1) by (auto simp: mem_stream_ok_def)
  then have "mem_ok s'" unfolding s'(1) using assms(1) by (intro mem_ok_upd)
  moreover have "new_entries ?x (last_id ?x) = []"
    using entry_le_last_id [OF ok(1)] by (fastforce simp: new_entries_def filter_empty_conv)
  then have "mem_view s' = view_create st grp (mem_view s)"
    by (auto simp: fun_eq_iff s'(1) mem_view_def view_create_def upd_stream_def new_entries_def split: option.split)
  ultimately show ?thesis using None s'(2) by (simp add: mem_view_def)
qed

interpretation mem: redis_streams mem_client mem_view mem_ok
proof (unfold_locales, goal_cases)
  case (1 s stream m r s')
  then have s': "s' = snd (mem_xadd stream m s)" by (simp add: mem_client_def)
  have "mem_ok s'" unfolding s' by (rule ok_xadd [OF 1(1)])
  moreover have "mem_view s' = view_add stream (msg_id (mr_next s)) m (mem_view s)"
    unfolding s' by (rule view_xadd [OF 1(1)])
  ultimately show ?case
    by (intro conjI disjI1 exI [of _ "msg_id (mr_next s)"] allI ok_xadd_fresh [OF 1(1)] msg_id_nonempty)
next
  case (2 s grp consumer stream reply s')
  then show ?case using read_effect [of s grp consumer stream reply s']
    by (auto simp: mem_client_def split: list.splits)
next
  case (3 s stream grp ident r s')
  then show ?case using ack_effect [of s stream grp ident r s'] by (simp add: mem_client_def)
next
  case (4 s stream grp r s')
  then show ?case using group_effect [of s stream grp r s'] by (auto simp: mem_client_def)
next
  case (5 s stream grp err s')
  then show ?case using group_effect [of s stream grp "Some err" s'] by (auto simp: mem_client_def split: if_splits)
qed

end
