(* ===== verification/QueueProps.thy ===== *)
theory QueueProps
  imports RedisModel
begin

text \<open>
  The properties of the queue, for every server that keeps the laws of \<open>redis_streams\<close>; their witnesses
  run on the server of \<open>RedisModel\<close>, whose messages are the events themselves.
\<close>

section \<open>A server with one message\<close>

definition msg_event :: "int \<Rightarrow> event" where
  "msg_event p =
     \<lparr> eID = 7, eType = TypeOrderCreated, ePayload = ''{}'', ePriority = p, eStatus = StatusReceived,
       eAttempt = 0, eWorkerID = None, eCreatedAt = 100000, eUpdatedAt = 100000, eCompletedAt = None \<rparr>"

text \<open>The server after the group \<open>workers\<close> was created and then one event of high priority published.\<close>

definition mem_groups :: "event mem_redis" where
  "mem_groups = snd (InitConsumerGroups mem_client ''workers'' mem_empty)"

definition mem_one :: "event mem_redis" where
  "mem_one = snd (Publish mem_client Some (msg_event PriorityHigh) mem_groups)"

lemmas mem_unfold = mem_client_def mem_xadd_def mem_xreadgroup_def mem_xack_def mem_xgroup_def upd_stream_def
  new_entries_def last_id_def mem_view_def Publish_def Ack_def stream_of_def AllStreams_def InitConsumerGroups_def

lemma mem_groups_eq:
  "mem_groups = \<lparr>mr_streams = (\<lambda>st. \<lparr>ms_entries = [],
      ms_groups = (\<lambda>g. if g = ''workers'' \<and> st \<in> set AllStreams then Some (0, []) else None)\<rparr>), mr_next = 1, mr_keys = [], mr_published = []\<rparr>"
  by (simp add: mem_groups_def mem_empty_def mem_unfold fun_eq_iff)

lemma mem_one_eq:
  "mem_one = \<lparr>mr_streams = (\<lambda>st. \<lparr>ms_entries = (if st = StreamHigh then [(1, msg_event PriorityHigh)] else []),
      ms_groups = (\<lambda>g. if g = ''workers'' \<and> st \<in> set AllStreams then Some (0, []) else None)\<rparr>), mr_next = 2, mr_keys = [], mr_published = []\<rparr>"
  by (simp add: mem_one_def mem_groups_eq mem_unfold fun_eq_iff msg_event_def)

lemma mem_groups_ok: "mem_ok mem_groups"
  by (simp add: mem_groups_eq mem_ok_def mem_stream_ok_def)

lemma mem_one_ok: "mem_ok mem_one"
  by (simp add: mem_one_eq mem_ok_def mem_stream_ok_def)

definition job_one :: job where
  "job_one = \<lparr>jEvent = msg_event PriorityHigh, jReceipt = msg_id 1, jQueue = StreamHigh, jGroup = ''workers''\<rparr>"

definition mem_taken :: "event mem_redis" where
  "mem_taken = snd (mem_xreadgroup ''workers'' ''worker-1'' StreamHigh mem_one)"

definition never :: ctx where
  "never = \<lparr>done_before = (\<lambda>_. False), done_asleep = (\<lambda>_. False)\<rparr>"

lemma Consume_mem_one:
  "Consume mem_client Some never (\<lambda>_ _ t. t) ''workers'' ''worker-1'' 0 mem_one = Some (Inr job_one, mem_taken)"
  by (simp add: Consume.simps never_def mem_taken_def job_one_def mem_one_eq mem_unfold)

lemma mem_taken_eq:
  "mem_taken = \<lparr>mr_streams = (\<lambda>st. \<lparr>ms_entries = (if st = StreamHigh then [(1, msg_event PriorityHigh)] else []),
      ms_groups = (\<lambda>g. if g = ''workers'' \<and> st \<in> set AllStreams
         then Some (if st = StreamHigh then (1, [1]) else (0, [])) else None)\<rparr>), mr_next = 2, mr_keys = [], mr_published = []\<rparr>"
  by (simp add: mem_taken_def mem_one_eq mem_unfold fun_eq_iff)

lemma consume_mem_one_ok: "mem_ok mem_taken"
proof -
  obtain r t where "mem_xreadgroup ''workers'' ''worker-1'' StreamHigh mem_one = (r, t)" by fastforce
  with read_effect [OF mem_one_ok this] show ?thesis by (simp add: mem_taken_def)
qed

lemma mem_one_waiting: "\<exists>st \<in> set AllStreams. undelivered (mem_view mem_one st ''workers'') \<noteq> []"
  by (simp add: mem_one_eq mem_unfold)

section \<open>Properties\<close>

text \<open>
  C19 Whatever the other clients do between the commands, the job a consumer gets is the oldest entry the
  group had not been given in its stream, with its event decoded, and that entry is pending afterwards;
  when nobody else acts, the streams of higher priority had nothing for the group.
\<close>

theorem consume_takes_head:
  assumes "redis_streams R view ok" and "ok s"
    and "\<forall>n st t. ok t \<longrightarrow> ok (others n st t)"
    and "Consume R unmarshal c others grp consumer k s = Some (Inr j, s')"
  shows "ok s' \<and>
    (\<exists>t m rest. ok t \<and> jQueue j \<in> set AllStreams \<and> jGroup j = grp \<and>
        undelivered (view t (jQueue j) grp) = (jReceipt j, m) # rest \<and> unmarshal m = Some (jEvent j) \<and>
        view s' = view_take (jQueue j) grp (view t)) \<and>
    ((\<forall>n st t. ok t \<longrightarrow> view (others n st t) = view t) \<longrightarrow>
      (\<exists>pre post m rest. AllStreams = pre @ jQueue j # post \<and>
        (\<forall>st \<in> set pre. undelivered (view s st grp) = []) \<and>
        undelivered (view s (jQueue j) grp) = (jReceipt j, m) # rest \<and> unmarshal m = Some (jEvent j) \<and>
        view s' = view_take (jQueue j) grp (view s)))"
  using redis_streams.Consume_head [OF assms(1) assms(4,2)] redis_streams.Consume_job [OF assms(1) assms(4,2)] assms(3)
  unfolding redis_streams.takes_head_def [OF assms(1)] redis_streams.takes_first_def [OF assms(1)] by blast

theorem consume_takes_head_witness:
  "mem_ok mem_taken \<and>
   (\<exists>pre post m rest. AllStreams = pre @ jQueue job_one # post \<and>
        (\<forall>st \<in> set pre. undelivered (mem_view mem_one st ''workers'') = []) \<and>
        undelivered (mem_view mem_one (jQueue job_one) ''workers'') = (jReceipt job_one, m) # rest \<and>
        Some m = Some (jEvent job_one) \<and>
        mem_view mem_taken = view_take (jQueue job_one) ''workers'' (mem_view mem_one))"
  using consume_takes_head [OF mem.redis_streams_axioms mem_one_ok _ Consume_mem_one] by simp

text \<open>
  C36 \<open>Consume\<close> returns: when its context ends in some round, when a read fails, and in the very round in
  which a stream has an entry for the group if nobody else takes it first; without a cancelled context
  that round gives a job or an error of the server or of the decoding.
\<close>

theorem consume_ends:
  shows "(k \<le> n \<and> done_before c n \<longrightarrow> (\<exists>y. Consume R unmarshal c others grp consumer k s = Some y)) \<and>
    (redis_streams R view ok \<and> ok s \<and> (\<forall>n st t. ok t \<longrightarrow> ok (others n st t) \<and> view (others n st t) = view t) \<and>
     (\<exists>st \<in> set AllStreams. undelivered (view s st grp) \<noteq> []) \<and> \<not> done_before c k \<longrightarrow>
     (\<exists>r s'. Consume R unmarshal c others grp consumer k s = Some (r, s') \<and> r \<noteq> Inl CtxDone))"
proof (intro conjI impI, goal_cases)
  case 1
  then show ?case by (intro Consume_returns [of c n k]) auto
next
  case 2
  then have R: "redis_streams R view ok" by blast
  from 2 obtain st where st: "st \<in> set AllStreams" "undelivered (view s st grp) \<noteq> []" by blast
  obtain r s' where
    p: "poll_streams R unmarshal (others k) grp consumer AllStreams s = (Some r, s')" and
    c: "Consume R unmarshal c others grp consumer k s = Some (r, s')"
    using redis_streams.Consume_finds [OF R _ _ st, of others c k unmarshal consumer] 2 by auto
  from p have "r \<noteq> Inl CtxDone" by (rule poll_streams_no_cancel)
  with c show ?case by blast
qed

theorem consume_ends_witness:
  "(\<exists>y. Consume mem_client Some \<lparr>done_before = (\<lambda>n. n = 3), done_asleep = (\<lambda>_. False)\<rparr> (\<lambda>_ _ t. t)
      ''workers'' ''worker-1'' 0 mem_groups = Some y) \<and>
   (\<exists>r s'. Consume mem_client Some never (\<lambda>_ _ t. t) ''workers'' ''worker-1'' 0 mem_one = Some (r, s') \<and> r \<noteq> Inl CtxDone)"
proof
  show "\<exists>y. Consume mem_client Some \<lparr>done_before = (\<lambda>n. n = 3), done_asleep = (\<lambda>_. False)\<rparr> (\<lambda>_ _ t. t)
      ''workers'' ''worker-1'' 0 mem_groups = Some y"
    using consume_ends [of 0 3 "\<lparr>done_before = (\<lambda>n. n = 3), done_asleep = (\<lambda>_. False)\<rparr>"
        mem_client Some "\<lambda>_ _ t. t" "''workers''" "''worker-1''" mem_groups] by simp
  show "\<exists>r s'. Consume mem_client Some never (\<lambda>_ _ t. t) ''workers'' ''worker-1'' 0 mem_one = Some (r, s') \<and> r \<noteq> Inl CtxDone"
    using consume_ends [where R = mem_client and view = mem_view and ok = mem_ok and s = mem_one
        and others = "\<lambda>_ _ t. t" and c = never and k = 0 and grp = "''workers''"]
      mem.redis_streams_axioms mem_one_ok mem_one_waiting by (fastforce simp: never_def)
qed

text \<open>
  C18 An event published to a drained stream is what the next job of the group carries, from the stream
  of its priority; it stays pending until the job is acknowledged, and the acknowledgement leaves the
  pending entries exactly as they were before the delivery.
\<close>

theorem publish_consume_ack:
  assumes "redis_streams R view ok" and "ok s" and "Publish R marshal e s = (None, s1)"
    and "exists_group (view s (stream_of (ePriority e)) grp)"
    and "\<forall>st \<in> set AllStreams. undelivered (view s st grp) = []"
    and "\<forall>n st t. ok t \<longrightarrow> ok (others n st t) \<and> view (others n st t) = view t"
    and "\<forall>m. marshal e = Some m \<longrightarrow> unmarshal m = Some e"
    and "Consume R unmarshal c others grp consumer k s1 = Some (Inr j, s2)"
  shows "jEvent j = e \<and> jQueue j = stream_of (ePriority e) \<and> jGroup j = grp \<and>
    (\<exists>m. marshal e = Some m \<and> pending (view s2 (jQueue j) grp) = pending (view s (jQueue j) grp) @ [(jReceipt j, m)]) \<and>
    (\<forall>s3. Ack R j s2 = (None, s3) \<longrightarrow> pending (view s3 (jQueue j) grp) = pending (view s (jQueue j) grp))"
proof -
  have c: "ok s2 \<and> jEvent j = e \<and> jQueue j = stream_of (ePriority e) \<and> jGroup j = grp \<and> jReceipt j \<noteq> '''' \<and>
    (\<exists>m. marshal e = Some m \<and> pending (view s2 (jQueue j) grp) = pending (view s (jQueue j) grp) @ [(jReceipt j, m)]) \<and>
    (\<forall>p \<in> set (pending (view s (jQueue j) grp)). fst p \<noteq> jReceipt j)"
    using assms(6,7) by (intro redis_streams.Publish_Consume [OF assms(1-5) _ _ assms(8)]) auto
  moreover have "pending (view s3 (jQueue j) grp) = pending (view s (jQueue j) grp)" if "Ack R j s2 = (None, s3)" for s3
    using redis_streams.Ack_pending [OF assms(1) _ that] c by (auto simp: filter_id_conv)
  ultimately show ?thesis by blast
qed

theorem publish_consume_ack_witness:
  "jEvent job_one = msg_event PriorityHigh \<and> jQueue job_one = stream_of PriorityHigh \<and>
   pending (mem_view (snd (Ack mem_client job_one mem_taken)) StreamHigh ''workers'') = []"
proof -
  have p: "Publish mem_client Some (msg_event PriorityHigh) mem_groups = (None, mem_one)"
    by (simp add: mem_one_def mem_unfold)
  have g: "exists_group (mem_view mem_groups st ''workers'')" "undelivered (mem_view mem_groups st ''workers'') = []"
      "pending (mem_view mem_groups st ''workers'') = []" if "st \<in> set AllStreams" for st
    using that by (simp_all add: mem_groups_eq mem_unfold)
  have a: "Ack mem_client job_one mem_taken = (None, snd (Ack mem_client job_one mem_taken))"
    by (simp add: Ack_def mem_client_def mem_xack_def job_one_def)
  show ?thesis
    using publish_consume_ack [OF mem.redis_streams_axioms mem_groups_ok p g(1) _ _ _ Consume_mem_one] g(2,3) a
    by (simp add: msg_event_def stream_of_def job_one_def AllStreams_def)
qed

text \<open>
  C17 A retry never loses the event: when it succeeds the event, with its updated fields, is the newest
  entry of the stream of its priority and the old entry is acknowledged; when it fails the event is there
  or its old entry is still pending.
\<close>

theorem retry_never_loses:
  assumes "redis_streams R view ok" and "ok s" and "Retry R marshal j s = (r, s')"
    and "(jReceipt j, m0) \<in> set (pending (view s (jQueue j) (jGroup j)))"
    and "exists_group (view s (stream_of (ePriority (jEvent j))) (jGroup j))"
    and "marshal (jEvent j) = Some m"
  shows "(r = None \<longrightarrow>
      (\<exists>ident. undelivered (view s' (stream_of (ePriority (jEvent j))) (jGroup j)) =
          undelivered (view s (stream_of (ePriority (jEvent j))) (jGroup j)) @ [(ident, m)]) \<and>
      jReceipt j \<notin> fst ` set (pending (view s' (jQueue j) (jGroup j)))) \<and>
    (r \<noteq> None \<longrightarrow>
      m \<in> snd ` set (undelivered (view s' (stream_of (ePriority (jEvent j))) (jGroup j))) \<or>
      (jReceipt j, m0) \<in> set (pending (view s' (jQueue j) (jGroup j))))"
proof (intro conjI impI)
  assume "r = None"
  with redis_streams.Retry_success [OF assms(1,2)] assms(3,5,6) show
    "\<exists>ident. undelivered (view s' (stream_of (ePriority (jEvent j))) (jGroup j)) =
       undelivered (view s (stream_of (ePriority (jEvent j))) (jGroup j)) @ [(ident, m)]"
    "jReceipt j \<notin> fst ` set (pending (view s' (jQueue j) (jGroup j)))"
    by (fastforce simp: undelivered_add view_ack_def)+
next
  assume "r \<noteq> None"
  then show "m \<in> snd ` set (undelivered (view s' (stream_of (ePriority (jEvent j))) (jGroup j))) \<or>
      (jReceipt j, m0) \<in> set (pending (view s' (jQueue j) (jGroup j)))"
    using redis_streams.Retry_keeps_event [OF assms] by blast
qed

theorem retry_never_loses_witness:
  "undelivered (mem_view (snd (Retry mem_client Some (job_one\<lparr>jEvent := msg_event PriorityLow\<rparr>) mem_taken))
      StreamLow ''workers'') = [(msg_id 2, msg_event PriorityLow)] \<and>
   msg_id 1 \<notin> fst ` set (pending (mem_view
      (snd (Retry mem_client Some (job_one\<lparr>jEvent := msg_event PriorityLow\<rparr>) mem_taken)) StreamHigh ''workers''))"
proof -
  let ?j = "job_one\<lparr>jEvent := msg_event PriorityLow\<rparr>"
  have ok: "mem_ok mem_taken" using consume_mem_one_ok .
  have r: "Retry mem_client Some ?j mem_taken = (None, snd (Retry mem_client Some ?j mem_taken))"
    by (simp add: Retry_def mem_unfold job_one_def)
  have p: "(jReceipt ?j, msg_event PriorityHigh) \<in> set (pending (mem_view mem_taken (jQueue ?j) (jGroup ?j)))"
    by (simp add: mem_taken_def mem_one_eq mem_unfold job_one_def)
  have g: "exists_group (mem_view mem_taken (stream_of (ePriority (jEvent ?j))) (jGroup ?j))"
    by (simp add: mem_taken_def mem_one_eq mem_unfold job_one_def msg_event_def)
  show ?thesis
    using retry_never_loses [OF mem.redis_streams_axioms ok r p g refl]
    by (simp add: mem_taken_eq Retry_def mem_unfold job_one_def msg_event_def priority_defs)
qed



end
