(* ===== verification/Config.thy ===== *)
theory Config
  imports GoLib
begin

text \<open>
  \<open>internal/config/config.go\<close>: the configuration a process reads from its environment. The environment
  is a partial function from names to values; \<open>os.Getenv\<close> returns the empty string for an unset name,
  \<open>os.LookupEnv\<close> tells the two apart. Durations are multiplied out in 64 bits, as Go does.
\<close>

type_synonym environ = "string \<rightharpoonup> string"

definition os_Getenv :: "environ \<Rightarrow> string \<Rightarrow> string" where
  "os_Getenv env key = (case env key of None \<Rightarrow> '''' | Some v \<Rightarrow> v)"

record config =
  HTTPPort :: string
  HTTPMetricsPort :: string
  ReadTimeout :: duration
  WriteTimeout :: duration
  ShutdownTimeout :: duration
  DatabaseURL :: string
  RedisURL :: string
  WorkerCount :: int
  WorkerConsumerGroup :: string
  HeartbeatInterval :: duration
  HeartbeatTTL :: duration

definition getEnv :: "environ \<Rightarrow> string \<Rightarrow> string \<Rightarrow> string" where
  "getEnv env key fallback = (let v = os_Getenv env key in if v \<noteq> '''' then v else fallback)"

definition getInt :: "environ \<Rightarrow> string \<Rightarrow> int \<Rightarrow> int" where
  "getInt env key fallback =
     (case env key of
        Some value \<Rightarrow> (case Atoi value of Some i \<Rightarrow> i | None \<Rightarrow> fallback)
      | None \<Rightarrow> fallback)"

definition getDuration :: "environ \<Rightarrow> string \<Rightarrow> int \<Rightarrow> duration" where
  "getDuration env key defaultSeconds =
     (let v = os_Getenv env key in
      if v = '''' then word_of_int defaultSeconds * time_Second
      else case Atoi v of
             None \<Rightarrow> word_of_int defaultSeconds * time_Second
           | Some n \<Rightarrow> if n \<le> 0 then word_of_int defaultSeconds * time_Second
                     else word_of_int n * time_Second)"

definition Load :: "environ \<Rightarrow> config" where
  "Load env =
     \<lparr> HTTPPort = getEnv env ''HTTP_PORT'' ''8080'',
       HTTPMetricsPort = getEnv env ''HTTP_METRICS_PORT'' ''9090'',
       ReadTimeout = getDuration env ''READ_TIMEOUT_SECONDS'' 10,
       WriteTimeout = getDuration env ''WRITE_TIMEOUT_SECONDS'' 10,
       ShutdownTimeout = getDuration env ''SHUTDOWN_TIMEOUT_SECONDS'' 30,
       DatabaseURL = getEnv env ''DATABASE_URL'' '''',
       RedisURL = getEnv env ''REDIS_URL'' '''',
       WorkerCount = getInt env ''WORKER_COUNT'' 4,
       WorkerConsumerGroup = getEnv env ''WORKER_CONSUMER_GROUP'' ''streamforge_workers'',
       HeartbeatInterval = getDuration env ''HEARTBEAT_INTERVAL_SECONDS'' 5,
       HeartbeatTTL = getDuration env ''HEARTBEAT_TTL_SECONDS'' 15 \<rparr>"

section \<open>The seconds a setting stands for\<close>

text \<open>
  The contract of a duration setting: a decimal positive number of seconds, anything else (unset,
  empty, unparsable, zero or negative) standing for the default.
\<close>

definition seconds_setting :: "environ \<Rightarrow> string \<Rightarrow> int \<Rightarrow> int" where
  "seconds_setting env key d =
     (case Atoi (os_Getenv env key) of None \<Rightarrow> d | Some n \<Rightarrow> if n \<le> 0 then d else n)"

lemma getDuration_seconds:
  "getDuration env key d = word_of_int (seconds_setting env key d) * time_Second"
  by (auto simp: getDuration_def seconds_setting_def Let_def split: option.splits)

lemma seconds_setting_pos: "0 < d \<Longrightarrow> 0 < seconds_setting env key d"
  by (auto simp: seconds_setting_def split: option.splits)

text \<open>A number of seconds fits the 64-bit nanosecond count up to 9223372036, some 292 years.\<close>

lemma sint_seconds:
  assumes "0 \<le> n" and "n \<le> 9223372036"
  shows "sint (word_of_int n * time_Second) = n * nanos_per_second"
proof -
  have "word_of_int n * time_Second = (word_of_int (n * 1000000000) :: duration)"
    by (simp add: time_Second_def)
  then show ?thesis using assms by (simp add: sint_duration del: of_int_mult)
qed

lemma getDuration_exact:
  assumes "0 < d" and "seconds_setting env key d \<le> 9223372036"
  shows "sint (getDuration env key d) = seconds_setting env key d * nanos_per_second"
  using assms seconds_setting_pos [of d env key]
  by (simp add: getDuration_seconds sint_seconds)

lemma getEnv_nonempty: "fallback \<noteq> '''' \<Longrightarrow> getEnv env key fallback \<noteq> ''''"
  by (simp add: getEnv_def Let_def)

lemma getInt_Itoa:
  "env key = Some (Itoa n) \<Longrightarrow> - (2 ^ 63) \<le> n \<Longrightarrow> n < 2 ^ 63 \<Longrightarrow> getInt env key d = n"
  by (simp add: getInt_def Atoi_Itoa)

lemma getDuration_Itoa:
  assumes "env key = Some (Itoa n)" and "0 < n" and "n \<le> 9223372036"
  shows "sint (getDuration env key d) = n * nanos_per_second"
proof -
  have "Atoi (Itoa n) = Some n" using assms by (simp add: Atoi_Itoa)
  with assms have "seconds_setting env key d = n"
    by (simp add: seconds_setting_def os_Getenv_def)
  with assms show ?thesis by (simp add: getDuration_seconds sint_seconds)
qed

section \<open>Properties\<close>

text \<open>
  C40 A duration setting given in decimal as \<open>n\<close> seconds, from 1 up to 9223372036, is exactly \<open>n\<close> seconds;
  an unset, empty, unparsable, zero or negative one is the default. The next number of seconds no longer
  fits the 64-bit nanoseconds: the setting 9223372037 is a negative duration.
\<close>

theorem duration_setting:
  "(\<forall>n. env key = Some (Itoa n) \<and> 1 \<le> n \<and> n \<le> 9223372036 \<longrightarrow>
      sint (getDuration env key d) = n * nanos_per_second) \<and>
   (env key = None \<or> env key = Some '''' \<or> (\<exists>v. env key = Some v \<and> Atoi v = None) \<or>
      (\<exists>v n. env key = Some v \<and> Atoi v = Some n \<and> n \<le> 0) \<longrightarrow>
      getDuration env key d = word_of_int d * time_Second) \<and>
   (env key = Some (Itoa 9223372037) \<longrightarrow> sint (getDuration env key d) < 0)"
proof (intro conjI allI impI, goal_cases)
  case (1 n)
  then show ?case by (intro getDuration_Itoa) auto
next
  case 2
  then show ?case by (auto simp: getDuration_def os_Getenv_def Let_def)
next
  case 3
  have "Atoi (Itoa 9223372037) = Some 9223372037" by (simp add: Atoi_Itoa)
  then have "Itoa 9223372037 \<noteq> ''''" by (auto simp: Atoi_def)
  with 3 \<open>Atoi (Itoa 9223372037) = Some 9223372037\<close>
  have "getDuration env key d = 9223372037 * 1000000000"
    by (simp add: getDuration_def os_Getenv_def time_Second_def Let_def)
  then show ?case by simp
qed

theorem duration_setting_witness:
  "sint (getDuration [''READ_TIMEOUT_SECONDS'' \<mapsto> Itoa 30] ''READ_TIMEOUT_SECONDS'' 10) = 30 * nanos_per_second \<and>
   getDuration [''READ_TIMEOUT_SECONDS'' \<mapsto> ''''] ''READ_TIMEOUT_SECONDS'' 10 = word_of_int 10 * time_Second"
  using duration_setting [of "[''READ_TIMEOUT_SECONDS'' \<mapsto> Itoa 30]" "''READ_TIMEOUT_SECONDS''" 10]
    duration_setting [of "[''READ_TIMEOUT_SECONDS'' \<mapsto> '''']" "''READ_TIMEOUT_SECONDS''" 10]
  by simp

end
