(* ===== verification/Double.thy ===== *)
theory Double
  imports GoLib "HOL-Library.Log_Nat"
begin

text \<open>
  Go's \<open>float64\<close>: a finite double is a rational, and every operation rounds its exact result to 53
  significant bits, ties to even. Overflow to infinity and gradual underflow are left out: the code
  computes with durations, between \<open>2^-60\<close> and \<open>2^80\<close>. A conversion to \<open>int64\<close> cuts off the
  fraction; out of range its value is up to the implementation and is an argument.
\<close>

section \<open>Rounding\<close>

definition round_even :: "rat \<Rightarrow> int" where
  "round_even q =
     (let f = \<lfloor>q\<rfloor>; r = q - of_int f in
      if r < 1 / 2 then f else if 1 / 2 < r then f + 1 else if even f then f else f + 1)"

text \<open>The exponent of the leading bit of a non-zero rational.\<close>

definition exponent :: "rat \<Rightarrow> int" where
  "exponent x =
     (let (a, b) = quotient_of \<bar>x\<bar>; e = bitlen a - bitlen b in
      if 2 powi e \<le> \<bar>x\<bar> then e else e - 1)"

definition fl :: "rat \<Rightarrow> rat" where
  "fl x = (if x = 0 then 0 else let ulp = 2 powi (exponent x - 52) in of_int (round_even (x / ulp)) * ulp)"

definition float64_of :: "go_int64 \<Rightarrow> rat" where
  "float64_of n = fl (of_int (sint n))"

definition trunc :: "rat \<Rightarrow> int" where
  "trunc x = (if 0 \<le> x then \<lfloor>x\<rfloor> else \<lceil>x\<rceil>)"

definition int64_of :: "(rat \<Rightarrow> go_int64) \<Rightarrow> rat \<Rightarrow> go_int64" where
  "int64_of out_of_range x =
     (if - (2 ^ 63) \<le> trunc x \<and> trunc x < 2 ^ 63 then word_of_int (trunc x) else out_of_range x)"

section \<open>Exactness and error\<close>

lemma round_even_error: "\<bar>of_int (round_even q) - q\<bar> \<le> 1 / 2"
proof -
  have "of_int \<lfloor>q\<rfloor> \<le> q" "q < of_int \<lfloor>q\<rfloor> + 1" by linarith+
  then show ?thesis by (auto simp: round_even_def Let_def abs_le_iff)
qed

lemma round_even_of_int [simp]: "round_even (of_int n) = n"
  by (simp add: round_even_def)

lemma exponent_le:
  assumes "x \<noteq> 0"
  shows "2 powi exponent x \<le> \<bar>x\<bar>"
proof -
  obtain a b where q: "quotient_of \<bar>x\<bar> = (a, b)" by fastforce
  have x: "\<bar>x\<bar> = of_int a / of_int b" using q by (rule quotient_of_div)
  have b: "0 < b" using q by (rule quotient_of_denom_pos)
  have "0 < of_int a / (of_int b :: rat)" using x assms by (metis zero_less_abs_iff)
  with b have a: "0 < a" by (simp add: zero_less_divide_iff)
  have bl: "(2 :: int) ^ nat (bitlen a - 1) \<le> a" "b < 2 ^ nat (bitlen b)" "0 \<le> bitlen b" "1 \<le> bitlen a"
    using bitlen_bounds [of a] bitlen_bounds [of b] bitlen_nonneg [of b] bitlen_nonneg [of a] a b
    bitlen_eq_zero_iff [of a] by linarith+
  have "(2 :: rat) powi (bitlen a - bitlen b - 1) \<le> of_int a / of_int b"
  proof -
    have "(2 :: rat) powi (bitlen a - bitlen b - 1) = 2 ^ nat (bitlen a - 1) / 2 ^ nat (bitlen b)"
    proof -
      have "(2 :: rat) powi (bitlen a - bitlen b - 1) = 2 powi (bitlen a - 1) / 2 powi bitlen b"
        by (simp flip: power_int_diff add: algebra_simps)
      then show ?thesis using bl(3,4) by (simp add: power_int_def)
    qed
    also have "\<dots> \<le> of_int a / of_int b"
    proof (rule frac_le)
      show "(2 :: rat) ^ nat (bitlen a - 1) \<le> of_int a"
        using bl(1) by (metis of_int_le_iff of_int_numeral of_int_power)
      show "of_int b \<le> (2 :: rat) ^ nat (bitlen b)"
        using bl(2) by (metis less_imp_le of_int_le_iff of_int_numeral of_int_power)
    qed (use a b in auto)
    finally show ?thesis .
  qed
  then show ?thesis using x q by (simp add: exponent_def Let_def)
qed

lemma fl_error: "\<bar>fl x - x\<bar> \<le> \<bar>x\<bar> / 2 ^ 53"
proof (cases "x = 0")
  case False
  define ulp where "ulp = (2 :: rat) powi (exponent x - 52)"
  have ulp: "0 < ulp" by (simp add: ulp_def)
  have "fl x - x = (of_int (round_even (x / ulp)) - x / ulp) * ulp"
    using False ulp by (simp add: fl_def ulp_def Let_def left_diff_distrib)
  then have "\<bar>fl x - x\<bar> = \<bar>of_int (round_even (x / ulp)) - x / ulp\<bar> * ulp"
    using ulp by (simp add: abs_mult)
  also have "\<dots> \<le> 1 / 2 * ulp"
    using ulp by (intro mult_right_mono round_even_error) simp
  also have "\<dots> = 2 powi exponent x / 2 ^ 53"
    by (simp add: ulp_def power_int_diff)
  also have "\<dots> \<le> \<bar>x\<bar> / 2 ^ 53"
    using exponent_le [OF False] by (simp add: divide_right_mono)
  finally show ?thesis .
qed (simp add: fl_def)

lemma fl_int:
  assumes "\<bar>n\<bar> < 2 ^ 53"
  shows "fl (of_int n) = of_int n"
proof (cases "n = 0")
  case False
  define e where "e = exponent (of_int n)"
  have "(2 :: rat) powi e \<le> of_int \<bar>n\<bar>" using exponent_le [of "of_int n"] False by (simp add: e_def)
  also have "\<dots> < of_int (2 ^ 53)" using assms by (subst of_int_less_iff)
  finally have lt: "(2 :: rat) powi e < 2 powi 53" by simp
  have "e < 53"
  proof (rule ccontr)
    assume "\<not> e < 53"
    then have "(2 :: rat) powi 53 \<le> 2 powi e" by (intro power_int_increasing) auto
    with lt show False by simp
  qed
  define k where "k = nat (52 - e)"
  with \<open>e < 53\<close> have k: "e - 52 = - int k" by simp
  have "of_int n / (2 :: rat) powi (e - 52) = of_int (n * 2 ^ k)"
    by (simp add: k power_int_minus divide_inverse)
  then have "of_int (round_even (of_int n / 2 powi (e - 52))) * (2 :: rat) powi (e - 52) =
      of_int (n * 2 ^ k) * 2 powi (e - 52)"
    by (metis round_even_of_int)
  also have "\<dots> = of_int n" by (simp add: k power_int_minus)
  finally show ?thesis using False by (simp add: fl_def e_def Let_def)
qed (simp add: fl_def)

end
