(* ===== verification/Backoff.thy ===== *)
theory Backoff
  imports Double
begin

text \<open>
  \<open>internal/worker/backoff.go\<close>: the delay before a failed event is put back, with the arithmetic of
  doubles written out. The random number \<open>u\<close> of \<open>rand.Float64\<close> is an argument, and so is the value
  of a conversion that is out of range.
\<close>

definition maxDelay :: duration where
  "maxDelay = 2 * time_Hour"

definition CalculateBackoff :: "(rat \<Rightarrow> go_int64) \<Rightarrow> rat \<Rightarrow> int \<Rightarrow> duration \<Rightarrow> duration" where
  "CalculateBackoff out_of_range u attempt baseDelay =
     (if attempt \<le> 0 then baseDelay
      else
        let attempt = (if 15 < attempt then 15 else attempt);
            delay = int64_of out_of_range (fl (float64_of baseDelay * 2 ^ nat attempt));
            jitterAmount = fl (float64_of delay * fl (1 / 10));
            jitter = fl (fl (fl (u * 2) * jitterAmount) - jitterAmount);
            finalDelay = int64_of out_of_range (fl (float64_of delay + jitter))
        in if sint maxDelay < sint finalDelay then maxDelay else finalDelay)"

lemma sint_maxDelay [simp]: "sint maxDelay = 7200 * nanos_per_second"
  by (simp add: maxDelay_def time_Hour_def time_Minute_def time_Second_def)

section \<open>The error of the jitter\<close>

lemma fl_near:
  assumes "\<bar>x - y\<bar> \<le> e" and "\<bar>x\<bar> \<le> b"
  shows "\<bar>fl x - y\<bar> \<le> e + b / 2 ^ 53"
proof -
  have "\<bar>x\<bar> / 2 ^ 53 \<le> b / 2 ^ 53" using assms(2) by (simp add: divide_right_mono)
  with assms(1) fl_error [of x] show ?thesis by linarith
qed

lemma tenth_near:
  assumes "0 \<le> d" and "d < 2 ^ 53"
  shows "\<bar>fl (d * fl (1 / 10)) - d / 10\<bar> \<le> 1 / 4"
proof -
  have "\<bar>fl (1 / 10) - 1 / 10 :: rat\<bar> \<le> 1 / 10 / 2 ^ 53" using fl_error [of "1 / 10"] by simp
  then have "\<bar>d * (fl (1 / 10) - 1 / 10)\<bar> \<le> d * (1 / 10 / 2 ^ 53)"
    unfolding abs_mult abs_of_nonneg [OF assms(1)] using assms(1) by (intro mult_left_mono)
  also have "\<dots> \<le> 1 / 10" using assms(2) by simp
  finally have n: "\<bar>d * fl (1 / 10) - d / 10\<bar> \<le> 1 / 10" by (simp add: right_diff_distrib)
  then have "\<bar>d * fl (1 / 10)\<bar> \<le> d / 10 + 1 / 10" using assms(1) by linarith
  note fl_near [OF n this]
  moreover have "(d / 10 + 1 / 10) / 2 ^ 53 \<le> 3 / 20" using assms(2) by (simp add: field_simps)
  ultimately show ?thesis by linarith
qed

lemma abs_near_bound:
  "\<bar>p - v\<bar> \<le> e \<Longrightarrow> \<bar>v\<bar> \<le> 2 * \<bar>a\<bar> \<Longrightarrow> \<bar>a\<bar> \<le> b \<Longrightarrow> \<bar>p\<bar> \<le> 2 * b + (e :: rat)"
  by linarith

lemma abs_diff_bound:
  "\<bar>r - v\<bar> \<le> e \<Longrightarrow> \<bar>v - a\<bar> \<le> \<bar>a\<bar> \<Longrightarrow> \<bar>a\<bar> \<le> b \<Longrightarrow> \<bar>r - a\<bar> \<le> b + (e :: rat)"
  by linarith

lemma jitter_near:
  assumes "0 \<le> u" and "u < 1" and "0 \<le> d" and "d < 2 ^ 53" and "\<bar>a - d / 10\<bar> \<le> 1 / 4"
  shows "\<bar>fl (fl (fl (u * 2) * a) - a)\<bar> \<le> d / 10 + 1"
proof -
  have a: "\<bar>a\<bar> \<le> d / 10 + 1 / 4" using assms by linarith
  have "\<bar>u * 2\<bar> \<le> 2" using assms by simp
  then have u: "\<bar>fl (u * 2) - u * 2\<bar> \<le> 2 / 2 ^ 53" using fl_near [of "u * 2" "u * 2" 0 2] by simp
  have "\<bar>fl (u * 2) * a - u * 2 * a\<bar> = \<bar>fl (u * 2) - u * 2\<bar> * \<bar>a\<bar>" by (simp flip: abs_mult add: left_diff_distrib)
  also have "\<dots> \<le> 2 / 2 ^ 53 * (d / 10 + 1 / 4)" using u a by (intro mult_mono) auto
  also have "\<dots> \<le> 21 / 100" using assms(4) by simp
  finally have q: "\<bar>fl (u * 2) * a - u * 2 * a\<bar> \<le> 21 / 100" .
  have "\<bar>u * 2 * a\<bar> \<le> 2 * \<bar>a\<bar>" using assms(1,2) by (simp add: abs_mult mult_right_mono)
  from abs_near_bound [OF q this a] have "\<bar>fl (u * 2) * a\<bar> \<le> 2 * (d / 10 + 1 / 4) + 21 / 100" .
  note fl_near [OF q this]
  moreover have "(2 * (d / 10 + 1 / 4) + 21 / 100) / 2 ^ 53 \<le> 24 / 100" using assms(4) by (simp add: field_simps)
  ultimately have r: "\<bar>fl (fl (u * 2) * a) - u * 2 * a\<bar> \<le> 45 / 100" by linarith
  have "\<bar>u * 2 * a - a\<bar> = \<bar>u * 2 - 1\<bar> * \<bar>a\<bar>" by (simp flip: abs_mult add: left_diff_distrib)
  also have "\<dots> \<le> 1 * \<bar>a\<bar>" using assms(1,2) by (intro mult_right_mono) auto
  finally have "\<bar>fl (fl (u * 2) * a) - a\<bar> \<le> d / 10 + 70 / 100"
    using abs_diff_bound [OF r _ a] by simp
  then have "\<bar>fl (fl (fl (u * 2) * a) - a)\<bar> \<le> (d / 10 + 70 / 100) + (d / 10 + 70 / 100) / 2 ^ 53"
    using fl_near [of "fl (fl (u * 2) * a) - a" 0 "d / 10 + 70 / 100" "d / 10 + 70 / 100"] by simp
  also have "\<dots> \<le> d / 10 + 1" using assms(4) by (simp add: add_divide_distrib)
  finally show ?thesis .
qed

lemma trunc_near: "\<bar>of_int (trunc x) - x\<bar> \<le> 1"
proof -
  have "of_int \<lfloor>x\<rfloor> \<le> x" "x < of_int \<lfloor>x\<rfloor> + 1" "x \<le> of_int \<lceil>x\<rceil>" "of_int \<lceil>x\<rceil> < x + 1" by linarith+
  then show ?thesis unfolding trunc_def by (auto simp only: abs_le_iff split: if_split)
qed

section \<open>The delay\<close>

lemma int64_of_int:
  assumes "0 \<le> n" and "n < 2 ^ 53"
  shows "int64_of f (of_int n) = word_of_int n" and "sint (word_of_int n :: go_int64) = n"
  using assms by (simp_all add: int64_of_def trunc_def sint_duration)

lemma float64_exact: "\<bar>sint n\<bar> < 2 ^ 53 \<Longrightarrow> float64_of n = of_int (sint n)"
  unfolding float64_of_def by (rule fl_int)

text \<open>
  Up to \<open>2 ^ 53\<close> nanoseconds, some 104 days, the exponential part is computed exactly, and the jitter
  stays within ten percent up to three nanoseconds of rounding.
\<close>

lemma final_near:
  assumes "1 < d" and "d < 2 ^ 53" and "\<bar>j\<bar> \<le> of_int d / 10 + 1"
  shows "\<bar>of_int (trunc (fl (of_int d + j))) - (of_int d :: rat)\<bar> \<le> of_int d / 10 + 4"
    and "0 \<le> trunc (fl (of_int d + j))"
proof -
  let ?t = "of_int d + j"
  have d: "(of_int d :: rat) < 2 ^ 53" "(2 :: rat) \<le> of_int d"
    using assms(1,2) by (simp_all add: of_int_less_numeral_power_cancel_iff)
  have t: "\<bar>?t\<bar> \<le> 11 / 10 * of_int d + 1" using d assms(3) by linarith
  have "\<bar>fl ?t - of_int d\<bar> \<le> (of_int d / 10 + 1) + (11 / 10 * of_int d + 1) / 2 ^ 53"
    using assms(3) t by (intro fl_near) auto
  also have "\<dots> \<le> of_int d / 10 + 3" using d by (simp add: add_divide_distrib)
  finally show "\<bar>of_int (trunc (fl ?t)) - (of_int d :: rat)\<bar> \<le> of_int d / 10 + 4"
    using trunc_near [of "fl ?t"] by linarith
  have "0 \<le> ?t" using d assms(3) by linarith
  moreover from this have "?t / 2 ^ 53 \<le> ?t" by (simp add: divide_le_eq)
  ultimately have "0 \<le> fl ?t" using fl_error [of ?t] unfolding abs_of_nonneg [OF \<open>0 \<le> ?t\<close>] by linarith
  then show "0 \<le> trunc (fl ?t)" by (simp add: trunc_def)
qed

text \<open>
  Up to \<open>2 ^ 53\<close> nanoseconds, some 104 days, the exponential part is computed exactly, and the jitter
  stays within ten percent up to four nanoseconds of rounding; then comes the cap.
\<close>

lemma CalculateBackoff_near:
  assumes "1 \<le> attempt" and "0 < sint base" and "0 \<le> u" and "u < 1"
    and d: "d = sint base * 2 ^ nat (min attempt 15)" "d < 2 ^ 53"
  obtains f where "0 \<le> f" "10 * \<bar>f - d\<bar> \<le> d + 40"
    "sint (CalculateBackoff oor u attempt base) = min (sint maxDelay) f"
proof -
  define k where "k = nat (min attempt 15)"
  have k: "1 \<le> k" using assms(1) by (simp add: k_def)
  have d1: "sint base \<le> d" "1 < d"
  proof -
    have "(2 :: int) ^ 1 \<le> 2 ^ k" using k by (intro power_increasing) auto
    then have "sint base * 2 \<le> d" using assms(2) by (simp add: d(1) k_def)
    with assms(2) show "sint base \<le> d" "1 < d" by linarith+
  qed
  have b: "float64_of base = of_int (sint base)" using d1 d(2) assms(2) by (intro float64_exact) simp
  then have delay: "fl (float64_of base * 2 ^ k) = of_int d"
    using d d1 fl_int [of d] by (simp add: k_def)
  note i = int64_of_int [of d]
  define a where "a = fl (of_int d * fl (1 / 10))"
  define j where "j = fl (fl (fl (u * 2) * a) - a)"
  have dr: "(0 :: rat) \<le> of_int d" "(of_int d :: rat) < 2 ^ 53"
    using d1 d(2) by (simp_all add: of_int_less_numeral_power_cancel_iff)
  have j: "\<bar>j\<bar> \<le> of_int d / 10 + 1"
    unfolding j_def using assms(3,4) dr tenth_near [OF dr] by (intro jitter_near) (simp_all add: a_def)
  define f where "f = trunc (fl (of_int d + j))"
  have f: "0 \<le> f" "10 * \<bar>f - d\<bar> \<le> d + 40"
  proof -
    show "0 \<le> f" unfolding f_def by (rule final_near(2) [OF d1(2) d(2) j])
    have "10 * \<bar>(of_int f :: rat) - of_int d\<bar> \<le> of_int d + 40"
      using mult_left_mono [OF final_near(1) [OF d1(2) d(2) j], of 10] unfolding f_def by (simp add: distrib_left)
    then have "(of_int (10 * \<bar>f - d\<bar>) :: rat) \<le> of_int (d + 40)" by simp
    then show "10 * \<bar>f - d\<bar> \<le> d + 40" by (simp only: of_int_le_iff)
  qed
  have final: "sint (int64_of oor (fl (of_int d + j))) = f"
  proof -
    have "f < 2 ^ 63" using f d(2) by (simp add: abs_if split: if_splits)
    then show ?thesis using f(1) by (simp add: int64_of_def sint_duration flip: f_def)
  qed
  have fd: "float64_of (word_of_int d) = of_int d"
    using d(2) d1 i by (simp add: float64_exact)
  have "CalculateBackoff oor u attempt base =
     (if sint maxDelay < f then maxDelay else int64_of oor (fl (of_int d + j)))"
  proof -
    have "(if 15 < attempt then 15 else attempt) = min attempt 15" by simp
    then show ?thesis
      using assms(1) d1 d(2)
      by (simp add: CalculateBackoff_def Let_def delay [unfolded k_def] i fd final flip: a_def j_def)
  qed
  then have "sint (CalculateBackoff oor u attempt base) = min (sint maxDelay) f" using final by simp
  with f that show ?thesis by blast
qed

section \<open>Properties\<close>

text \<open>
  C37 The backoff before attempt \<open>n\<close> (at least 1, counted up to 15) is the base delay times \<open>2 ^ n\<close> with
  a jitter of at most ten percent (and the rounding of the doubles, below five nanoseconds), never
  negative, and capped at two hours; the cap holds whatever the base delay and the random number are.
\<close>

theorem backoff_bounds:
  assumes "1 \<le> attempt"
  shows "sint (CalculateBackoff oor u attempt base) \<le> 7200 * nanos_per_second \<and>
    (0 < sint base \<and> sint base * 2 ^ nat (min attempt 15) < 2 ^ 53 \<and> 0 \<le> u \<and> u < 1 \<longrightarrow>
     (\<exists>f. sint (CalculateBackoff oor u attempt base) = min (7200 * nanos_per_second) f \<and> 0 \<le> f \<and>
        10 * \<bar>f - sint base * 2 ^ nat (min attempt 15)\<bar> \<le> sint base * 2 ^ nat (min attempt 15) + 40))"
proof (intro conjI impI)
  show "sint (CalculateBackoff oor u attempt base) \<le> 7200 * nanos_per_second"
    using assms sint_maxDelay unfolding CalculateBackoff_def Let_def by auto
next
  assume a: "0 < sint base \<and> sint base * 2 ^ nat (min attempt 15) < 2 ^ 53 \<and> 0 \<le> u \<and> u < 1"
  obtain f where "0 \<le> f" "10 * \<bar>f - sint base * 2 ^ nat (min attempt 15)\<bar> \<le> sint base * 2 ^ nat (min attempt 15) + 40"
      "sint (CalculateBackoff oor u attempt base) = min (sint maxDelay) f"
    using CalculateBackoff_near [OF assms, of base u _ oor] a by blast
  then show "\<exists>f. sint (CalculateBackoff oor u attempt base) = min (7200 * nanos_per_second) f \<and> 0 \<le> f \<and>
        10 * \<bar>f - sint base * 2 ^ nat (min attempt 15)\<bar> \<le> sint base * 2 ^ nat (min attempt 15) + 40"
    by auto
qed

theorem backoff_bounds_witness:
  "1799999996 \<le> sint (CalculateBackoff (\<lambda>_. 0) (1 / 2) 1 time_Second) \<and>
   sint (CalculateBackoff (\<lambda>_. 0) (1 / 2) 1 time_Second) \<le> 2200000004"
proof -
  have "sint time_Second = 1000000000" by (simp add: time_Second_def)
  with backoff_bounds [of 1 "\<lambda>_. 0" "1 / 2" time_Second] show ?thesis by auto
qed

end
