(* ===== verification/Registry.thy ===== *)
theory Registry
  imports Event
begin

text \<open>
  \<open>internal/processor\<close> and the registrations of \<open>cmd/worker/main.go\<close>: the registry routes an event to
  the processor of its type. A processor is a function of the event and the world \<open>'w\<close> it acts on; the
  one the repository ships logs and succeeds. A \<open>nil\<close> processor is \<open>None\<close>.
\<close>

datatype process_error =
    ErrUnknownEventType event_type
  | ErrProcessor string

datatype register_error = ErrNilProcessor | AlreadyRegistered event_type

type_synonym 'w processor = "event \<Rightarrow> 'w \<Rightarrow> process_error option \<times> 'w"

type_synonym 'w registry = "event_type \<rightharpoonup> 'w processor"

definition NewRegistry :: "'w registry" where
  "NewRegistry = (\<lambda>_. None)"

definition Register ::
  "event_type \<Rightarrow> 'w processor option \<Rightarrow> 'w registry \<Rightarrow> register_error option \<times> 'w registry" where
  "Register t p r =
     (case p of
        None \<Rightarrow> (Some ErrNilProcessor, r)
      | Some f \<Rightarrow>
          if r t \<noteq> None then (Some (AlreadyRegistered t), r)
          else (None, r(t \<mapsto> f)))"

definition Registry_Process :: "'w registry \<Rightarrow> 'w processor" where
  "Registry_Process r e w =
     (case r (eType e) of
        None \<Rightarrow> (Some (ErrUnknownEventType (eType e)), w)
      | Some p \<Rightarrow> p e w)"

text \<open>
  The dummy processor writes one log line. The world of a process is abstract, so the line it writes
  is an argument: what \<open>slog.Info\<close> does to the world.
\<close>

definition DummyProcessor_Process :: "(string \<Rightarrow> event \<Rightarrow> 'w \<Rightarrow> 'w) \<Rightarrow> string \<Rightarrow> 'w processor" where
  "DummyProcessor_Process slog_Info name e w = (None, slog_Info name e w)"

text \<open>
  The registrations at startup: the process exits at the first one that fails.
\<close>

fun register_all :: "(event_type \<times> 'w processor option) list \<Rightarrow> 'w registry \<Rightarrow> 'w registry option" where
  "register_all [] r = Some r"
| "register_all ((t, p) # ps) r =
     (case Register t p r of
        (Some err, r') \<Rightarrow> None
      | (None, r') \<Rightarrow> register_all ps r')"

definition NewOrderProcessor :: string where "NewOrderProcessor = ''OrderProcessor''"
definition NewPaymentSuccessProcessor :: string where "NewPaymentSuccessProcessor = ''PaymentSuccessProcessor''"
definition NewPaymentFailedProcessor :: string where "NewPaymentFailedProcessor = ''PaymentFailedProcessor''"
definition NewInventoryProcessor :: string where "NewInventoryProcessor = ''InventoryProcessor''"
definition NewOrderCancelledProcessor :: string where "NewOrderCancelledProcessor = ''OrderCancelledProcessor''"
definition NewUserRegisteredProcessor :: string where "NewUserRegisteredProcessor = ''UserRegisteredProcessor''"

definition main_registrations :: "(event_type \<times> string) list" where
  "main_registrations =
     [(TypeOrderCreated, NewOrderProcessor), (TypePaymentSuccess, NewPaymentSuccessProcessor),
      (TypePaymentFailed, NewPaymentFailedProcessor), (TypeInventoryUpdated, NewInventoryProcessor),
      (TypeOrderCancelled, NewOrderCancelledProcessor), (TypeUserRegistered, NewUserRegisteredProcessor)]"

definition main_registry :: "(string \<Rightarrow> event \<Rightarrow> 'w \<Rightarrow> 'w) \<Rightarrow> 'w registry option" where
  "main_registry slog_Info =
     register_all (map (\<lambda>(t, name). (t, Some (DummyProcessor_Process slog_Info name))) main_registrations) NewRegistry"

section \<open>What registering does\<close>

lemma Register_cases:
  obtains (accepted) f where "p = Some f" "r t = None" "Register t p r = (None, r(t \<mapsto> f))"
  | (rejected) err where "p = None \<or> r t \<noteq> None" "Register t p r = (Some err, r)"
  by (cases p) (auto simp: Register_def split: if_splits)

text \<open>A sequence of registrations succeeds iff no processor is \<open>nil\<close> and no type occurs twice or is taken.\<close>

lemma register_all_iff:
  "(\<exists>r'. register_all ps r = Some r') \<longleftrightarrow>
     (\<forall>p \<in> set ps. snd p \<noteq> None) \<and> distinct (map fst ps) \<and> (\<forall>p \<in> set ps. r (fst p) = None)"
proof (induction ps arbitrary: r)
  case Nil
  then show ?case by simp
next
  case (Cons tp ps)
  obtain t p where tp: "tp = (t, p)" by (cases tp)
  show ?case
  proof (cases rule: Register_cases [of p r t])
    case (accepted f)
    have "(\<forall>q \<in> set ps. (r(t \<mapsto> f)) (fst q) = None) \<longleftrightarrow> t \<notin> fst ` set ps \<and> (\<forall>q \<in> set ps. r (fst q) = None)"
      by force
    with accepted Cons.IH [of "r(t \<mapsto> f)"] show ?thesis by (auto simp: tp simp del: fun_upd_apply)
  next
    case (rejected err)
    then show ?thesis by (auto simp: tp)
  qed
qed

lemma register_all_lookup:
  "register_all ps r = Some r' \<Longrightarrow>
   r' t = (case map_of ps t of None \<Rightarrow> r t | Some p \<Rightarrow> p)"
proof (induction ps arbitrary: r)
  case Nil
  then show ?case by simp
next
  case (Cons tp ps)
  obtain u p where tp: "tp = (u, p)" by (cases tp)
  show ?case
  proof (cases rule: Register_cases [of p r u])
    case (accepted f)
    then have rest: "register_all ps (r(u \<mapsto> f)) = Some r'" using Cons.prems by (simp add: tp)
    then have "map_of ps u = None"
      using register_all_iff [of ps "r(u \<mapsto> f)"] by (force simp: map_of_eq_None_iff)
    with accepted Cons.IH [OF rest] show ?thesis by (auto simp: tp split: option.split)
  next
    case (rejected err)
    with Cons.prems show ?thesis by (simp add: tp)
  qed
qed

lemma main_registry_lookup:
  "\<exists>r. main_registry slog_Info = Some r \<and>
     (\<forall>t. r t = map_option (DummyProcessor_Process slog_Info) (map_of main_registrations t))"
proof -
  let ?ps = "map (\<lambda>(t, name). (t, Some (DummyProcessor_Process slog_Info name))) main_registrations"
  have "\<exists>r. register_all ?ps NewRegistry = Some r"
    by (subst register_all_iff)
      (simp add: main_registrations_def NewRegistry_def TypeOrderCreated_def TypePaymentSuccess_def
        TypePaymentFailed_def TypeInventoryUpdated_def TypeOrderCancelled_def TypeUserRegistered_def)
  then obtain r where r: "register_all ?ps NewRegistry = Some r" by blast
  have "map_of (map (\<lambda>(t, name). (t, g name)) xs) t = map_option g (map_of xs t)"
    for xs :: "(event_type \<times> string) list" and g :: "string \<Rightarrow> 'a processor option" and t
    by (induction xs) auto
  then have "map_of ?ps t = map_option (\<lambda>n. Some (DummyProcessor_Process slog_Info n)) (map_of main_registrations t)" for t .
  with r register_all_lookup [OF r] show ?thesis
    by (auto simp: main_registry_def NewRegistry_def split: option.split)
qed

section \<open>Properties\<close>

text \<open>
  The worker's registrations succeed, and the registry then accepts an event of every type that
  validation accepts, handing it to the processor registered for that type, and refuses every other
  type; the registry never replaces a processor: a second registration of a type, and one of a missing
  processor, is refused and changes nothing.
\<close>

theorem registry_covers_validated_types:
  "(\<exists>r. main_registry slog_Info = Some r \<and>
      (\<forall>e w. known_type (eType e) \<longrightarrow> (\<exists>name. map_of main_registrations (eType e) = Some name \<and>
          Registry_Process r e w = DummyProcessor_Process slog_Info name e w)) \<and>
      (\<forall>e w. \<not> known_type (eType e) \<longrightarrow> Registry_Process r e w = (Some (ErrUnknownEventType (eType e)), w)) \<and>
      (\<forall>t p. known_type t \<longrightarrow> (\<exists>err. Register t p r = (Some err, r)))) \<and>
   (\<forall>t p r err r'. Register t p r = (Some err, r') \<longrightarrow> r' = r \<and> (p = None \<or> r t \<noteq> None)) \<and>
   (\<forall>t p r r'. Register t p r = (None, r') \<longrightarrow> r t = None \<and> r' t = p \<and> (\<forall>u. u \<noteq> t \<longrightarrow> r' u = r u))"
proof -
  obtain r where r: "main_registry slog_Info = Some r"
      "\<And>t. r t = map_option (DummyProcessor_Process slog_Info) (map_of main_registrations t)"
    using main_registry_lookup by blast
  have known: "known_type t \<longleftrightarrow> (\<exists>name. map_of main_registrations t = Some name)" for t
    by (auto simp: known_type_def main_registrations_def)
  have "Registry_Process r e w = (case map_of main_registrations (eType e) of
      None \<Rightarrow> (Some (ErrUnknownEventType (eType e)), w) | Some name \<Rightarrow> DummyProcessor_Process slog_Info name e w)" for e w
    by (simp add: Registry_Process_def r(2) split: option.split)
  moreover have "\<exists>err. Register t p r = (Some err, r)" if "known_type t" for t p
    using that unfolding known by (auto simp: Register_def r(2) split: option.split)
  ultimately have "(\<forall>e w. known_type (eType e) \<longrightarrow> (\<exists>name. map_of main_registrations (eType e) = Some name \<and>
          Registry_Process r e w = DummyProcessor_Process slog_Info name e w)) \<and>
      (\<forall>e w. \<not> known_type (eType e) \<longrightarrow> Registry_Process r e w = (Some (ErrUnknownEventType (eType e)), w)) \<and>
      (\<forall>t p. known_type t \<longrightarrow> (\<exists>err. Register t p r = (Some err, r)))"
    unfolding known by (auto simp del: not_Some_eq)
  with r(1) show ?thesis
    by (auto simp: Register_def split: option.splits if_splits)
qed

theorem registry_covers_validated_types_witness:
  "\<exists>r. main_registry (\<lambda>_ _ w. Suc w) = Some r \<and> Registry_Process r fresh_event (0 :: nat) = (None, 1)"
proof -
  let ?log = "\<lambda>(_ :: string) (_ :: event) (w :: nat). Suc w"
  from registry_covers_validated_types [of ?log, THEN conjunct1] show ?thesis
  proof (elim exE conjE)
    fix r
    assume r: "main_registry ?log = Some r"
      and p: "\<forall>e w. known_type (eType e) \<longrightarrow> (\<exists>name. map_of main_registrations (eType e) = Some name \<and>
          Registry_Process r e w = DummyProcessor_Process ?log name e w)"
    have "known_type (eType fresh_event)" by (simp add: fresh_event_def known_type_def)
    with p obtain name where "Registry_Process r fresh_event 0 = DummyProcessor_Process ?log name fresh_event 0" by blast
    with r show ?thesis by (auto simp: DummyProcessor_Process_def)
  qed
qed

end
