(* ===== verification/Worker.thy ===== *)
theory Worker
  imports Backoff Registry Queue Store
begin

text \<open>
  \<open>internal/worker/worker.go\<close>: one worker. The interfaces it is built from are the fields of a record of
  functions over a world \<open>'w\<close> (database, queue, metrics, clock), so that every call is one change of the
  world. The handling of a job is given twice: \<open>handle_job\<close> is the body of the loop read from top to
  bottom, \<open>loop_step\<close> the same code as single steps between which the other goroutines and processes act.
  Log lines are left out.
\<close>

section \<open>The worker and its interfaces\<close>

datatype worker_status = StatusStarting | StatusReady | StatusBusy | StatusStopping | StatusStopped

record 'w worker_deps =
  consumer :: "bool \<Rightarrow> string \<Rightarrow> string \<Rightarrow> 'w \<Rightarrow> (queue_error + job) option \<times> 'w"
  acker :: "job \<Rightarrow> 'w \<Rightarrow> queue_error option \<times> 'w"
  retrier :: "job \<Rightarrow> 'w \<Rightarrow> queue_error option \<times> 'w"
  heartbeater :: "string \<Rightarrow> duration \<Rightarrow> 'w \<Rightarrow> string option \<times> 'w"
  processor :: "'w processor"
  recorder :: "uuid \<Rightarrow> int \<Rightarrow> 'w \<Rightarrow> (event_status \<times> store_error option) \<times> 'w"
  updater_UpdateStatus :: "uuid \<Rightarrow> event_status \<Rightarrow> event_status \<Rightarrow> 'w \<Rightarrow> store_error option \<times> 'w"
  updater_AssignEvent :: "uuid \<Rightarrow> string \<Rightarrow> event_status \<Rightarrow> event_status \<Rightarrow> 'w \<Rightarrow> store_error option \<times> 'w"
  updater_FinalizeEvent :: "uuid \<Rightarrow> string \<Rightarrow> 'w \<Rightarrow> store_error option \<times> 'w"
  broadcaster :: "(bytes \<Rightarrow> 'w \<Rightarrow> 'w) option"
  EventsProcessed_Inc :: "event_type \<Rightarrow> 'w \<Rightarrow> 'w"
  EventsFailed_Inc :: "event_type \<Rightarrow> 'w \<Rightarrow> 'w"
  ProcessingDuration_Observe :: "event_type \<Rightarrow> time \<Rightarrow> 'w \<Rightarrow> 'w"
  time_Now :: "'w \<Rightarrow> time"
  rand_Float64 :: "'w \<Rightarrow> rat \<times> 'w"
  float_out_of_range :: "rat \<Rightarrow> go_int64"
  uuid_String :: "uuid \<Rightarrow> string"

text \<open>
  \<open>consumer\<close> is one round of the polling loop: its first argument says whether the context has ended, and
  \<open>None\<close> that the round found nothing.
\<close>

record worker =
  w_id :: string
  w_group :: string
  w_interval :: duration
  w_ttl :: duration
  w_maxAttempts :: int
  w_baseDelay :: duration

text \<open>
  \<open>errors.Is(err, context.Canceled)\<close> or \<open>DeadlineExceeded\<close>: the error of the context itself, or a failed
  read whose cause it is, told by its message.
\<close>

fun is_ctx_error :: "queue_error \<Rightarrow> bool" where
  "is_ctx_error CtxDone = True"
| "is_ctx_error (ReadFailed stream err) = (err = ''context canceled'' \<or> err = ''context deadline exceeded'')"
| "is_ctx_error _ = False"

definition resultHash :: string where
  "resultHash = ''a38c4b12759e669bc01a742880c9261a8f9024f0c4369e8b7f8df1cb52fc4cf2''"

section \<open>Messages for the dashboard\<close>

definition online_msg :: "string \<Rightarrow> bytes" where
  "online_msg wid = ''{\"type\":\"WORKER_ONLINE\",\"worker_id\":\"'' @ wid @ ''\"}''"

definition offline_msg :: "string \<Rightarrow> bytes" where
  "offline_msg wid = ''{\"type\":\"WORKER_OFFLINE\",\"worker_id\":\"'' @ wid @ ''\"}''"

definition processing_msg :: "string \<Rightarrow> string \<Rightarrow> bytes" where
  "processing_msg eid wid =
     ''{\"type\":\"EVENT_PROCESSING\",\"event_id\":\"'' @ eid @ ''\",\"worker_id\":\"'' @ wid @ ''\"}''"

definition completed_msg :: "string \<Rightarrow> int \<Rightarrow> bytes" where
  "completed_msg eid dur =
     ''{\"type\":\"EVENT_COMPLETED\",\"event_id\":\"'' @ eid @ ''\",\"processing_time_ms\":'' @ Itoa dur @ ''}''"

definition failed_msg :: "string \<Rightarrow> int \<Rightarrow> bytes" where
  "failed_msg eid attempt =
     ''{\"type\":\"EVENT_FAILED\",\"event_id\":\"'' @ eid @ ''\",\"attempt\":'' @ Itoa attempt @ ''}''"

definition Broadcast :: "'w worker_deps \<Rightarrow> bytes \<Rightarrow> 'w \<Rightarrow> 'w" where
  "Broadcast d msg w = (case broadcaster d of None \<Rightarrow> w | Some send \<Rightarrow> send msg w)"

text \<open>\<open>time.Since(startT).Milliseconds()\<close>.\<close>

definition Milliseconds :: "time \<Rightarrow> int" where
  "Milliseconds ns = (if 0 \<le> ns then ns div 1000000 else - (- ns div 1000000))"

section \<open>The body of the job loop\<close>

definition report_done :: "'w worker_deps \<Rightarrow> job \<Rightarrow> time \<Rightarrow> 'w \<Rightarrow> 'w" where
  "report_done d j startT w =
     (let w = EventsProcessed_Inc d (eType (jEvent j)) w;
          w = ProcessingDuration_Observe d (eType (jEvent j)) (time_Now d w - startT) w
      in Broadcast d (completed_msg (uuid_String d (eID (jEvent j))) (Milliseconds (time_Now d w - startT))) w)"

definition finish_job :: "'w worker_deps \<Rightarrow> job \<Rightarrow> time \<Rightarrow> 'w \<Rightarrow> 'w" where
  "finish_job d j startT w =
     (case updater_FinalizeEvent d (eID (jEvent j)) resultHash w of
        (Some err, w) \<Rightarrow> if err = ErrAlreadyFinalized then snd (acker d j w) else w
      | (None, w) \<Rightarrow> report_done d j startT (snd (acker d j w)))"

definition failed_attempt :: "job \<Rightarrow> job" where
  "failed_attempt j = j\<lparr>jEvent := (jEvent j)\<lparr>eAttempt := eAttempt (jEvent j) + 1\<rparr>\<rparr>"

definition report_failed :: "'w worker_deps \<Rightarrow> job \<Rightarrow> 'w \<Rightarrow> 'w" where
  "report_failed d j w = Broadcast d (failed_msg (uuid_String d (eID (jEvent j))) (eAttempt (jEvent j))) w"

definition schedule_retry :: "'w worker_deps \<Rightarrow> worker \<Rightarrow> job \<Rightarrow> 'w \<Rightarrow> (job \<times> duration) \<times> 'w" where
  "schedule_retry d p j w =
     (let (u, w) = rand_Float64 d w
      in ((j, CalculateBackoff (float_out_of_range d) u (eAttempt (jEvent j)) (w_baseDelay p)), w))"

definition handleFailure :: "'w worker_deps \<Rightarrow> worker \<Rightarrow> job \<Rightarrow> 'w \<Rightarrow> (job \<times> duration) option \<times> 'w" where
  "handleFailure d p j w =
     (case recorder d (eID (jEvent j)) (w_maxAttempts p) w of
        ((_, Some err), w) \<Rightarrow> (None, w)
      | ((nextStatus, None), w) \<Rightarrow>
          let j = failed_attempt j in
          if nextStatus = StatusFailed then
            let w = EventsFailed_Inc d (eType (jEvent j)) w;
                w = snd (acker d j w)
            in (None, report_failed d j w)
          else case schedule_retry d p j w of (r, w) \<Rightarrow> (Some r, w))"

text \<open>
  The body after a successful \<open>Consume\<close>, run without interruption: the status it leaves, the retry it
  schedules, and the world.
\<close>

definition handle_job ::
  "'w worker_deps \<Rightarrow> worker \<Rightarrow> job \<Rightarrow> 'w \<Rightarrow> worker_status \<times> (job \<times> duration) option \<times> 'w" where
  "handle_job d p j w =
     (let status = StatusBusy in
      case updater_AssignEvent d (eID (jEvent j)) (w_id p) StatusQueued StatusProcessing w of
        (Some err, w) \<Rightarrow>
          let w = (if err = ErrInvalidStateTransition then snd (acker d j w) else w)
          in (StatusReady, None, w)
      | (None, w) \<Rightarrow>
          let startT = time_Now d w;
              w = Broadcast d (processing_msg (uuid_String d (eID (jEvent j))) (w_id p)) w;
              (r, w) = (case processor d (jEvent j) w of
                          (Some err, w) \<Rightarrow> handleFailure d p j w
                        | (None, w) \<Rightarrow> (None, finish_job d j startT w))
          in (if status \<noteq> StatusStopping then StatusReady else status, r, w))"

text \<open>The goroutine a scheduled retry runs once its delay is over.\<close>

definition requeue :: "'w worker_deps \<Rightarrow> job \<Rightarrow> 'w \<Rightarrow> 'w" where
  "requeue d j w =
     (case retrier d j w of
        (Some err, w) \<Rightarrow> w
      | (None, w) \<Rightarrow> snd (updater_UpdateStatus d (eID (jEvent j)) StatusRetrying StatusQueued w))"

end
