(* ===== verification/WorkerSteps.thy ===== *)
theory WorkerSteps
  imports Worker
begin

text \<open>
  The worker as concurrent goroutines: the job loop, the heartbeat, the scheduled retries and the callers
  of \<open>Start\<close> and \<open>Stop\<close> take single steps in any order. A step is at most one call of an interface or
  one access to the shared status. The world may change between any two steps.
\<close>

section \<open>Program counters and state\<close>

text \<open>Where the job loop is; the comments of the code's lines are the names.\<close>

datatype loop_pc =
    AtTop
  | AtConsume
  | AtConsumeBackoff
  | AtBusy job
  | AtAssign job
  | AtAckStale job
  | AtReadyStale
  | AtAnnounce job
  | AtProcess job time
  | AtFinalize job time
  | AtAckDuplicate job
  | AtAckDone job time
  | AtReportDone job time
  | AtRecordFailure job
  | AtFailedMetric job
  | AtAckFailed job
  | AtReportFailed job
  | AtSchedule job
  | AtEnd
  | AtEndReady
  | LoopExited

datatype heart_pc = HeartInitial | HeartWait | HeartExited

datatype retry_pc = RetryWait job duration | RetryRequeue job | RetryUpdate job

text \<open>
  \<open>waiting\<close> and \<open>woken\<close> count the callers of \<open>Stop\<close> that are in \<open>wg.Wait()\<close> and that have returned
  from it; \<open>parent_done\<close> says that the context given to \<open>Start\<close> has ended.
\<close>

record worker_state =
  status :: worker_status
  ctx_done :: bool
  parent_done :: bool
  wg :: int
  loop :: loop_pc
  heart :: heart_pc
  retries :: "retry_pc list"
  waiting :: nat
  woken :: nat

definition NewWorker :: worker_state where
  "NewWorker =
     \<lparr>status = StatusStopped, ctx_done = False, parent_done = False, wg = 0, loop = LoopExited,
      heart = HeartExited, retries = [], waiting = 0, woken = 0\<rparr>"

section \<open>Steps\<close>

definition goto :: "loop_pc \<Rightarrow> worker_state \<Rightarrow> worker_state" where
  "goto pc s = s\<lparr>loop := pc\<rparr>"

text \<open>
  One step of \<open>runJobLoop\<close>. The argument \<open>timer\<close> resolves a \<open>select\<close>: whether its timer has fired.
\<close>

definition loop_step ::
  "'w worker_deps \<Rightarrow> worker \<Rightarrow> bool \<Rightarrow> worker_state \<Rightarrow> 'w \<Rightarrow> (worker_state \<times> 'w) option" where
  "loop_step d p timer s w =
     (case loop s of
        AtTop \<Rightarrow>
          if ctx_done s then Some (s\<lparr>loop := LoopExited, wg := wg s - 1\<rparr>, w) else Some (goto AtConsume s, w)
      | AtConsume \<Rightarrow>
          (case consumer d (ctx_done s) (w_group p) (w_id p) w of
             (None, w) \<Rightarrow> Some (s, w)
           | (Some (Inl err), w) \<Rightarrow>
               if is_ctx_error err then Some (s\<lparr>loop := LoopExited, wg := wg s - 1\<rparr>, w)
               else Some (goto AtConsumeBackoff s, w)
           | (Some (Inr j), w) \<Rightarrow> Some (goto (AtBusy j) s, w))
      | AtConsumeBackoff \<Rightarrow>
          if timer then Some (goto AtTop s, w)
          else if ctx_done s then Some (s\<lparr>loop := LoopExited, wg := wg s - 1\<rparr>, w)
          else None
      | AtBusy j \<Rightarrow> Some (goto (AtAssign j) (s\<lparr>status := StatusBusy\<rparr>), w)
      | AtAssign j \<Rightarrow>
          (case updater_AssignEvent d (eID (jEvent j)) (w_id p) StatusQueued StatusProcessing w of
             (Some err, w) \<Rightarrow>
               if err = ErrInvalidStateTransition then Some (goto (AtAckStale j) s, w)
               else Some (goto AtReadyStale s, w)
           | (None, w) \<Rightarrow> Some (goto (AtAnnounce j) s, w))
      | AtAckStale j \<Rightarrow> Some (goto AtReadyStale s, snd (acker d j w))
      | AtReadyStale \<Rightarrow> Some (goto AtTop (s\<lparr>status := StatusReady\<rparr>), w)
      | AtAnnounce j \<Rightarrow>
          Some (goto (AtProcess j (time_Now d w)) s,
                Broadcast d (processing_msg (uuid_String d (eID (jEvent j))) (w_id p)) w)
      | AtProcess j startT \<Rightarrow>
          (case processor d (jEvent j) w of
             (Some err, w) \<Rightarrow> Some (goto (AtRecordFailure j) s, w)
           | (None, w) \<Rightarrow> Some (goto (AtFinalize j startT) s, w))
      | AtFinalize j startT \<Rightarrow>
          (case updater_FinalizeEvent d (eID (jEvent j)) resultHash w of
             (Some err, w) \<Rightarrow>
               if err = ErrAlreadyFinalized then Some (goto (AtAckDuplicate j) s, w) else Some (goto AtEnd s, w)
           | (None, w) \<Rightarrow> Some (goto (AtAckDone j startT) s, w))
      | AtAckDuplicate j \<Rightarrow> Some (goto AtEnd s, snd (acker d j w))
      | AtAckDone j startT \<Rightarrow> Some (goto (AtReportDone j startT) s, snd (acker d j w))
      | AtReportDone j startT \<Rightarrow> Some (goto AtEnd s, report_done d j startT w)
      | AtRecordFailure j \<Rightarrow>
          (case recorder d (eID (jEvent j)) (w_maxAttempts p) w of
             ((_, Some err), w) \<Rightarrow> Some (goto AtEnd s, w)
           | ((nextStatus, None), w) \<Rightarrow>
               if nextStatus = StatusFailed then Some (goto (AtFailedMetric (failed_attempt j)) s, w)
               else Some (goto (AtSchedule (failed_attempt j)) s, w))
      | AtFailedMetric j \<Rightarrow> Some (goto (AtAckFailed j) s, EventsFailed_Inc d (eType (jEvent j)) w)
      | AtAckFailed j \<Rightarrow> Some (goto (AtReportFailed j) s, snd (acker d j w))
      | AtReportFailed j \<Rightarrow> Some (goto AtEnd s, report_failed d j w)
      | AtSchedule j \<Rightarrow>
          (case schedule_retry d p j w of
             ((j, delay), w) \<Rightarrow>
               Some (goto AtEnd (s\<lparr>wg := wg s + 1, retries := retries s @ [RetryWait j delay]\<rparr>), w))
      | AtEnd \<Rightarrow> if status s \<noteq> StatusStopping then Some (goto AtEndReady s, w) else Some (goto AtTop s, w)
      | AtEndReady \<Rightarrow> Some (goto AtTop (s\<lparr>status := StatusReady\<rparr>), w)
      | LoopExited \<Rightarrow> None)"

text \<open>
  One step of the heartbeat: an error of the ping is logged, not acted on. The ticker is one of a positive
  interval; for any other \<open>time.NewTicker\<close> panics after the first ping, which ends the process and is not
  modelled.
\<close>

definition heart_step ::
  "'w worker_deps \<Rightarrow> worker \<Rightarrow> bool \<Rightarrow> worker_state \<Rightarrow> 'w \<Rightarrow> (worker_state \<times> 'w) option" where
  "heart_step d p tick s w =
     (case heart s of
        HeartInitial \<Rightarrow> Some (s\<lparr>heart := HeartWait\<rparr>, snd (heartbeater d (w_id p) (w_ttl p) w))
      | HeartWait \<Rightarrow>
          if tick then Some (s, snd (heartbeater d (w_id p) (w_ttl p) w))
          else if ctx_done s then Some (s\<lparr>heart := HeartExited, wg := wg s - 1\<rparr>, w)
          else None
      | HeartExited \<Rightarrow> None)"

definition remove_nth :: "nat \<Rightarrow> 'a list \<Rightarrow> 'a list" where
  "remove_nth i xs = take i xs @ drop (Suc i) xs"

definition retry_exit :: "nat \<Rightarrow> worker_state \<Rightarrow> worker_state" where
  "retry_exit i s = s\<lparr>retries := remove_nth i (retries s), wg := wg s - 1\<rparr>"

text \<open>One step of the \<open>i\<close>-th retry goroutine.\<close>

definition retry_step ::
  "'w worker_deps \<Rightarrow> bool \<Rightarrow> nat \<Rightarrow> worker_state \<Rightarrow> 'w \<Rightarrow> (worker_state \<times> 'w) option" where
  "retry_step d timer i s w =
     (if length (retries s) \<le> i then None
      else case retries s ! i of
        RetryWait j delay \<Rightarrow>
          if timer then Some (s\<lparr>retries := (retries s)[i := RetryRequeue j]\<rparr>, w)
          else if ctx_done s then Some (retry_exit i s, w)
          else None
      | RetryRequeue j \<Rightarrow>
          (case retrier d j w of
             (Some err, w) \<Rightarrow> Some (retry_exit i s, w)
           | (None, w) \<Rightarrow> Some (s\<lparr>retries := (retries s)[i := RetryUpdate j]\<rparr>, w))
      | RetryUpdate j \<Rightarrow>
          Some (retry_exit i s,
                snd (updater_UpdateStatus d (eID (jEvent j)) StatusRetrying StatusQueued w)))"

text \<open>
  \<open>Start\<close> runs under \<open>startMu\<close>, and no goroutine of the worker runs yet: it is one step.
\<close>

definition Start ::
  "'w worker_deps \<Rightarrow> worker \<Rightarrow> worker_state \<Rightarrow> 'w \<Rightarrow> string option \<times> worker_state \<times> 'w" where
  "Start d p s w =
     (if status s \<noteq> StatusStopped then (Some ''worker is already running or stopping'', s, w)
      else
        let s = s\<lparr>status := StatusStarting\<rparr>;
            s = s\<lparr>ctx_done := parent_done s\<rparr>;
            s = s\<lparr>status := StatusReady\<rparr>;
            w = Broadcast d (online_msg (w_id p)) w;
            s = s\<lparr>wg := wg s + 2, heart := HeartInitial, loop := AtTop\<rparr>
        in (None, s, w))"

text \<open>
  \<open>Stop\<close> up to \<open>wg.Wait()\<close>, the return from it, and the rest.
\<close>

definition stop_begin :: "worker_state \<Rightarrow> worker_state" where
  "stop_begin s =
     (if status s = StatusStopped \<or> status s = StatusStopping then s
      else s\<lparr>status := StatusStopping, ctx_done := True, waiting := Suc (waiting s)\<rparr>)"

definition stop_wake :: "worker_state \<Rightarrow> worker_state option" where
  "stop_wake s =
     (if 0 < waiting s \<and> wg s = 0 then Some (s\<lparr>waiting := waiting s - 1, woken := Suc (woken s)\<rparr>) else None)"

definition stop_finish ::
  "'w worker_deps \<Rightarrow> worker \<Rightarrow> worker_state \<Rightarrow> 'w \<Rightarrow> (worker_state \<times> 'w) option" where
  "stop_finish d p s w =
     (if 0 < woken s
      then Some (s\<lparr>woken := woken s - 1, status := StatusStopped\<rparr>, Broadcast d (offline_msg (w_id p)) w)
      else None)"

datatype 'w act =
    ActStart
  | ActStop
  | ActStopWake
  | ActStopFinish
  | ActParentDone
  | ActHeart bool
  | ActLoop bool
  | ActRetry nat bool
  | ActWorld 'w

text \<open>An action that is not enabled does nothing; \<open>ActWorld\<close> is whatever others do to the world.\<close>

definition apply_opt :: "('s \<times> 'w) option \<Rightarrow> 's \<Rightarrow> 'w \<Rightarrow> 's \<times> 'w" where
  "apply_opt r s w = (case r of None \<Rightarrow> (s, w) | Some sw \<Rightarrow> sw)"

fun act_step :: "'w worker_deps \<Rightarrow> worker \<Rightarrow> 'w act \<Rightarrow> worker_state \<Rightarrow> 'w \<Rightarrow> worker_state \<times> 'w" where
  "act_step d p ActStart s w = snd (Start d p s w)"
| "act_step d p ActStop s w = (stop_begin s, w)"
| "act_step d p ActStopWake s w = (case stop_wake s of None \<Rightarrow> (s, w) | Some s' \<Rightarrow> (s', w))"
| "act_step d p ActStopFinish s w = apply_opt (stop_finish d p s w) s w"
| "act_step d p ActParentDone s w = (s\<lparr>parent_done := True, ctx_done := True\<rparr>, w)"
| "act_step d p (ActHeart tick) s w = apply_opt (heart_step d p tick s w) s w"
| "act_step d p (ActLoop timer) s w = apply_opt (loop_step d p timer s w) s w"
| "act_step d p (ActRetry i timer) s w = apply_opt (retry_step d timer i s w) s w"
| "act_step d p (ActWorld w') s w = (s, w')"

fun run_acts :: "'w worker_deps \<Rightarrow> worker \<Rightarrow> 'w act list \<Rightarrow> worker_state \<Rightarrow> 'w \<Rightarrow> worker_state \<times> 'w" where
  "run_acts d p [] s w = (s, w)"
| "run_acts d p (a # as) s w = (case act_step d p a s w of (s', w') \<Rightarrow> run_acts d p as s' w')"

end
