(* ===== verification/WorkerProps.thy ===== *)
theory WorkerProps
  imports WorkerSteps
begin

text \<open>
  What the worker's goroutines keep true: the single steps of the loop compose to the body read from top
  to bottom, the wait group counts the goroutines, a stopped worker has none left, and a cancelled
  context ends the loop in a bounded number of steps, in which a claimed job is carried to its outcome.
\<close>

section \<open>The loop without interruption\<close>

fun run_body :: "'w worker_deps \<Rightarrow> worker \<Rightarrow> nat \<Rightarrow> worker_state \<Rightarrow> 'w \<Rightarrow> (worker_state \<times> 'w) option" where
  "run_body d p 0 s w = None"
| "run_body d p (Suc n) s w =
     (if loop s = AtTop then Some (s, w)
      else case loop_step d p True s w of None \<Rightarrow> None | Some (s', w') \<Rightarrow> run_body d p n s' w')"

declare run_body.simps(2) [simp del]

definition with_retry :: "(job \<times> duration) option \<Rightarrow> worker_state \<Rightarrow> worker_state" where
  "with_retry r s =
     (case r of None \<Rightarrow> s
      | Some (j, delay) \<Rightarrow> s\<lparr>wg := wg s + 1, retries := retries s @ [RetryWait j delay]\<rparr>)"

lemma run_body_top [simp]: "run_body d p (Suc n) (goto AtTop s) w = Some (goto AtTop s, w)"
  by (simp add: goto_def run_body.simps)

lemma run_body_step:
  "pc \<noteq> AtTop \<Longrightarrow> run_body d p (Suc n) (goto pc s) w =
     (case loop_step d p True (goto pc s) w of None \<Rightarrow> None | Some (s', w') \<Rightarrow> run_body d p n s' w')"
  by (simp add: goto_def run_body.simps)

lemma goto_simps [simp]:
  "loop (goto pc s) = pc" "status (goto pc s) = status s" "goto pc (goto pc' s) = goto pc s"
  "wg (goto pc s) = wg s" "retries (goto pc s) = retries s" "ctx_done (goto pc s) = ctx_done s"
  "(goto pc s)\<lparr>status := st\<rparr> = goto pc (s\<lparr>status := st\<rparr>)"
  "(goto pc s)\<lparr>wg := n, retries := rs\<rparr> = goto pc (s\<lparr>wg := n, retries := rs\<rparr>)"
  by (simp_all add: goto_def)

text \<open>The steps, one rewrite rule for each program counter.\<close>

lemma loop_steps [simp]:
  "loop_step d p timer (goto (AtBusy j) s) w = Some (goto (AtAssign j) (s\<lparr>status := StatusBusy\<rparr>), w)"
  "loop_step d p timer (goto (AtAssign j) s) w =
     (case updater_AssignEvent d (eID (jEvent j)) (w_id p) StatusQueued StatusProcessing w of
        (Some err, w) \<Rightarrow> if err = ErrInvalidStateTransition then Some (goto (AtAckStale j) s, w)
                         else Some (goto AtReadyStale s, w)
      | (None, w) \<Rightarrow> Some (goto (AtAnnounce j) s, w))"
  "loop_step d p timer (goto (AtAckStale j) s) w = Some (goto AtReadyStale s, snd (acker d j w))"
  "loop_step d p timer (goto AtReadyStale s) w = Some (goto AtTop (s\<lparr>status := StatusReady\<rparr>), w)"
  "loop_step d p timer (goto (AtAnnounce j) s) w =
     Some (goto (AtProcess j (time_Now d w)) s,
           Broadcast d (processing_msg (uuid_String d (eID (jEvent j))) (w_id p)) w)"
  "loop_step d p timer (goto (AtProcess j t) s) w =
     (case processor d (jEvent j) w of
        (Some err, w) \<Rightarrow> Some (goto (AtRecordFailure j) s, w)
      | (None, w) \<Rightarrow> Some (goto (AtFinalize j t) s, w))"
  "loop_step d p timer (goto (AtFinalize j t) s) w =
     (case updater_FinalizeEvent d (eID (jEvent j)) resultHash w of
        (Some err, w) \<Rightarrow> if err = ErrAlreadyFinalized then Some (goto (AtAckDuplicate j) s, w)
                         else Some (goto AtEnd s, w)
      | (None, w) \<Rightarrow> Some (goto (AtAckDone j t) s, w))"
  "loop_step d p timer (goto (AtAckDuplicate j) s) w = Some (goto AtEnd s, snd (acker d j w))"
  "loop_step d p timer (goto (AtAckDone j t) s) w = Some (goto (AtReportDone j t) s, snd (acker d j w))"
  "loop_step d p timer (goto (AtReportDone j t) s) w = Some (goto AtEnd s, report_done d j t w)"
  "loop_step d p timer (goto (AtRecordFailure j) s) w =
     (case recorder d (eID (jEvent j)) (w_maxAttempts p) w of
        ((_, Some err), w) \<Rightarrow> Some (goto AtEnd s, w)
      | ((nextStatus, None), w) \<Rightarrow>
          if nextStatus = StatusFailed then Some (goto (AtFailedMetric (failed_attempt j)) s, w)
          else Some (goto (AtSchedule (failed_attempt j)) s, w))"
  "loop_step d p timer (goto (AtFailedMetric j) s) w =
     Some (goto (AtAckFailed j) s, EventsFailed_Inc d (eType (jEvent j)) w)"
  "loop_step d p timer (goto (AtAckFailed j) s) w = Some (goto (AtReportFailed j) s, snd (acker d j w))"
  "loop_step d p timer (goto (AtReportFailed j) s) w = Some (goto AtEnd s, report_failed d j w)"
  "loop_step d p timer (goto (AtSchedule j) s) w =
     (case schedule_retry d p j w of
        ((j, delay), w) \<Rightarrow>
          Some (goto AtEnd (s\<lparr>wg := wg s + 1, retries := retries s @ [RetryWait j delay]\<rparr>), w))"
  "loop_step d p timer (goto AtEnd s) w =
     (if status s \<noteq> StatusStopping then Some (goto AtEndReady s, w) else Some (goto AtTop s, w))"
  "loop_step d p timer (goto AtEndReady s) w = Some (goto AtTop (s\<lparr>status := StatusReady\<rparr>), w)"
  by (simp_all only: loop_step_def goto_simps loop_pc.case)

text \<open>The tail of the body: a job that is dealt with brings the loop back to its top.\<close>

lemma run_end:
  "status s \<noteq> StatusStopping \<Longrightarrow>
   run_body d p (Suc (Suc (Suc n))) (goto AtEnd s) w = Some (goto AtTop (s\<lparr>status := StatusReady\<rparr>), w)"
  by (simp add: run_body_step)

lemma run_finish:
  assumes "status s \<noteq> StatusStopping"
  shows "run_body d p (Suc (Suc (Suc (Suc (Suc (Suc n)))))) (goto (AtFinalize j t) s) w =
     Some (goto AtTop (s\<lparr>status := StatusReady\<rparr>), finish_job d j t w)"
proof -
  obtain r w' where f: "updater_FinalizeEvent d (eID (jEvent j)) resultHash w = (r, w')" by fastforce
  show ?thesis
    by (cases r) (simp_all add: run_body_step run_end assms f finish_job_def)
qed

lemma run_failure:
  assumes "status s \<noteq> StatusStopping"
  shows "run_body d p (Suc (Suc (Suc (Suc (Suc (Suc (Suc n))))))) (goto (AtRecordFailure j) s) w =
     (case handleFailure d p j w of
        (r, w') \<Rightarrow> Some (goto AtTop ((with_retry r s)\<lparr>status := StatusReady\<rparr>), w'))"
proof -
  obtain st r w' where f: "recorder d (eID (jEvent j)) (w_maxAttempts p) w = ((st, r), w')" by (metis surj_pair)
  obtain j' delay w'' where q: "schedule_retry d p (failed_attempt j) w' = ((j', delay), w'')" by (metis surj_pair)
  show ?thesis
    by (cases r; cases "st = StatusFailed")
      (simp_all add: run_body_step run_end assms f q handleFailure_def with_retry_def Let_def)
qed

lemma run_job:
  "run_body d p 12 (goto (AtBusy j) s) w =
     (case handle_job d p j w of
        (st, r, w') \<Rightarrow> Some (goto AtTop ((with_retry r s)\<lparr>status := st\<rparr>), w'))"
proof -
  note head_steps = run_body_step [of "AtBusy j"] run_body_step [of "AtAssign j"] run_body_step [of "AtAckStale j"]
    run_body_step [of AtReadyStale] run_body_step [of "AtAnnounce j"] run_body_step [of "AtProcess j t" for t]
  obtain r w1 where a: "updater_AssignEvent d (eID (jEvent j)) (w_id p) StatusQueued StatusProcessing w = (r, w1)"
    by fastforce
  show ?thesis
  proof (cases r)
    case (Some err)
    then show ?thesis
      by (simp add: eval_nat_numeral head_steps a handle_job_def with_retry_def Let_def)
  next
    case None
    obtain q w2 where q: "processor d (jEvent j)
        (Broadcast d (processing_msg (uuid_String d (eID (jEvent j))) (w_id p)) w1) = (q, w2)" by fastforce
    obtain f w3 where h: "handleFailure d p j w2 = (f, w3)" by fastforce
    show ?thesis
      by (cases q; cases f) (simp_all add: eval_nat_numeral head_steps a None q h run_finish run_failure
          handle_job_def with_retry_def Let_def split: prod.split)
  qed
qed

section \<open>The wait group\<close>

definition running :: "worker_state \<Rightarrow> int" where
  "running s = of_bool (loop s \<noteq> LoopExited) + of_bool (heart s \<noteq> HeartExited) + int (length (retries s))"

text \<open>The four shapes of a step of the loop, as far as the state of the worker is concerned.\<close>

inductive step_shape :: "worker_state \<Rightarrow> worker_state \<Rightarrow> bool" where
  move: "loop s \<noteq> LoopExited \<Longrightarrow> pc \<noteq> LoopExited \<Longrightarrow> step_shape s (goto pc s)"
| set_status: "loop s \<noteq> LoopExited \<Longrightarrow> pc \<noteq> LoopExited \<Longrightarrow> st = StatusBusy \<or> st = StatusReady \<Longrightarrow>
    step_shape s (goto pc (s\<lparr>status := st\<rparr>))"
| exit: "loop s \<in> {AtTop, AtConsume, AtConsumeBackoff} \<Longrightarrow> step_shape s (s\<lparr>loop := LoopExited, wg := wg s - 1\<rparr>)"
| spawn: "loop s \<noteq> LoopExited \<Longrightarrow>
    step_shape s (goto AtEnd (s\<lparr>wg := wg s + 1, retries := retries s @ [RetryWait j delay]\<rparr>))"

lemma step_shape_stay: "loop s \<noteq> LoopExited \<Longrightarrow> step_shape s s"
  using move [of s "loop s"] by (simp add: goto_def)

lemma loop_step_shape:
  assumes "loop_step d p timer s w = Some (s', w')"
  shows "step_shape s s'"
proof (cases "loop s")
  case AtConsume
  obtain r v where "consumer d (ctx_done s) (w_group p) (w_id p) w = (r, v)" by fastforce
  with AtConsume assms show ?thesis
    by (cases r)
      (auto simp: loop_step_def intro: move exit step_shape_stay split: sum.splits if_splits)
next
  case (AtRecordFailure j)
  obtain st r v where "recorder d (eID (jEvent j)) (w_maxAttempts p) w = ((st, r), v)" by (metis surj_pair)
  with AtRecordFailure assms show ?thesis
    by (cases r) (auto simp: loop_step_def intro: move split: if_splits)
next
  case (AtAssign j)
  obtain r v where "updater_AssignEvent d (eID (jEvent j)) (w_id p) StatusQueued StatusProcessing w = (r, v)" by fastforce
  with AtAssign assms show ?thesis
    by (cases r) (auto simp: loop_step_def intro: move split: if_splits)
next
  case (AtProcess j t)
  obtain r v where "processor d (jEvent j) w = (r, v)" by fastforce
  with AtProcess assms show ?thesis
    by (cases r) (auto simp: loop_step_def intro: move split: if_splits)
next
  case (AtFinalize j t)
  obtain r v where "updater_FinalizeEvent d (eID (jEvent j)) resultHash w = (r, v)" by fastforce
  with AtFinalize assms show ?thesis
    by (cases r) (auto simp: loop_step_def intro: move split: if_splits)
next
  case (AtSchedule j)
  obtain j' delay v where "schedule_retry d p j w = ((j', delay), v)" by (metis surj_pair)
  with AtSchedule assms show ?thesis by (auto simp: loop_step_def intro: spawn)
qed (use assms in \<open>auto simp: loop_step_def intro: move set_status exit split: if_splits\<close>)

lemma loop_step_frame:
  assumes "loop_step d p timer s w = Some (s', w')"
  shows "loop s \<noteq> LoopExited" and "ctx_done s' = ctx_done s" and "parent_done s' = parent_done s"
    and "heart s' = heart s" and "waiting s' = waiting s" and "woken s' = woken s"
    and "wg s' - running s' = wg s - running s"
    and "status s' = status s \<or> status s' = StatusBusy \<or> status s' = StatusReady"
    and "loop s' = LoopExited \<Longrightarrow> loop s \<in> {AtTop, AtConsume, AtConsumeBackoff} \<and> status s' = status s"
  using loop_step_shape [OF assms]
  by (induction rule: step_shape.induct; auto simp: running_def goto_def)+

lemma heart_step_frame:
  assumes "heart_step d p tick s w = Some (s', w')"
  shows "heart s \<noteq> HeartExited \<and> ctx_done s' = ctx_done s \<and> parent_done s' = parent_done s \<and>
    loop s' = loop s \<and> waiting s' = waiting s \<and> woken s' = woken s \<and> wg s' - running s' = wg s - running s \<and>
    status s' = status s"
  using assms by (cases "heart s") (auto simp: heart_step_def running_def split: if_splits)

lemma length_remove_nth: "i < length xs \<Longrightarrow> length (remove_nth i xs) = length xs - 1"
  by (simp add: remove_nth_def)

lemma retry_step_frame:
  assumes "retry_step d timer i s w = Some (s', w')"
  shows "retries s \<noteq> [] \<and> ctx_done s' = ctx_done s \<and> parent_done s' = parent_done s \<and>
    loop s' = loop s \<and> heart s' = heart s \<and> waiting s' = waiting s \<and> woken s' = woken s \<and>
    wg s' - running s' = wg s - running s \<and> status s' = status s"
proof -
  have "i < length (retries s)" using assms by (simp add: retry_step_def split: if_splits)
  then have "int (length (remove_nth i (retries s))) = int (length (retries s)) - 1" "retries s \<noteq> []"
    by (auto simp: length_remove_nth)
  then show ?thesis
    using assms by (cases "retries s ! i")
      (auto simp: retry_step_def retry_exit_def running_def split: if_splits prod.splits option.splits)
qed

text \<open>
  A worker of the pool is started once. From then on the wait group counts its goroutines; a caller of
  \<open>Stop\<close> is only ever past the wait when none is left, and then the worker stays stopped.
\<close>

definition started_ok :: "worker_state \<Rightarrow> bool" where
  "started_ok s \<longleftrightarrow> wg s = running s \<and> (0 < waiting s + woken s \<longrightarrow> ctx_done s) \<and>
     (0 < woken s \<longrightarrow> running s = 0) \<and> (status s = StatusStopped \<longrightarrow> running s = 0 \<and> ctx_done s)"

definition idle :: "worker_state \<Rightarrow> bool" where
  "idle s \<longleftrightarrow> status s = StatusStopped \<and> wg s = 0 \<and> loop s = LoopExited \<and> heart s = HeartExited \<and>
     retries s = [] \<and> waiting s = 0 \<and> woken s = 0"

lemma running_nonneg: "0 \<le> running s"
  by (simp add: running_def)

lemma running_0: "running s = 0 \<longleftrightarrow> loop s = LoopExited \<and> heart s = HeartExited \<and> retries s = []"
  by (auto simp: running_def of_bool_def)

lemma act_step_idle:
  assumes "idle s" and "a \<noteq> ActStart"
  shows "idle (fst (act_step d p a s w))"
  using assms by (cases a) (auto simp: idle_def apply_opt_def stop_begin_def stop_wake_def stop_finish_def heart_step_def
      loop_step_def retry_step_def)

lemma act_step_start:
  assumes "idle s"
  shows "started_ok (fst (act_step d p ActStart s w))"
  using assms by (auto simp: idle_def Start_def started_ok_def running_def Let_def)

lemma started_ok_frame:
  assumes "started_ok s" and "running s \<noteq> 0" and "ctx_done s' = ctx_done s" and "waiting s' = waiting s"
    and "woken s' = woken s" and "wg s' - running s' = wg s - running s"
    and "status s' = status s \<or> status s' = StatusBusy \<or> status s' = StatusReady"
  shows "started_ok s'"
  using assms by (auto simp: started_ok_def)

lemma apply_opt_rule:
  "P s \<Longrightarrow> (\<And>s' w'. r = Some (s', w') \<Longrightarrow> P s') \<Longrightarrow> P (fst (apply_opt r s w))"
  by (cases r) (auto simp: apply_opt_def)

lemma act_step_started:
  assumes "started_ok s" and "a \<noteq> ActStart"
  shows "started_ok (fst (act_step d p a s w))"
proof (cases a)
  case (ActHeart tick)
  have "started_ok s'" if "heart_step d p tick s w = Some (s', w')" for s' w'
    using heart_step_frame [OF that] by (intro started_ok_frame [OF assms(1)]) (simp_all add: running_0)
  with ActHeart assms(1) show ?thesis by (auto intro: apply_opt_rule)
next
  case (ActLoop timer)
  have "started_ok s'" if "loop_step d p timer s w = Some (s', w')" for s' w'
    using loop_step_frame [OF that] by (intro started_ok_frame [OF assms(1)]) (simp_all add: running_0)
  with ActLoop assms(1) show ?thesis by (auto intro: apply_opt_rule)
next
  case (ActRetry i timer)
  have "started_ok s'" if "retry_step d timer i s w = Some (s', w')" for s' w'
    using retry_step_frame [OF that] by (intro started_ok_frame [OF assms(1)]) (simp_all add: running_0)
  with ActRetry assms(1) show ?thesis by (auto intro: apply_opt_rule)
qed (use assms in \<open>auto simp: apply_opt_def started_ok_def stop_begin_def stop_wake_def stop_finish_def running_def
  split: option.split\<close>)

lemma run_acts_append: "run_acts d p (as @ bs) s w = (case run_acts d p as s w of (s', w') \<Rightarrow> run_acts d p bs s' w')"
  by (induction as arbitrary: s w) (auto split: prod.split)

lemma run_acts_idle: "idle s \<Longrightarrow> ActStart \<notin> set as \<Longrightarrow> idle (fst (run_acts d p as s w))"
proof (induction as arbitrary: s w)
  case (Cons a as)
  obtain s' w' where "act_step d p a s w = (s', w')" by fastforce
  with Cons act_step_idle [of s a d p w] show ?case by auto
qed simp

lemma run_acts_started: "started_ok s \<Longrightarrow> ActStart \<notin> set as \<Longrightarrow> started_ok (fst (run_acts d p as s w))"
proof (induction as arbitrary: s w)
  case (Cons a as)
  obtain s' w' where "act_step d p a s w = (s', w')" by fastforce
  with Cons act_step_started [of s a d p w] show ?case by auto
qed simp

lemma run_acts_start_once:
  assumes "ActStart \<notin> set as" and "ActStart \<notin> set bs" and "idle s"
  shows "started_ok (fst (run_acts d p (as @ ActStart # bs) s w))"
proof -
  obtain s1 w1 where 1: "run_acts d p as s w = (s1, w1)" by fastforce
  obtain s2 w2 where 2: "act_step d p ActStart s1 w1 = (s2, w2)" by fastforce
  have "idle s1" using run_acts_idle [OF assms(3,1), of d p w] 1 by simp
  then have "started_ok s2" using act_step_start [of s1 d p w1] 2 by simp
  then show ?thesis using 1 2 run_acts_started [OF _ assms(2)] by (simp add: run_acts_append)
qed

section \<open>The end of the loop\<close>

fun loop_measure :: "loop_pc \<Rightarrow> nat" where
  "loop_measure LoopExited = 0"
| "loop_measure AtTop = 1"
| "loop_measure AtConsume = 1"
| "loop_measure AtConsumeBackoff = 2"
| "loop_measure AtReadyStale = 2"
| "loop_measure (AtAckStale j) = 3"
| "loop_measure AtEndReady = 2"
| "loop_measure AtEnd = 3"
| "loop_measure (AtSchedule j) = 4"
| "loop_measure (AtReportFailed j) = 4"
| "loop_measure (AtAckFailed j) = 5"
| "loop_measure (AtFailedMetric j) = 6"
| "loop_measure (AtRecordFailure j) = 7"
| "loop_measure (AtReportDone j t) = 4"
| "loop_measure (AtAckDone j t) = 5"
| "loop_measure (AtAckDuplicate j) = 4"
| "loop_measure (AtFinalize j t) = 6"
| "loop_measure (AtProcess j t) = 8"
| "loop_measure (AtAnnounce j) = 9"
| "loop_measure (AtAssign j) = 10"
| "loop_measure (AtBusy j) = 11"

lemma loop_measure_le: "loop_measure pc \<le> 11"
  by (cases pc) simp_all

text \<open>With its context ended, a consumer returns the error of the context.\<close>

definition obeys_ctx :: "'w worker_deps \<Rightarrow> bool" where
  "obeys_ctx d \<longleftrightarrow> (\<forall>grp name w. fst (consumer d True grp name w) = Some (Inl CtxDone))"

lemma loop_step_cancelled:
  assumes "obeys_ctx d" and "ctx_done s" and "loop s \<noteq> LoopExited"
  shows "\<exists>s' w'. loop_step d p timer s w = Some (s', w') \<and> loop_measure (loop s') < loop_measure (loop s)"
proof (cases "loop s")
  case AtConsume
  obtain v where "consumer d True (w_group p) (w_id p) w = (Some (Inl CtxDone), v)"
    using assms(1) unfolding obeys_ctx_def by (metis prod.collapse)
  with AtConsume assms(2) show ?thesis by (simp add: loop_step_def)
next
  case (AtRecordFailure j)
  obtain st r v where "recorder d (eID (jEvent j)) (w_maxAttempts p) w = ((st, r), v)" by (metis surj_pair)
  with AtRecordFailure show ?thesis by (cases r) (auto simp: loop_step_def)
next
  case (AtAssign j)
  obtain r v where "updater_AssignEvent d (eID (jEvent j)) (w_id p) StatusQueued StatusProcessing w = (r, v)" by fastforce
  with AtAssign show ?thesis by (cases r) (auto simp: loop_step_def)
next
  case (AtProcess j t)
  obtain r v where "processor d (jEvent j) w = (r, v)" by fastforce
  with AtProcess show ?thesis by (cases r) (auto simp: loop_step_def)
next
  case (AtFinalize j t)
  obtain r v where "updater_FinalizeEvent d (eID (jEvent j)) resultHash w = (r, v)" by fastforce
  with AtFinalize show ?thesis by (cases r) (auto simp: loop_step_def)
next
  case (AtSchedule j)
  obtain j' delay v where "schedule_retry d p j w = ((j', delay), v)" by (metis surj_pair)
  with AtSchedule show ?thesis by (auto simp: loop_step_def)
qed (use assms in \<open>auto simp: loop_step_def\<close>)

fun is_loop_act :: "'w act \<Rightarrow> bool" where
  "is_loop_act (ActLoop timer) = True"
| "is_loop_act _ = False"

lemma act_step_other:
  assumes "a \<noteq> ActStart" and "\<not> is_loop_act a"
  shows "loop (fst (act_step d p a s w)) = loop s"
proof (cases a)
  case (ActHeart tick)
  have "loop s' = loop s" if "heart_step d p tick s w = Some (s', w')" for s' w'
    using heart_step_frame [OF that] by simp
  with ActHeart show ?thesis by (auto intro: apply_opt_rule [where P = "\<lambda>x. loop x = loop s"])
next
  case (ActRetry i timer)
  have "loop s' = loop s" if "retry_step d timer i s w = Some (s', w')" for s' w'
    using retry_step_frame [OF that] by simp
  with ActRetry show ?thesis by (auto intro: apply_opt_rule [where P = "\<lambda>x. loop x = loop s"])
qed (use assms in \<open>auto simp: apply_opt_def stop_begin_def stop_wake_def stop_finish_def split: option.split\<close>)

lemma act_step_ctx_done:
  assumes "a \<noteq> ActStart" and "ctx_done s"
  shows "ctx_done (fst (act_step d p a s w))"
proof (cases a)
  case (ActHeart tick)
  have "ctx_done s'" if "heart_step d p tick s w = Some (s', w')" for s' w'
    using heart_step_frame [OF that] assms(2) by simp
  with ActHeart assms(2) show ?thesis by (auto intro: apply_opt_rule [where P = ctx_done])
next
  case (ActLoop timer)
  have "ctx_done s'" if "loop_step d p timer s w = Some (s', w')" for s' w'
    using loop_step_frame(2) [OF that] assms(2) by simp
  with ActLoop assms(2) show ?thesis by (auto intro: apply_opt_rule [where P = ctx_done])
next
  case (ActRetry i timer)
  have "ctx_done s'" if "retry_step d timer i s w = Some (s', w')" for s' w'
    using retry_step_frame [OF that] assms(2) by simp
  with ActRetry assms(2) show ?thesis by (auto intro: apply_opt_rule [where P = ctx_done])
qed (use assms in \<open>auto simp: apply_opt_def stop_begin_def stop_wake_def stop_finish_def split: option.split\<close>)

lemma run_acts_exits:
  assumes "obeys_ctx d" and "ctx_done s" and "ActStart \<notin> set as"
    and "loop_measure (loop s) \<le> length (filter is_loop_act as)"
  shows "loop (fst (run_acts d p as s w)) = LoopExited"
  using assms(2-4)
proof (induction as arbitrary: s w)
  case Nil
  then show ?case by (cases "loop s") auto
next
  case (Cons a as)
  obtain s' w' where a: "act_step d p a s w = (s', w')" by fastforce
  have done': "ctx_done s'" using act_step_ctx_done [of a s d p w] Cons.prems a by auto
  have "loop_measure (loop s') \<le> length (filter is_loop_act as)"
  proof (cases "is_loop_act a")
    case False
    with Cons.prems a act_step_other [of a d p s w] show ?thesis by auto
  next
    case True
    then obtain timer where t: "a = ActLoop timer" by (cases a) auto
    show ?thesis
    proof (cases "loop s = LoopExited")
      case True
      with a t have "s' = s" by (simp add: loop_step_def apply_opt_def)
      with True show ?thesis by simp
    next
      case False
      with loop_step_cancelled [OF assms(1) Cons.prems(1) False, of p timer w] a t Cons.prems(3)
      show ?thesis by (auto simp: apply_opt_def)
    qed
  qed
  with Cons.IH [OF done'] Cons.prems(2) a show ?case by simp
qed

section \<open>What happens to the job in hand\<close>

text \<open>The steps the job loop takes in a run: where it is, and the world, at each of its actions.\<close>

fun loop_trace :: "'w worker_deps \<Rightarrow> worker \<Rightarrow> 'w act list \<Rightarrow> worker_state \<Rightarrow> 'w \<Rightarrow> (loop_pc \<times> 'w) list" where
  "loop_trace d p [] s w = []"
| "loop_trace d p (a # as) s w =
     (case act_step d p a s w of
        (s', w') \<Rightarrow> (if is_loop_act a then [(loop s, w)] else []) @ loop_trace d p as s' w')"

text \<open>
  The outcome of a job among the steps \<open>X\<close>. After \<open>FinalizeEvent\<close>: acknowledged and reported, or
  acknowledged as a duplicate; after another error the message stays pending. After \<open>RecordFailure\<close>:
  counted, acknowledged and reported as failed for good, or given to a retry goroutine; after an error the
  message stays pending.
\<close>

definition after_finalize :: "'w worker_deps \<Rightarrow> job \<Rightarrow> time \<Rightarrow> 'w \<Rightarrow> loop_pc set" where
  "after_finalize d j t w =
     (case fst (updater_FinalizeEvent d (eID (jEvent j)) resultHash w) of
        None \<Rightarrow> {AtAckDone j t, AtReportDone j t}
      | Some err \<Rightarrow> if err = ErrAlreadyFinalized then {AtAckDuplicate j} else {})"

definition after_failure :: "'w worker_deps \<Rightarrow> worker \<Rightarrow> job \<Rightarrow> 'w \<Rightarrow> loop_pc set" where
  "after_failure d p j w =
     (case fst (recorder d (eID (jEvent j)) (w_maxAttempts p) w) of
        (nextStatus, None) \<Rightarrow>
          (let j = failed_attempt j in
           if nextStatus = StatusFailed then {AtFailedMetric j, AtAckFailed j, AtReportFailed j} else {AtSchedule j})
      | (nextStatus, Some err) \<Rightarrow> {})"

definition carried_through :: "'w worker_deps \<Rightarrow> worker \<Rightarrow> job \<Rightarrow> (loop_pc \<times> 'w) set \<Rightarrow> bool" where
  "carried_through d p j X \<longleftrightarrow>
     (\<exists>t w. (AtFinalize j t, w) \<in> X \<and> after_finalize d j t w \<subseteq> fst ` X) \<or>
     (\<exists>w. (AtRecordFailure j, w) \<in> X \<and> after_failure d p j w \<subseteq> fst ` X)"

lemma carried_insert: "carried_through d p j X \<Longrightarrow> carried_through d p j (insert x X)"
  unfolding carried_through_def by (meson image_mono insertCI subset_insertI subset_trans)

lemma trace_step:
  assumes "ActStart \<notin> set as" and "0 < length (filter is_loop_act as)"
  obtains timer s1 w1 cs s2 w2 where "loop s1 = loop s" "ctx_done s \<Longrightarrow> ctx_done s1"
    "act_step d p (ActLoop timer) s1 w1 = (s2, w2)"
    "loop_trace d p as s w = (loop s, w1) # loop_trace d p cs s2 w2" "ActStart \<notin> set cs"
    "length (filter is_loop_act as) = Suc (length (filter is_loop_act cs))"
  using assms
proof (induction as arbitrary: s w thesis)
  case (Cons a as)
  obtain s' w' where a: "act_step d p a s w = (s', w')" by fastforce
  show ?case
  proof (cases "is_loop_act a")
    case True
    then obtain timer where "a = ActLoop timer" by (cases a) auto
    with a Cons.prems show ?thesis by (intro Cons.prems(1) [of s timer w s' w' as]) auto
  next
    case False
    have k: "loop s' = loop s" "ctx_done s \<Longrightarrow> ctx_done s'"
      using act_step_other [of a d p s w] act_step_ctx_done [of a s d p w] False Cons.prems(2) a by auto
    have as: "ActStart \<notin> set as" "0 < length (filter is_loop_act as)" using Cons.prems(2,3) False by auto
    show ?thesis
    proof (rule Cons.IH [OF _ as, of s' w'], goal_cases)
      case (1 s1 timer w1 s2 w2 cs)
      then show ?case using k a False by (intro Cons.prems(1) [of s1 timer w1 s2 w2 cs]) auto
    qed
  qed
qed simp

text \<open>One step, and the rest of the steps after it.\<close>

lemma trace_from:
  assumes "loop s = pc" and "ActStart \<notin> set as" and "Suc n \<le> length (filter is_loop_act as)"
    and "\<And>timer s1 w1 s2 w2 cs. loop s1 = pc \<Longrightarrow> (ctx_done s \<Longrightarrow> ctx_done s1) \<Longrightarrow> act_step d p (ActLoop timer) s1 w1 = (s2, w2) \<Longrightarrow>
      ActStart \<notin> set cs \<Longrightarrow> n \<le> length (filter is_loop_act cs) \<Longrightarrow> P (insert (pc, w1) (set (loop_trace d p cs s2 w2)))"
  shows "P (set (loop_trace d p as s w))"
proof (rule trace_step [OF assms(2), of s d p w])
  show "0 < length (filter is_loop_act as)" using assms(3) by (rule less_le_trans [OF zero_less_Suc])
next
  fix timer s1 w1 cs s2 w2
  assume a: "loop s1 = loop s" "ctx_done s \<Longrightarrow> ctx_done s1" "act_step d p (ActLoop timer) s1 w1 = (s2, w2)"
    "loop_trace d p as s w = (loop s, w1) # loop_trace d p cs s2 w2" "ActStart \<notin> set cs"
    "length (filter is_loop_act as) = Suc (length (filter is_loop_act cs))"
  have "P (insert (pc, w1) (set (loop_trace d p cs s2 w2)))"
    by (rule assms(4) [OF _ _ a(3,5)]) (use a assms(1,3) in simp_all)
  then show "P (set (loop_trace d p as s w))" using a(4) assms(1) by simp
qed

lemma trace_here:
  assumes "loop s = pc" and "ActStart \<notin> set as" and "Suc 0 \<le> length (filter is_loop_act as)"
  shows "pc \<in> fst ` set (loop_trace d p as s w)"
  by (rule trace_from [OF assms]) simp

text \<open>The stretches of the body, from its end to its beginning.\<close>

lemma trace_ack_done:
  assumes "loop s = AtAckDone j t" and "ActStart \<notin> set as" and "Suc (Suc 0) \<le> length (filter is_loop_act as)"
  shows "{AtAckDone j t, AtReportDone j t} \<subseteq> fst ` set (loop_trace d p as s w)"
proof (rule trace_from [OF assms], goal_cases)
  case (1 timer s1 w1 s2 w2 cs)
  then have "loop s2 = AtReportDone j t" by (auto simp: apply_opt_def loop_step_def goto_def)
  from trace_here [OF this 1(4,5)] show ?case by simp
qed

lemma trace_failed:
  assumes "loop s = AtFailedMetric j" and "ActStart \<notin> set as" and "Suc (Suc (Suc 0)) \<le> length (filter is_loop_act as)"
  shows "{AtFailedMetric j, AtAckFailed j, AtReportFailed j} \<subseteq> fst ` set (loop_trace d p as s w)"
proof (rule trace_from [OF assms], goal_cases)
  case (1 timer s1 w1 s2 w2 cs)
  then have "loop s2 = AtAckFailed j" by (auto simp: apply_opt_def loop_step_def goto_def)
  then have "{AtAckFailed j, AtReportFailed j} \<subseteq> fst ` set (loop_trace d p cs s2 w2)"
  proof (rule trace_from [OF _ 1(4,5)], goal_cases)
    case (1 timer s1 w1 s2 w2 cs)
    then have "loop s2 = AtReportFailed j" by (auto simp: apply_opt_def loop_step_def goto_def)
    from trace_here [OF this 1(4,5)] show ?case by simp
  qed
  then show ?case by auto
qed

lemma trace_finalize:
  assumes "loop s = AtFinalize j t" and "ActStart \<notin> set as" and "Suc (Suc (Suc 0)) \<le> length (filter is_loop_act as)"
  shows "carried_through d p j (set (loop_trace d p as s w))"
proof (rule trace_from [OF assms], goal_cases)
  case (1 timer s1 w1 s2 w2 cs)
  obtain r v where f: "updater_FinalizeEvent d (eID (jEvent j)) resultHash w1 = (r, v)" by fastforce
  have "after_finalize d j t w1 \<subseteq> fst ` set (loop_trace d p cs s2 w2)"
  proof (cases r)
    case None
    with 1(1,3) f have "loop s2 = AtAckDone j t" by (auto simp: apply_opt_def loop_step_def goto_def)
    from trace_ack_done [OF this 1(4,5)] show ?thesis using f None by (simp add: after_finalize_def)
  next
    case (Some err)
    have n: "Suc 0 \<le> length (filter is_loop_act cs)" using 1(5) by simp
    show ?thesis
    proof (cases "err = ErrAlreadyFinalized")
      case True
      with 1(1,3) f Some have "loop s2 = AtAckDuplicate j" by (auto simp: apply_opt_def loop_step_def goto_def)
      from trace_here [OF this 1(4) n] show ?thesis using f Some True by (simp add: after_finalize_def)
    qed (use f Some in \<open>simp add: after_finalize_def\<close>)
  qed
  then show ?case unfolding carried_through_def by (auto intro!: exI [of _ t] exI [of _ w1])
qed

lemma trace_record:
  assumes "loop s = AtRecordFailure j" and "ActStart \<notin> set as" and "Suc (Suc (Suc (Suc 0))) \<le> length (filter is_loop_act as)"
  shows "carried_through d p j (set (loop_trace d p as s w))"
proof (rule trace_from [OF assms], goal_cases)
  case (1 timer s1 w1 s2 w2 cs)
  obtain st r v where f: "recorder d (eID (jEvent j)) (w_maxAttempts p) w1 = ((st, r), v)" by (metis surj_pair)
  have "after_failure d p j w1 \<subseteq> fst ` set (loop_trace d p cs s2 w2)"
  proof (cases "r = None")
    case False
    with f show ?thesis by (auto simp: after_failure_def)
  next
    case True
    have n: "Suc 0 \<le> length (filter is_loop_act cs)" using 1(5) by simp
    show ?thesis
    proof (cases "st = StatusFailed")
      case failed: True
      with 1(1,3) f True have "loop s2 = AtFailedMetric (failed_attempt j)" by (auto simp: apply_opt_def loop_step_def goto_def)
      from trace_failed [OF this 1(4,5)] show ?thesis using f True failed by (simp add: after_failure_def Let_def)
    next
      case False
      with 1(1,3) f True have "loop s2 = AtSchedule (failed_attempt j)" by (auto simp: apply_opt_def loop_step_def goto_def)
      from trace_here [OF this 1(4) n] show ?thesis using f True False by (simp add: after_failure_def Let_def)
    qed
  qed
  then show ?case unfolding carried_through_def by (auto intro!: exI [of _ w1])
qed

lemma trace_process:
  assumes "loop s = AtProcess j t" and "ActStart \<notin> set as" and "Suc (Suc (Suc (Suc (Suc 0)))) \<le> length (filter is_loop_act as)"
  shows "carried_through d p j (set (loop_trace d p as s w))"
proof (rule trace_from [OF assms], goal_cases)
  case (1 timer s1 w1 s2 w2 cs)
  have n: "Suc (Suc (Suc 0)) \<le> length (filter is_loop_act cs)" using 1(5) by simp
  obtain r v where "processor d (jEvent j) w1 = (r, v)" by fastforce
  with 1(1,3) have "loop s2 = AtFinalize j t \<or> loop s2 = AtRecordFailure j"
    by (cases r) (auto simp: apply_opt_def loop_step_def goto_def)
  then have "carried_through d p j (set (loop_trace d p cs s2 w2))"
    using trace_finalize [OF _ 1(4) n] trace_record [OF _ 1(4,5)] by blast
  then show ?case by (rule carried_insert)
qed

lemma trace_announce:
  assumes "loop s = AtAnnounce j" and "ActStart \<notin> set as" and "Suc (Suc (Suc (Suc (Suc (Suc 0))))) \<le> length (filter is_loop_act as)"
  shows "carried_through d p j (set (loop_trace d p as s w))"
proof (rule trace_from [OF assms], goal_cases)
  case (1 timer s1 w1 s2 w2 cs)
  then have "\<exists>t. loop s2 = AtProcess j t" by (auto simp: apply_opt_def loop_step_def goto_def)
  then show ?case using trace_process [OF _ 1(4,5)] by (blast intro: carried_insert)
qed

lemma carried_through_cases:
  assumes "carried_through d p j X"
  shows "(\<exists>t w. (AtFinalize j t, w) \<in> X \<and>
      (case fst (updater_FinalizeEvent d (eID (jEvent j)) resultHash w) of
         None \<Rightarrow> {AtAckDone j t, AtReportDone j t} \<subseteq> fst ` X
       | Some err \<Rightarrow> err = ErrAlreadyFinalized \<longrightarrow> AtAckDuplicate j \<in> fst ` X)) \<or>
    (\<exists>w. (AtRecordFailure j, w) \<in> X \<and>
      (case fst (recorder d (eID (jEvent j)) (w_maxAttempts p) w) of
         (nextStatus, None) \<Rightarrow>
           if nextStatus = StatusFailed then AtAckFailed (failed_attempt j) \<in> fst ` X
           else AtSchedule (failed_attempt j) \<in> fst ` X
       | (nextStatus, Some err) \<Rightarrow> True))"
  using assms unfolding carried_through_def
proof (elim disjE exE conjE, goal_cases)
  case (1 t w)
  then show ?case
    by (intro disjI1 exI [of _ t] exI [of _ w]) (simp add: after_finalize_def split: option.splits if_splits)
next
  case (2 w)
  then show ?case
    by (intro disjI2 exI [of _ w]) (simp add: after_failure_def Let_def split: option.splits if_splits prod.splits)
qed

text \<open>A job whose claim is not obtained: acknowledged as stale, or let go.\<close>

definition claim_followed :: "'w worker_deps \<Rightarrow> worker \<Rightarrow> job \<Rightarrow> (loop_pc \<times> 'w) set \<Rightarrow> bool" where
  "claim_followed d p j X \<longleftrightarrow>
     (\<exists>w. (AtAssign j, w) \<in> X \<and>
        (case fst (updater_AssignEvent d (eID (jEvent j)) (w_id p) StatusQueued StatusProcessing w) of
           None \<Rightarrow> carried_through d p j X
         | Some err \<Rightarrow> err = ErrInvalidStateTransition \<longrightarrow> AtAckStale j \<in> fst ` X))"

lemma claim_insert:
  assumes "claim_followed d p j X"
  shows "claim_followed d p j (insert x X)"
proof -
  from assms obtain w where w: "(AtAssign j, w) \<in> X"
    "case fst (updater_AssignEvent d (eID (jEvent j)) (w_id p) StatusQueued StatusProcessing w) of
       None \<Rightarrow> carried_through d p j X
     | Some err \<Rightarrow> err = ErrInvalidStateTransition \<longrightarrow> AtAckStale j \<in> fst ` X"
    unfolding claim_followed_def by blast
  then show ?thesis
    unfolding claim_followed_def by (intro exI [of _ w]) (auto simp: carried_insert split: option.splits)
qed

lemma trace_assign:
  assumes "loop s = AtAssign j" and "ActStart \<notin> set as" and "Suc (Suc (Suc (Suc (Suc (Suc (Suc 0)))))) \<le> length (filter is_loop_act as)"
  shows "claim_followed d p j (set (loop_trace d p as s w))"
proof (rule trace_from [OF assms], goal_cases)
  case (1 timer s1 w1 s2 w2 cs)
  have n: "Suc 0 \<le> length (filter is_loop_act cs)" using 1(5) by simp
  obtain r v where a: "updater_AssignEvent d (eID (jEvent j)) (w_id p) StatusQueued StatusProcessing w1 = (r, v)" by fastforce
  show ?case
  proof (cases r)
    case None
    with 1(1,3) a have "loop s2 = AtAnnounce j" by (auto simp: apply_opt_def loop_step_def goto_def)
    from trace_announce [OF this 1(4,5)] show ?thesis
      using a None unfolding claim_followed_def by (intro exI [of _ w1]) (simp add: carried_insert)
  next
    case (Some err)
    have "err = ErrInvalidStateTransition \<longrightarrow> loop s2 = AtAckStale j"
      using 1(1,3) a Some by (auto simp: apply_opt_def loop_step_def goto_def)
    with trace_here [OF _ 1(4) n] show ?thesis
      using a Some unfolding claim_followed_def by (intro exI [of _ w1]) auto
  qed
qed

lemma trace_busy:
  assumes "loop s = AtBusy j" and "ActStart \<notin> set as" and "Suc (Suc (Suc (Suc (Suc (Suc (Suc (Suc 0))))))) \<le> length (filter is_loop_act as)"
  shows "claim_followed d p j (set (loop_trace d p as s w))"
proof (rule trace_from [OF assms], goal_cases)
  case (1 timer s1 w1 s2 w2 cs)
  then have "loop s2 = AtAssign j" by (auto simp: apply_opt_def loop_step_def goto_def)
  from trace_assign [OF this 1(4,5)] show ?case by (rule claim_insert)
qed

section \<open>A worker without work\<close>

definition quiet_deps :: "unit worker_deps" where
  "quiet_deps =
     \<lparr> consumer = (\<lambda>fin grp name w. (if fin then Some (Inl CtxDone) else None, w)),
       acker = (\<lambda>j w. (None, w)), retrier = (\<lambda>j w. (None, w)), heartbeater = (\<lambda>name ttl w. (None, w)),
       processor = (\<lambda>e w. (None, w)), recorder = (\<lambda>i m w. ((StatusRetrying, None), w)),
       updater_UpdateStatus = (\<lambda>i old new w. (None, w)), updater_AssignEvent = (\<lambda>i name old new w. (None, w)),
       updater_FinalizeEvent = (\<lambda>i h w. (None, w)), broadcaster = None,
       EventsProcessed_Inc = (\<lambda>t w. w), EventsFailed_Inc = (\<lambda>t w. w), ProcessingDuration_Observe = (\<lambda>t dur w. w),
       time_Now = (\<lambda>w. 0), rand_Float64 = (\<lambda>w. (0, w)), float_out_of_range = (\<lambda>_. 0), uuid_String = (\<lambda>_. ''id'') \<rparr>"

definition quiet_worker :: worker where
  "quiet_worker = \<lparr>w_id = ''worker-1'', w_group = ''g'', w_interval = 5, w_ttl = 15, w_maxAttempts = 3, w_baseDelay = 1\<rparr>"

section \<open>Properties\<close>

text \<open>
  The single steps of the job loop, taken without interruption from the moment a job is consumed, do
  exactly what the body of the loop says read from top to bottom: the same calls in the same order on
  every branch, the same status at the end, and the same retry goroutine, counted in the wait group.
\<close>

lemma steps_refine_body:
  "run_body d p 12 (s\<lparr>loop := AtBusy j\<rparr>) w =
     (let (st, retry, w') = handle_job d p j w;
          s' = (case retry of None \<Rightarrow> s
                | Some (j', delay) \<Rightarrow> s\<lparr>wg := wg s + 1, retries := retries s @ [RetryWait j' delay]\<rparr>)
      in Some (s'\<lparr>status := st, loop := AtTop\<rparr>, w'))"
  using run_job [of d p j s w] by (simp add: goto_def with_retry_def Let_def split: prod.splits)

text \<open>
  A worker that is started once, as the pool does, is stopped only when its job loop, its heartbeat
  and all its retry goroutines have ended, however the steps of all of them and of any number of callers
  of \<open>Stop\<close> interleave; the wait group always equals the number of these goroutines.
\<close>

theorem stop_is_graceful:
  assumes "ActStart \<notin> set as" and "ActStart \<notin> set bs"
    and "run_acts d p (as @ ActStart # bs) NewWorker w = (s, w')"
  shows "wg s = of_bool (loop s \<noteq> LoopExited) + of_bool (heart s \<noteq> HeartExited) + int (length (retries s)) \<and>
    (status s = StatusStopped \<longrightarrow> loop s = LoopExited \<and> heart s = HeartExited \<and> retries s = [])"
proof -
  have "idle NewWorker" by (simp add: idle_def NewWorker_def)
  then have "started_ok s" using run_acts_start_once [OF assms(1,2), of NewWorker d p w] assms(3) by simp
  then have "wg s = running s" and "status s = StatusStopped \<longrightarrow> running s = 0" by (auto simp: started_ok_def)
  then show ?thesis unfolding running_0 unfolding running_def by blast
qed

theorem stop_is_graceful_witness:
  "\<exists>s. fst (run_acts quiet_deps quiet_worker
        ([] @ ActStart # [ActHeart False, ActLoop False, ActStop, ActLoop False, ActHeart False, ActStopWake, ActStopFinish])
        NewWorker ()) = s \<and>
     status s = StatusStopped \<and> loop s = LoopExited \<and> heart s = HeartExited \<and> retries s = []"
proof -
  let ?as = "[ActHeart False, ActLoop False, ActStop, ActLoop False, ActHeart False, ActStopWake, ActStopFinish] :: unit act list"
  obtain s w where r: "run_acts quiet_deps quiet_worker ([] @ ActStart # ?as) NewWorker () = (s, w)" by (metis surj_pair)
  have "status s = StatusStopped"
    using r by (auto simp: NewWorker_def Start_def heart_step_def loop_step_def stop_begin_def stop_wake_def stop_finish_def
        apply_opt_def goto_def quiet_deps_def Let_def)
  with stop_is_graceful [OF _ _ r] r show ?thesis by simp
qed

text \<open>
  C27 What shutdown does to the job a worker has in hand. Once its context has ended the job loop takes at
  most eleven more steps, whatever happens in between. A job it has claimed is carried through among them:
  it is processed if it was not yet, and then \<open>FinalizeEvent\<close> is called and the message acknowledged,
  unless the database refuses, or \<open>RecordFailure\<close> is called, and the message is acknowledged for good or
  given to a retry. A job it has taken but not yet claimed is still claimed if \<open>AssignEvent\<close> answers, and
  then carried through, and acknowledged if the claim is refused for the status of the row; after any
  other error, as when \<open>AssignEvent\<close> notices that the context has ended, the worker lets it go. The loop
  exits only at its top, in \<open>Consume\<close> or in the pause after a failed \<open>Consume\<close>.
\<close>

theorem shutdown_finishes_job:
  assumes "\<forall>grp name w. fst (consumer d True grp name w) = Some (Inl CtxDone)"
    and "ctx_done s" and "ActStart \<notin> set as" and "11 \<le> length (filter is_loop_act as)"
    and "taken = set (loop_trace d p as s w)"
  shows "loop (fst (run_acts d p as s w)) = LoopExited \<and>
    (\<forall>j t. loop s \<in> {AtAnnounce j, AtProcess j t, AtFinalize j t, AtRecordFailure j} \<longrightarrow>
       (\<exists>t w. (AtFinalize j t, w) \<in> taken \<and>
          (case fst (updater_FinalizeEvent d (eID (jEvent j)) resultHash w) of
             None \<Rightarrow> {AtAckDone j t, AtReportDone j t} \<subseteq> fst ` taken
           | Some err \<Rightarrow> err = ErrAlreadyFinalized \<longrightarrow> AtAckDuplicate j \<in> fst ` taken)) \<or>
       (\<exists>w. (AtRecordFailure j, w) \<in> taken \<and>
          (case fst (recorder d (eID (jEvent j)) (w_maxAttempts p) w) of
             (nextStatus, None) \<Rightarrow>
               if nextStatus = StatusFailed then AtAckFailed (failed_attempt j) \<in> fst ` taken
               else AtSchedule (failed_attempt j) \<in> fst ` taken
           | (nextStatus, Some err) \<Rightarrow> True))) \<and>
    (\<forall>j. loop s \<in> {AtBusy j, AtAssign j} \<longrightarrow>
       (\<exists>w. (AtAssign j, w) \<in> taken \<and>
          (case fst (updater_AssignEvent d (eID (jEvent j)) (w_id p) StatusQueued StatusProcessing w) of
             None \<Rightarrow> carried_through d p j taken
           | Some err \<Rightarrow> err = ErrInvalidStateTransition \<longrightarrow> AtAckStale j \<in> fst ` taken))) \<and>
    (\<forall>timer s w s' w'. loop_step d p timer s w = Some (s', w') \<and> loop s' = LoopExited \<longrightarrow>
       loop s = AtTop \<or> loop s = AtConsume \<or> loop s = AtConsumeBackoff)"
proof (intro conjI allI impI)
  show "loop (fst (run_acts d p as s w)) = LoopExited"
    using run_acts_exits [OF _ assms(2,3)] assms(1,4) loop_measure_le [of "loop s"] by (simp add: obeys_ctx_def)
next
  fix j t
  assume "loop s \<in> {AtAnnounce j, AtProcess j t, AtFinalize j t, AtRecordFailure j}"
  then have "carried_through d p j taken"
    using trace_announce [of s j as d p w] trace_process [of s j t as d p w] trace_finalize [of s j t as d p w]
      trace_record [of s j as d p w] assms(3-5) by auto
  from carried_through_cases [OF this]
  show "(\<exists>t w. (AtFinalize j t, w) \<in> taken \<and>
          (case fst (updater_FinalizeEvent d (eID (jEvent j)) resultHash w) of
             None \<Rightarrow> {AtAckDone j t, AtReportDone j t} \<subseteq> fst ` taken
           | Some err \<Rightarrow> err = ErrAlreadyFinalized \<longrightarrow> AtAckDuplicate j \<in> fst ` taken)) \<or>
       (\<exists>w. (AtRecordFailure j, w) \<in> taken \<and>
          (case fst (recorder d (eID (jEvent j)) (w_maxAttempts p) w) of
             (nextStatus, None) \<Rightarrow>
               if nextStatus = StatusFailed then AtAckFailed (failed_attempt j) \<in> fst ` taken
               else AtSchedule (failed_attempt j) \<in> fst ` taken
           | (nextStatus, Some err) \<Rightarrow> True))" .
next
  fix j
  assume "loop s \<in> {AtBusy j, AtAssign j}"
  then have "claim_followed d p j taken"
    using trace_busy [of s j as d p w] trace_assign [of s j as d p w] assms(3-5) by auto
  then show "\<exists>w. (AtAssign j, w) \<in> taken \<and>
      (case fst (updater_AssignEvent d (eID (jEvent j)) (w_id p) StatusQueued StatusProcessing w) of
         None \<Rightarrow> carried_through d p j taken
       | Some err \<Rightarrow> err = ErrInvalidStateTransition \<longrightarrow> AtAckStale j \<in> fst ` taken)"
    unfolding claim_followed_def .
next
  fix timer s w s' w'
  assume "loop_step d p timer s w = Some (s', w') \<and> loop s' = LoopExited"
  then show "loop s = AtTop \<or> loop s = AtConsume \<or> loop s = AtConsumeBackoff" using loop_step_frame(9) by fastforce
qed

definition fresh_job :: job where
  "fresh_job = \<lparr>jEvent = fresh_event, jReceipt = ''1'', jQueue = StreamHigh, jGroup = ''g''\<rparr>"

theorem shutdown_finishes_job_witness:
  "loop (fst (run_acts quiet_deps quiet_worker (replicate 11 (ActLoop True))
      (NewWorker\<lparr>ctx_done := True, loop := AtBusy fresh_job\<rparr>) ())) = LoopExited \<and>
   carried_through quiet_deps quiet_worker fresh_job
     (set (loop_trace quiet_deps quiet_worker (replicate 11 (ActLoop True)) (NewWorker\<lparr>ctx_done := True, loop := AtBusy fresh_job\<rparr>) ()))"
  using shutdown_finishes_job [of quiet_deps "NewWorker\<lparr>ctx_done := True, loop := AtBusy fresh_job\<rparr>" "replicate 11 (ActLoop True)"
      _ quiet_worker "()", OF _ _ _ _ refl]
  by (simp add: quiet_deps_def)

end
