(* ===== verification/Pool.thy ===== *)
theory Pool
  imports WorkerProps
begin

text \<open>
  \<open>internal/worker/pool.go\<close>: a fixed set of workers, started one after the other and stopped all at
  once. The callers of \<open>Start\<close> and \<open>Stop\<close>, the goroutines that \<open>Stop\<close> runs, and the goroutines of all
  workers take their steps in any order; \<open>startMu\<close> keeps \<open>Stop\<close> from running while \<open>Start\<close> does.
\<close>

section \<open>The pool\<close>

text \<open>How far the goroutine is that \<open>Pool.Stop\<close> runs for a worker.\<close>

datatype stop_call = NotStopping | StopSpawned | StopWaiting | StopWoken | StopReturned

record member =
  m_worker :: worker
  m_state :: worker_state
  m_stop :: stop_call

record pool =
  members :: "member list"
  starting :: "nat option"
  started :: bool
  stopped :: bool

definition worker_name :: "nat \<Rightarrow> string" where
  "worker_name i = ''worker-'' @ Itoa (int i + 1)"

definition NewPool :: "int \<Rightarrow> string \<Rightarrow> duration \<Rightarrow> duration \<Rightarrow> int \<Rightarrow> duration \<Rightarrow> pool" where
  "NewPool count groupName itv ttl maxAttempts baseDelay =
     (let count = (if count \<le> 0 then 4 else count);
          workers = map (\<lambda>i. \<lparr>m_worker = \<lparr>w_id = worker_name i, w_group = groupName, w_interval = itv, w_ttl = ttl,
                                           w_maxAttempts = maxAttempts, w_baseDelay = baseDelay\<rparr>,
                              m_state = NewWorker, m_stop = NotStopping\<rparr>) [0..<nat count]
      in \<lparr>members = workers, starting = None, started = False, stopped = False\<rparr>)"

definition GetWorkers :: "pool \<Rightarrow> (worker \<times> worker_state) list" where
  "GetWorkers P = map (\<lambda>m. (m_worker m, m_state m)) (members P)"

section \<open>Start and Stop\<close>

definition set_member :: "nat \<Rightarrow> (member \<Rightarrow> member) \<Rightarrow> pool \<Rightarrow> pool" where
  "set_member i f P = (if i < length (members P) then P\<lparr>members := (members P)[i := f (members P ! i)]\<rparr> else P)"

text \<open>
  \<open>Pool.Start\<close> up to its loop; then one iteration of the loop. \<open>starting\<close> is the index of the loop while
  it runs, and an error of a worker ends it.
\<close>

definition pool_start :: "pool \<Rightarrow> string option \<times> pool" where
  "pool_start P =
     (if started P \<or> stopped P then (Some ''pool already started or stopped'', P)
      else (None, P\<lparr>started := True, starting := Some 0\<rparr>))"

definition pool_start_next :: "'w worker_deps \<Rightarrow> pool \<Rightarrow> 'w \<Rightarrow> string option \<times> pool \<times> 'w" where
  "pool_start_next d P w =
     (case starting P of
        None \<Rightarrow> (None, P, w)
      | Some i \<Rightarrow>
          if length (members P) \<le> i then (None, P\<lparr>starting := None\<rparr>, w)
          else case Start d (m_worker (members P ! i)) (m_state (members P ! i)) w of
                 (Some err, s, w) \<Rightarrow>
                   (Some (''failed to start worker '' @ w_id (m_worker (members P ! i)) @ '': '' @ err),
                    (set_member i (\<lambda>m. m\<lparr>m_state := s\<rparr>) P)\<lparr>starting := None\<rparr>, w)
               | (None, s, w) \<Rightarrow> (None, (set_member i (\<lambda>m. m\<lparr>m_state := s\<rparr>) P)\<lparr>starting := Some (Suc i)\<rparr>, w))"

text \<open>\<open>Pool.Stop\<close> up to \<open>wg.Wait()\<close>: one goroutine for every worker.\<close>

definition pool_stop :: "pool \<Rightarrow> pool" where
  "pool_stop P =
     (if \<not> started P \<or> stopped P then P
      else P\<lparr>stopped := True, members := map (\<lambda>m. m\<lparr>m_stop := StopSpawned\<rparr>) (members P)\<rparr>)"

text \<open>One step of such a goroutine, which runs \<open>Worker.Stop\<close>.\<close>

definition stop_call_step :: "'w worker_deps \<Rightarrow> member \<Rightarrow> 'w \<Rightarrow> member \<times> 'w" where
  "stop_call_step d m w =
     (case m_stop m of
        StopSpawned \<Rightarrow>
          if status (m_state m) = StatusStopped \<or> status (m_state m) = StatusStopping
          then (m\<lparr>m_stop := StopReturned\<rparr>, w)
          else (m\<lparr>m_state := stop_begin (m_state m), m_stop := StopWaiting\<rparr>, w)
      | StopWaiting \<Rightarrow>
          (case stop_wake (m_state m) of
             None \<Rightarrow> (m, w)
           | Some s \<Rightarrow> (m\<lparr>m_state := s, m_stop := StopWoken\<rparr>, w))
      | StopWoken \<Rightarrow>
          (case stop_finish d (m_worker m) (m_state m) w of
             None \<Rightarrow> (m, w)
           | Some (s, w) \<Rightarrow> (m\<lparr>m_state := s, m_stop := StopReturned\<rparr>, w))
      | _ \<Rightarrow> (m, w))"

text \<open>
  \<open>Pool.Stop\<close> has returned once all these goroutines have: that is the call that stops the workers. A further
  call finds \<open>stopped\<close> set and returns at once, without waiting; \<open>pool_stop\<close> then changes nothing.
\<close>

definition pool_stop_returned :: "pool \<Rightarrow> bool" where
  "pool_stop_returned P \<longleftrightarrow> stopped P \<and> list_all (\<lambda>m. m_stop m = StopReturned) (members P)"

section \<open>Steps\<close>

datatype 'w pool_act =
    PoolStart
  | PoolStartNext
  | PoolStop
  | PoolStopCall nat
  | PoolHeart nat bool
  | PoolLoop nat bool
  | PoolRetry nat nat bool
  | PoolDone
  | PoolWorld 'w

definition own_step :: "'w worker_deps \<Rightarrow> nat \<Rightarrow> 'w act \<Rightarrow> pool \<Rightarrow> 'w \<Rightarrow> pool \<times> 'w" where
  "own_step d i a P w =
     (if i < length (members P)
      then case act_step d (m_worker (members P ! i)) a (m_state (members P ! i)) w of
             (s, w) \<Rightarrow> (set_member i (\<lambda>m. m\<lparr>m_state := s\<rparr>) P, w)
      else (P, w))"

fun pool_step :: "'w worker_deps \<Rightarrow> 'w pool_act \<Rightarrow> pool \<Rightarrow> 'w \<Rightarrow> pool \<times> 'w" where
  "pool_step d PoolStart P w = (snd (pool_start P), w)"
| "pool_step d PoolStartNext P w = snd (pool_start_next d P w)"
| "pool_step d PoolStop P w = (if starting P = None then pool_stop P else P, w)"
| "pool_step d (PoolStopCall i) P w =
     (if i < length (members P)
      then case stop_call_step d (members P ! i) w of (m, w) \<Rightarrow> (set_member i (\<lambda>_. m) P, w)
      else (P, w))"
| "pool_step d (PoolHeart i tick) P w = own_step d i (ActHeart tick) P w"
| "pool_step d (PoolLoop i timer) P w = own_step d i (ActLoop timer) P w"
| "pool_step d (PoolRetry i n timer) P w = own_step d i (ActRetry n timer) P w"
| "pool_step d PoolDone P w =
     (P\<lparr>members := map (\<lambda>m. m\<lparr>m_state := fst (act_step d (m_worker m) ActParentDone (m_state m) w)\<rparr>) (members P)\<rparr>, w)"
| "pool_step d (PoolWorld w') P w = (P, w')"

fun run_pool :: "'w worker_deps \<Rightarrow> 'w pool_act list \<Rightarrow> pool \<Rightarrow> 'w \<Rightarrow> pool \<times> 'w" where
  "run_pool d [] P w = (P, w)"
| "run_pool d (a # as) P w = (case pool_step d a P w of (P', w') \<Rightarrow> run_pool d as P' w')"

section \<open>The state of a member\<close>

text \<open>Before it is started, and between the start and the end of its stop call.\<close>

definition member_ok :: "bool \<Rightarrow> member \<Rightarrow> bool" where
  "member_ok begun m \<longleftrightarrow>
     (if \<not> begun then idle (m_state m) \<and> (m_stop m = NotStopping)
      else started_ok (m_state m) \<and>
        (case m_stop m of
           StopWaiting \<Rightarrow> waiting (m_state m) = 1 \<and> woken (m_state m) = 0
         | StopWoken \<Rightarrow> waiting (m_state m) = 0 \<and> woken (m_state m) = 1
         | StopReturned \<Rightarrow> waiting (m_state m) = 0 \<and> woken (m_state m) = 0 \<and> status (m_state m) = StatusStopped
         | _ \<Rightarrow> waiting (m_state m) = 0 \<and> woken (m_state m) = 0 \<and>
                status (m_state m) \<noteq> StatusStopped \<and> status (m_state m) \<noteq> StatusStopping))"

text \<open>Which members have been started: all below the index of a running \<open>Start\<close>, or all, or none.\<close>

definition begun :: "pool \<Rightarrow> nat \<Rightarrow> bool" where
  "begun P i \<longleftrightarrow> started P \<and> (case starting P of None \<Rightarrow> True | Some k \<Rightarrow> i < k)"

definition pool_ok :: "pool \<Rightarrow> bool" where
  "pool_ok P \<longleftrightarrow> (\<forall>i < length (members P). member_ok (begun P i) (members P ! i)) \<and>
     (stopped P \<longrightarrow> started P \<and> starting P = None) \<and> (starting P \<noteq> None \<longrightarrow> started P) \<and>
     (\<forall>m \<in> set (members P). (m_stop m = NotStopping) = (\<not> stopped P))"

end
