(* ===== verification/PoolProps.thy ===== *)
theory PoolProps
  imports Pool
begin

text \<open>
  What the pool promises: exactly the configured number of workers, each with its own name and started
  once, and a \<open>Stop\<close> that returns only when every worker has stopped and that can always return.
\<close>

section \<open>Names\<close>

lemma worker_name_inj:
  assumes "worker_name i = worker_name j"
  shows "i = j"
proof -
  have "Itoa (int k + 1) = dec_nat (Suc k)" for k
    by (simp add: Itoa_def nat_add_distrib del: of_nat_Suc)
  with assms have "dec_nat (Suc i) = dec_nat (Suc j)" by (simp only: worker_name_def append_same_eq same_append_eq)
  then have "Some (Suc i) = Some (Suc j)" by (metis dec_value_dec_nat)
  then show ?thesis by simp
qed

section \<open>Own steps of a worker\<close>

definition own_act :: "'w act \<Rightarrow> bool" where
  "own_act a \<longleftrightarrow> (case a of ActHeart _ \<Rightarrow> True | ActLoop _ \<Rightarrow> True | ActRetry _ _ \<Rightarrow> True | ActParentDone \<Rightarrow> True | _ \<Rightarrow> False)"

definition calm_step :: "worker_state \<Rightarrow> worker_state \<Rightarrow> bool" where
  "calm_step s s' \<longleftrightarrow> waiting s' = waiting s \<and> woken s' = woken s \<and> (ctx_done s \<longrightarrow> ctx_done s') \<and>
     (status s' = status s \<or> running s \<noteq> 0 \<and> (status s' = StatusBusy \<or> status s' = StatusReady))"

lemma calm_step_refl [simp]: "calm_step s s"
  by (simp add: calm_step_def)

lemma own_act_calm:
  assumes "own_act a"
  shows "calm_step s (fst (act_step d p a s w))"
proof (cases a)
  case (ActHeart tick)
  have "calm_step s s'" if "heart_step d p tick s w = Some (s', w')" for s' w'
    using heart_step_frame [OF that] by (simp add: calm_step_def)
  with ActHeart show ?thesis by (auto intro: apply_opt_rule)
next
  case (ActLoop timer)
  have "calm_step s s'" if "loop_step d p timer s w = Some (s', w')" for s' w'
    using loop_step_frame [OF that] by (auto simp: calm_step_def running_0)
  with ActLoop show ?thesis by (auto intro: apply_opt_rule)
next
  case (ActRetry i timer)
  have "calm_step s s'" if "retry_step d timer i s w = Some (s', w')" for s' w'
    using retry_step_frame [OF that] by (simp add: calm_step_def)
  with ActRetry show ?thesis by (auto intro: apply_opt_rule)
qed (use assms in \<open>simp_all add: own_act_def calm_step_def\<close>)

lemma member_ok_own:
  assumes "member_ok b m" and "own_act a"
  shows "member_ok b (m\<lparr>m_state := fst (act_step d p a (m_state m) w)\<rparr>)"
proof -
  have a: "a \<noteq> ActStart" using assms(2) by (auto simp: own_act_def)
  note calm = own_act_calm [OF assms(2), of "m_state m" d p w]
  show ?thesis
  proof (cases b)
    case False
    with assms(1) act_step_idle [OF _ a] show ?thesis by (simp add: member_ok_def)
  next
    case True
    then have ok: "started_ok (m_state m)" using assms(1) by (simp add: member_ok_def)
    with act_step_started [OF _ a] have "started_ok (fst (act_step d p a (m_state m) w))" by blast
    moreover have "status (m_state m) = StatusStopped \<longrightarrow> running (m_state m) = 0"
      using ok by (simp add: started_ok_def)
    ultimately show ?thesis
      using True assms(1) calm by (auto simp: member_ok_def calm_step_def split: stop_call.splits)
  qed
qed

text \<open>The goroutine of \<open>Pool.Stop\<close> for one worker.\<close>

lemma member_ok_stop_call:
  assumes "member_ok True m"
  shows "member_ok True (fst (stop_call_step d m w))"
proof -
  have ok: "started_ok (m_state m)" using assms by (simp add: member_ok_def)
  note acts = act_step_started [OF ok, of ActStop d "m_worker m" w]
    act_step_started [OF ok, of ActStopWake d "m_worker m" w]
    act_step_started [OF ok, of ActStopFinish d "m_worker m" w]
  show ?thesis
  proof (cases "m_stop m")
    case StopSpawned
    with assms acts(1) show ?thesis by (auto simp: member_ok_def stop_call_step_def stop_begin_def)
  next
    case StopWaiting
    with assms acts(2) show ?thesis by (auto simp: member_ok_def stop_call_step_def stop_wake_def)
  next
    case StopWoken
    with assms acts(3) show ?thesis by (auto simp: member_ok_def stop_call_step_def stop_finish_def apply_opt_def)
  qed (use assms in \<open>simp_all add: stop_call_step_def\<close>)
qed

lemma member_ok_start:
  assumes "member_ok False m"
  shows "\<exists>s' w'. Start d p (m_state m) w = (None, s', w') \<and> member_ok True (m\<lparr>m_state := s'\<rparr>)"
proof -
  have i: "idle (m_state m)" "m_stop m = NotStopping" using assms by (simp_all add: member_ok_def)
  with act_step_start [OF i(1), of d p w] show ?thesis
    by (auto simp: member_ok_def Start_def Let_def idle_def)
qed

section \<open>The invariant of the pool\<close>

lemma set_member_simps [simp]:
  "length (members (set_member i f P)) = length (members P)"
  "starting (set_member i f P) = starting P" "started (set_member i f P) = started P"
  "stopped (set_member i f P) = stopped P"
  by (simp_all add: set_member_def)

lemma set_member_nth:
  "j < length (members P) \<Longrightarrow> members (set_member i f P) ! j = (if j = i then f (members P ! i) else members P ! j)"
  by (auto simp: set_member_def nth_list_update)

lemma begun_simps [simp]:
  "begun (set_member i f P) j = begun P j" "begun (P\<lparr>members := ms\<rparr>) j = begun P j"
  "begun (P\<lparr>stopped := x\<rparr>) j = begun P j" "begun (P\<lparr>stopped := x, members := ms\<rparr>) j = begun P j"
  by (simp_all add: begun_def set_member_def)

lemma all_members: "(\<forall>m \<in> set (members P). Q m) \<longleftrightarrow> (\<forall>i < length (members P). Q (members P ! i))"
  by (rule all_set_conv_all_nth)

text \<open>A change of one member that keeps what the invariant says of it keeps the invariant.\<close>

lemma pool_ok_member:
  assumes "pool_ok P" and "i < length (members P)" and "member_ok (begun P i) (f (members P ! i))"
    and "(m_stop (f (members P ! i)) = NotStopping) = (m_stop (members P ! i) = NotStopping)"
  shows "pool_ok (set_member i f P)"
  using assms by (auto simp: pool_ok_def all_members set_member_nth)

lemma pool_ok_all:
  assumes "pool_ok P" and "\<And>b m. member_ok b m \<Longrightarrow> member_ok b (f m) \<and> m_stop (f m) = m_stop m"
  shows "pool_ok (P\<lparr>members := map f (members P)\<rparr>)"
  using assms by (auto simp: pool_ok_def all_members)

lemma pool_ok_own:
  assumes "pool_ok P" and "own_act a"
  shows "pool_ok (fst (own_step d i a P w))"
  using assms pool_ok_member [OF assms(1), of i "\<lambda>m. m\<lparr>m_state := fst (act_step d (m_worker m) a (m_state m) w)\<rparr>"]
    member_ok_own [OF _ assms(2)]
  by (auto simp: own_step_def pool_ok_def set_member_def split: prod.splits)

lemma pool_ok_start: "pool_ok P \<Longrightarrow> pool_ok (snd (pool_start P))"
  by (auto simp: pool_start_def pool_ok_def begun_def)

text \<open>An iteration of the loop of \<open>Start\<close> never fails.\<close>

lemma pool_start_next_ok:
  assumes "pool_ok P"
  shows "fst (pool_start_next d P w) = None \<and> pool_ok (fst (snd (pool_start_next d P w)))"
proof (cases "starting P")
  case None
  with assms show ?thesis by (simp add: pool_start_next_def)
next
  case (Some k)
  with assms have st: "started P" "\<not> stopped P" by (auto simp: pool_ok_def)
  show ?thesis
  proof (cases "k < length (members P)")
    case False
    with Some assms st show ?thesis by (auto simp: pool_start_next_def pool_ok_def begun_def)
  next
    case True
    have "member_ok False (members P ! k)" using assms True Some by (auto simp: pool_ok_def begun_def)
    from member_ok_start [OF this, of d "m_worker (members P ! k)" w] obtain s' w' where
      s: "Start d (m_worker (members P ! k)) (m_state (members P ! k)) w = (None, s', w')"
        "member_ok True ((members P ! k)\<lparr>m_state := s'\<rparr>)"
      unfolding Start_def Let_def by auto
    let ?P = "(set_member k (\<lambda>m. m\<lparr>m_state := s'\<rparr>) P)\<lparr>starting := Some (Suc k)\<rparr>"
    have "member_ok (begun ?P i) (members ?P ! i)" if "i < length (members P)" for i
      using that assms s(2) Some st
      by (cases "i = k") (auto simp: set_member_nth begun_def pool_ok_def less_Suc_eq)
    moreover have "\<forall>m \<in> set (members ?P). m_stop m = NotStopping"
      using assms st by (auto simp: all_members set_member_nth pool_ok_def)
    ultimately have "pool_ok ?P"
      using assms st by (simp add: pool_ok_def)
    then show ?thesis using Some True s(1) by (simp add: pool_start_next_def)
  qed
qed

lemma pool_ok_stop: "pool_ok P \<Longrightarrow> starting P = None \<Longrightarrow> pool_ok (pool_stop P)"
  by (auto simp: pool_stop_def pool_ok_def begun_def member_ok_def)

lemma stop_call_step_not: "m_stop m = NotStopping \<Longrightarrow> stop_call_step d m w = (m, w)"
  by (simp add: stop_call_step_def)

lemma stop_call_step_stopping: "(m_stop (fst (stop_call_step d m w)) = NotStopping) = (m_stop m = NotStopping)"
  by (cases "m_stop m") (simp_all add: stop_call_step_def split: option.split)

lemma pool_step_ok:
  assumes "pool_ok P"
  shows "pool_ok (fst (pool_step d a P w))"
proof (cases a)
  case (PoolStopCall i)
  show ?thesis
  proof (cases "stopped P \<and> i < length (members P)")
    case True
    with assms have "begun P i" by (auto simp: pool_ok_def begun_def)
    with True assms have "member_ok True (members P ! i)" by (metis pool_ok_def)
    from pool_ok_member [OF assms, of i "\<lambda>_. fst (stop_call_step d (members P ! i) w)"] member_ok_stop_call [OF this, of d w]
    show ?thesis using True \<open>begun P i\<close> PoolStopCall by (simp add: case_prod_beta stop_call_step_stopping)
  next
    case False
    with assms PoolStopCall show ?thesis
      by (auto simp: stop_call_step_not pool_ok_def set_member_def split: prod.splits)
  qed
next
  case PoolDone
  have "own_act ActParentDone" by (simp add: own_act_def)
  from pool_ok_all [OF assms, of "\<lambda>m. m\<lparr>m_state := fst (act_step d (m_worker m) ActParentDone (m_state m) w)\<rparr>"]
    member_ok_own [OF _ this, of _ _ d _ w] PoolDone
  show ?thesis by simp
qed (simp_all add: assms pool_ok_own [OF assms] pool_ok_start [OF assms] pool_start_next_ok [OF assms]
  pool_ok_stop [OF assms] own_act_def)

lemma run_pool_ok: "pool_ok P \<Longrightarrow> pool_ok (fst (run_pool d as P w))"
proof (induction as arbitrary: P w)
  case (Cons a as)
  obtain P' w' where "pool_step d a P w = (P', w')" by fastforce
  with Cons pool_step_ok [OF Cons.prems, of d a w] show ?case by auto
qed simp

lemma NewPool_ok: "pool_ok (NewPool count grp itv ttl maxA base)"
  by (simp add: NewPool_def pool_ok_def begun_def member_ok_def idle_def NewWorker_def Let_def)

lemma set_member_workers: "(\<And>m. m_worker (f m) = m_worker m) \<Longrightarrow> map m_worker (members (set_member i f P)) = map m_worker (members P)"
  by (auto simp: set_member_def map_update list_update_same_conv)

lemma stop_call_step_worker: "m_worker (fst (stop_call_step d m w)) = m_worker m"
  by (simp add: stop_call_step_def split: stop_call.split option.split)

lemma pool_step_workers: "map m_worker (members (fst (pool_step d a P w))) = map m_worker (members P)"
proof (cases a)
  case PoolStartNext
  then show ?thesis
    by (simp add: pool_start_next_def set_member_workers split: option.split prod.split)
next
  case (PoolStopCall i)
  obtain m v where m: "stop_call_step d (members P ! i) w = (m, v)" by fastforce
  with stop_call_step_worker [of d "members P ! i" w] PoolStopCall show ?thesis
    by (simp add: set_member_def map_update list_update_same_conv)
qed (simp_all add: own_step_def set_member_workers pool_start_def pool_stop_def case_prod_beta)

lemma run_pool_workers: "map m_worker (members (fst (run_pool d as P w))) = map m_worker (members P)"
proof (induction as arbitrary: P w)
  case (Cons a as)
  obtain P' w' where "pool_step d a P w = (P', w')" by fastforce
  with Cons.IH [of P' w'] pool_step_workers [of d a P w] show ?case by simp
qed simp

section \<open>Draining\<close>

fun heart_measure :: "heart_pc \<Rightarrow> nat" where
  "heart_measure HeartInitial = 2"
| "heart_measure HeartWait = 1"
| "heart_measure HeartExited = 0"

fun retry_measure :: "retry_pc \<Rightarrow> nat" where
  "retry_measure (RetryWait j delay) = 1"
| "retry_measure (RetryRequeue j) = 2"
| "retry_measure (RetryUpdate j) = 1"

definition worker_measure :: "worker_state \<Rightarrow> nat" where
  "worker_measure s = 2 * loop_measure (loop s) + heart_measure (heart s) + sum_list (map retry_measure (retries s))"

text \<open>Once its context has ended a worker with a goroutine left has a step towards its end.\<close>

lemma drain_step:
  assumes "obeys_ctx d" and "ctx_done s" and "running s \<noteq> 0"
  shows "\<exists>a. own_act a \<and> a \<noteq> ActParentDone \<and> worker_measure (fst (act_step d p a s w)) < worker_measure s"
proof (cases "loop s = LoopExited")
  case False
  from loop_step_cancelled [OF assms(1,2) False, of p True w] obtain s' w' where
    l: "loop_step d p True s w = Some (s', w')" "loop_measure (loop s') < loop_measure (loop s)" by blast
  have "heart s' = heart s \<and> sum_list (map retry_measure (retries s')) \<le> Suc (sum_list (map retry_measure (retries s)))"
    using loop_step_shape [OF l(1)] by (induction rule: step_shape.induct) (simp_all add: goto_def)
  with l show ?thesis by (intro exI [of _ "ActLoop True"]) (simp add: worker_measure_def apply_opt_def own_act_def)
next
  case True
  show ?thesis
  proof (cases "heart s")
    case HeartExited
    with True assms(3) obtain r rs where r: "retries s = r # rs" by (cases "retries s") (auto simp: running_def)
    show ?thesis
      by (rule exI [of _ "ActRetry 0 False"], cases r)
        (use assms(2) r in \<open>auto simp: worker_measure_def apply_opt_def own_act_def retry_step_def retry_exit_def
          remove_nth_def split: prod.split option.split\<close>)
  qed (use assms(2) in \<open>auto simp: worker_measure_def apply_opt_def own_act_def heart_step_def
    intro!: exI [of _ "ActHeart False"]\<close>)
qed

fun stop_measure :: "stop_call \<Rightarrow> nat" where
  "stop_measure NotStopping = 0"
| "stop_measure StopSpawned = 3"
| "stop_measure StopWaiting = 2"
| "stop_measure StopWoken = 1"
| "stop_measure StopReturned = 0"

definition member_measure :: "member \<Rightarrow> nat" where
  "member_measure m = stop_measure (m_stop m) + worker_measure (m_state m)"

definition pool_measure :: "pool \<Rightarrow> nat" where
  "pool_measure P = sum_list (map member_measure (members P))"

lemma pool_measure_member:
  assumes "i < length (members P)" and "member_measure (f (members P ! i)) < member_measure (members P ! i)"
  shows "pool_measure (set_member i f P) < pool_measure P"
proof -
  have "member_measure (members P ! i) \<le> pool_measure P"
    unfolding pool_measure_def using assms(1) elem_le_sum_list [of i "map member_measure (members P)"] by simp
  then show ?thesis
    using assms by (simp add: pool_measure_def set_member_def map_update sum_list_update)
qed

text \<open>The steps of the workers and of the goroutines of \<open>Stop\<close>.\<close>

fun inner_act :: "'w pool_act \<Rightarrow> bool" where
  "inner_act (PoolStopCall i) = True"
| "inner_act (PoolHeart i tick) = True"
| "inner_act (PoolLoop i timer) = True"
| "inner_act (PoolRetry i n timer) = True"
| "inner_act _ = False"

lemma own_step_inner:
  assumes "own_act a" and "a \<noteq> ActParentDone"
  shows "\<exists>b. inner_act b \<and> (\<forall>d P w. pool_step d b P w = own_step d i a P w)"
  using assms by (cases a) (auto simp: own_act_def intro: exI [of _ "PoolHeart i t" for t] exI [of _ "PoolLoop i t" for t]
      exI [of _ "PoolRetry i n t" for n t])

lemma pool_progress:
  assumes "obeys_ctx d" and "pool_ok P" and "stopped P" and "\<not> pool_stop_returned P"
  shows "\<exists>a. inner_act a \<and> stopped (fst (pool_step d a P w)) \<and> pool_measure (fst (pool_step d a P w)) < pool_measure P"
proof -
  from assms(3,4) obtain i where i: "i < length (members P)" "m_stop (members P ! i) \<noteq> StopReturned"
    by (auto simp: pool_stop_returned_def list_all_length)
  let ?m = "members P ! i"
  have "begun P i" using assms(2,3) by (auto simp: pool_ok_def begun_def)
  with assms(2) i(1) have ok: "member_ok True ?m" by (metis pool_ok_def)
  have stop: ?thesis if "member_measure (fst (stop_call_step d ?m w)) < member_measure ?m"
    using pool_measure_member [OF i(1), of "\<lambda>_. fst (stop_call_step d ?m w)"] that i(1) assms(3)
    by (intro exI [of _ "PoolStopCall i"]) (simp add: case_prod_beta)
  show ?thesis
  proof (cases "m_stop ?m")
    case StopSpawned
    then show ?thesis by (intro stop) (auto simp: stop_call_step_def member_measure_def stop_begin_def worker_measure_def)
  next
    case StopWoken
    with ok show ?thesis
      by (intro stop) (simp add: stop_call_step_def member_measure_def stop_finish_def worker_measure_def member_ok_def)
  next
    case StopWaiting
    show ?thesis
    proof (cases "running (m_state ?m) = 0")
      case True
      with StopWaiting ok show ?thesis
        by (intro stop) (simp add: stop_call_step_def member_measure_def stop_wake_def worker_measure_def member_ok_def started_ok_def)
    next
      case False
      have "ctx_done (m_state ?m)" using ok StopWaiting by (simp add: member_ok_def started_ok_def)
      from drain_step [OF assms(1) this False, of "m_worker ?m" w] obtain a where
        a: "own_act a" "a \<noteq> ActParentDone"
          "worker_measure (fst (act_step d (m_worker ?m) a (m_state ?m) w)) < worker_measure (m_state ?m)" by blast
      from own_step_inner [OF a(1,2), of i] obtain b where
        b: "inner_act b" "\<forall>d P w. pool_step d b P w = own_step d i a P w" by blast
      have "pool_measure (fst (own_step d i a P w)) < pool_measure P"
        using pool_measure_member [OF i(1), of "\<lambda>m. m\<lparr>m_state := fst (act_step d (m_worker ?m) a (m_state ?m) w)\<rparr>"] a(3) i(1)
        by (simp add: own_step_def member_measure_def case_prod_beta)
      moreover have "stopped (fst (own_step d i a P w))" using assms(3) by (simp add: own_step_def case_prod_beta)
      ultimately show ?thesis using b by (intro exI [of _ b]) simp
    qed
  next
    case NotStopping
    with assms(2,3) i(1) show ?thesis by (simp add: pool_ok_def all_members)
  qed (use i in simp)
qed

lemma pool_can_return:
  assumes "obeys_ctx d" and "pool_ok P" and "stopped P"
  shows "\<exists>bs. (\<forall>b \<in> set bs. inner_act b) \<and> pool_stop_returned (fst (run_pool d bs P w))"
  using assms(2,3)
proof (induction "pool_measure P" arbitrary: P w rule: less_induct)
  case less
  show ?case
  proof (cases "pool_stop_returned P")
    case True
    then show ?thesis by (intro exI [of _ "[]"]) simp
  next
    case False
    from pool_progress [OF assms(1) less.prems False, of w] obtain a where
      a: "inner_act a" "stopped (fst (pool_step d a P w))" "pool_measure (fst (pool_step d a P w)) < pool_measure P"
      by blast
    obtain P' w' where p: "pool_step d a P w = (P', w')" by fastforce
    have "pool_ok P'" using pool_step_ok [OF less.prems(1), of d a w] p by simp
    with less.hyps [of P' w'] a p obtain bs where
      "\<forall>b \<in> set bs. inner_act b" "pool_stop_returned (fst (run_pool d bs P' w'))" by auto
    with a(1) p show ?thesis by (intro exI [of _ "a # bs"]) simp
  qed
qed

text \<open>What the return of \<open>Stop\<close> means for the workers.\<close>

lemma pool_returned_idle:
  assumes "pool_ok P" and "pool_stop_returned P"
  shows "\<forall>(p, s) \<in> set (GetWorkers P).
    status s = StatusStopped \<and> loop s = LoopExited \<and> heart s = HeartExited \<and> retries s = [] \<and> wg s = 0"
proof -
  have "status (m_state m) = StatusStopped \<and> running (m_state m) = 0 \<and> wg (m_state m) = 0" if m: "m \<in> set (members P)" for m
  proof -
    from m obtain i where i: "i < length (members P)" "m = members P ! i" by (auto simp: in_set_conv_nth)
    have st: "m_stop m = StopReturned" "stopped P" using assms(2) m by (auto simp: pool_stop_returned_def list_all_iff)
    with assms(1) have "begun P i" by (auto simp: pool_ok_def begun_def)
    with assms(1) i have "member_ok True m" by (auto simp: pool_ok_def)
    with st(1) show ?thesis by (simp add: member_ok_def started_ok_def)
  qed
  then show ?thesis by (auto simp: GetWorkers_def running_0)
qed

section \<open>Properties\<close>

text \<open>
  Whatever is done to it, the pool has exactly the configured number of workers, four when the
  configured number is not positive, named \<open>worker-1\<close>, \<open>worker-2\<close>, ... in order, with pairwise different
  names, and all with the parameters the pool was given.
\<close>

theorem pool_workers_exact:
  "map fst (GetWorkers (fst (run_pool d as (NewPool count grp itv ttl maxA base) w))) =
     map (\<lambda>i. \<lparr>w_id = ''worker-'' @ Itoa (int i + 1), w_group = grp, w_interval = itv, w_ttl = ttl,
               w_maxAttempts = maxA, w_baseDelay = base\<rparr>)
       [0..<(if count \<le> 0 then 4 else nat count)] \<and>
   distinct (map (w_id \<circ> fst) (GetWorkers (fst (run_pool d as (NewPool count grp itv ttl maxA base) w))))"
proof -
  let ?P = "fst (run_pool d as (NewPool count grp itv ttl maxA base) w)"
  let ?n = "if count \<le> 0 then 4 else nat count"
  have workers: "map fst (GetWorkers ?P) = map (\<lambda>i. \<lparr>w_id = worker_name i, w_group = grp, w_interval = itv, w_ttl = ttl,
      w_maxAttempts = maxA, w_baseDelay = base\<rparr>) [0..<?n]"
    using run_pool_workers [of d as "NewPool count grp itv ttl maxA base" w]
    by (simp add: GetWorkers_def NewPool_def comp_def Let_def)
  then have "map (w_id \<circ> fst) (GetWorkers ?P) = map worker_name [0..<?n]"
    unfolding map_map [symmetric] by (simp add: comp_def)
  then have "distinct (map (w_id \<circ> fst) (GetWorkers ?P))"
    by (simp add: distinct_map inj_on_def worker_name_inj)
  with workers show ?thesis by (simp add: worker_name_def)
qed

text \<open>
  C20 When \<open>Pool.Stop\<close> has returned, every worker of the pool has stopped and none of its goroutines is
  left: no job loop, no heartbeat and no scheduled retry, however their steps interleaved. No worker ever
  fails to start.
\<close>

theorem pool_stop_waits:
  assumes "run_pool d as (NewPool count grp itv ttl maxA base) w = (P, w')"
  shows "(pool_stop_returned P \<longrightarrow>
      (\<forall>(p, s) \<in> set (GetWorkers P).
         status s = StatusStopped \<and> loop s = LoopExited \<and> heart s = HeartExited \<and> retries s = [] \<and> wg s = 0)) \<and>
    fst (pool_start_next d P v) = None"
proof -
  have ok: "pool_ok P" using run_pool_ok [OF NewPool_ok, of d as count grp itv ttl maxA base w] assms by simp
  then show ?thesis using pool_returned_idle [OF ok] pool_start_next_ok [OF ok, of d v] by blast
qed

theorem pool_stop_waits_witness:
  "\<exists>P. fst (run_pool quiet_deps [PoolStart, PoolStartNext, PoolStartNext, PoolHeart 0 False, PoolStop, PoolStopCall 0,
        PoolLoop 0 False, PoolHeart 0 False, PoolStopCall 0, PoolStopCall 0] (NewPool 1 ''g'' 5 15 3 1) ()) = P \<and>
     pool_stop_returned P \<and> (\<forall>(p, s) \<in> set (GetWorkers P). status s = StatusStopped \<and> loop s = LoopExited)"
proof -
  let ?as = "[PoolStart, PoolStartNext, PoolStartNext, PoolHeart 0 False, PoolStop, PoolStopCall 0,
        PoolLoop 0 False, PoolHeart 0 False, PoolStopCall 0, PoolStopCall 0] :: unit pool_act list"
  obtain P w where r: "run_pool quiet_deps ?as (NewPool 1 ''g'' 5 15 3 1) () = (P, w)" by (metis surj_pair)
  have "pool_stop_returned P"
    using r by (auto simp: NewPool_def pool_start_def pool_start_next_def pool_stop_def own_step_def set_member_def
        stop_call_step_def NewWorker_def Start_def heart_step_def loop_step_def stop_begin_def stop_wake_def stop_finish_def
        apply_opt_def goto_def quiet_deps_def Let_def Broadcast_def pool_stop_returned_def)
  with pool_stop_waits [OF r, of "()"] r show ?thesis by auto
qed

text \<open>
  C28 \<open>Pool.Stop\<close> cannot get stuck: from every state in which it has been called the steps of the workers
  and of its own goroutines alone can bring it to its return, whatever the services answer, as long as
  \<open>Consume\<close> gives up when the context has ended.
\<close>

theorem pool_stop_can_return:
  assumes "\<forall>g name v. fst (consumer d True g name v) = Some (Inl CtxDone)"
    and "run_pool d as (NewPool count grp itv ttl maxA base) w = (P, w')" and "stopped P"
  shows "\<exists>bs. (\<forall>b \<in> set bs. inner_act b) \<and> pool_stop_returned (fst (run_pool d bs P w'))"
proof -
  have "pool_ok P" using run_pool_ok [OF NewPool_ok, of d as count grp itv ttl maxA base w] assms(2) by simp
  then show ?thesis using assms(1,3) by (intro pool_can_return) (simp_all add: obeys_ctx_def)
qed

theorem pool_stop_can_return_witness:
  "\<exists>P bs. fst (run_pool quiet_deps [PoolStart, PoolStartNext, PoolStartNext, PoolStartNext, PoolStop]
        (NewPool 2 ''g'' 5 15 3 1) ()) = P \<and> stopped P \<and> \<not> pool_stop_returned P \<and>
     pool_stop_returned (fst (run_pool quiet_deps bs P ()))"
proof -
  let ?as = "[PoolStart, PoolStartNext, PoolStartNext, PoolStartNext, PoolStop] :: unit pool_act list"
  obtain P w where r: "run_pool quiet_deps ?as (NewPool 2 ''g'' 5 15 3 1) () = (P, w)" by (metis surj_pair)
  have "stopped P \<and> \<not> pool_stop_returned P"
    using r by (auto simp: NewPool_def pool_start_def pool_start_next_def pool_stop_def set_member_def upt_rec
        NewWorker_def Start_def quiet_deps_def Let_def Broadcast_def pool_stop_returned_def)
  with pool_stop_can_return [OF _ r] r show ?thesis by (auto simp: quiet_deps_def)
qed

end
