(* ===== verification/World.thy ===== *)
theory World
  imports WorkerSteps StoreRuns RedisModel
begin

text \<open>
  The wiring of \<open>cmd/worker/main.go\<close> and \<open>cmd/api/main.go\<close>: the world the components share is the
  database and everything outside it (the Redis server, the collectors of the metrics), with a counter
  of the calls made so far. The environment says for each call what the database server does to it, in
  which order it scans the rows, what the clock reads and what the random numbers are. The commands of Redis beside the streams, and
  the collectors, are functions on the outside state.
\<close>

section \<open>World and environment\<close>

record 'r platform =
  Redis_Set :: "string \<Rightarrow> string \<Rightarrow> duration \<Rightarrow> 'r \<Rightarrow> string option \<times> 'r"
  Redis_Exists :: "string \<Rightarrow> 'r \<Rightarrow> (string + int) \<times> 'r"
  Redis_Keys :: "string \<Rightarrow> 'r \<Rightarrow> (string + string list) \<times> 'r"
  Redis_XLen :: "string \<Rightarrow> 'r \<Rightarrow> (string + int) \<times> 'r"
  Redis_Publish :: "string \<Rightarrow> bytes \<Rightarrow> 'r \<Rightarrow> string option \<times> 'r"
  EventsReceived_Add :: "event_type \<Rightarrow> 'r \<Rightarrow> 'r"
  EventsProcessed_Add :: "event_type \<Rightarrow> 'r \<Rightarrow> 'r"
  EventsFailed_Add :: "event_type \<Rightarrow> 'r \<Rightarrow> 'r"
  Duration_Observe :: "event_type \<Rightarrow> time \<Rightarrow> 'r \<Rightarrow> 'r"
  QueueDepth_Set :: "string \<Rightarrow> int \<Rightarrow> 'r \<Rightarrow> 'r"
  ActiveWorkers_Set :: "int \<Rightarrow> 'r \<Rightarrow> 'r"

record ('m, 'r) env =
  client :: "('m, 'r) redis_client"
  plat :: "'r platform"
  json_Marshal :: "event \<Rightarrow> 'm option"
  json_Unmarshal :: "'m \<Rightarrow> event option"
  faults_at :: "nat \<Rightarrow> faults"
  now_at :: "nat \<Rightarrow> time"
  rand_at :: "nat \<Rightarrow> rat"
  scan_order :: "nat \<Rightarrow> event list \<Rightarrow> event list"
  jsonb_in :: "bytes \<Rightarrow> bytes option"
  uuid_Parse :: "string \<Rightarrow> uuid option"
  uuid_Text :: "uuid \<Rightarrow> string"
  float_oor :: "rat \<Rightarrow> go_int64"

record 'r world =
  wDB :: db
  wOut :: 'r
  wCalls :: nat

section \<open>Calls\<close>

definition on_db :: "('m, 'r) env \<Rightarrow> (faults \<Rightarrow> time \<Rightarrow> db \<Rightarrow> 'a \<times> db) \<Rightarrow> 'r world \<Rightarrow> 'a \<times> 'r world" where
  "on_db E f w =
     (case f (faults_at E (wCalls w)) (now_at E (wCalls w)) (wDB w) of
        (r, d) \<Rightarrow> (r, w\<lparr>wDB := d, wCalls := Suc (wCalls w)\<rparr>))"

definition on_out :: "('r \<Rightarrow> 'a \<times> 'r) \<Rightarrow> 'r world \<Rightarrow> 'a \<times> 'r world" where
  "on_out f w = (case f (wOut w) of (r, s) \<Rightarrow> (r, w\<lparr>wOut := s, wCalls := Suc (wCalls w)\<rparr>))"

definition repo_Create :: "('m, 'r) env \<Rightarrow> event \<Rightarrow> 'r world \<Rightarrow> store_error option \<times> 'r world" where
  "repo_Create E e = on_db E (\<lambda>flt now. Create (jsonb_in E) flt e)"

definition repo_UpdateStatus ::
  "('m, 'r) env \<Rightarrow> uuid \<Rightarrow> event_status \<Rightarrow> event_status \<Rightarrow> 'r world \<Rightarrow> store_error option \<times> 'r world" where
  "repo_UpdateStatus E i old new = on_db E (\<lambda>flt now. UpdateStatus flt now i old new)"

definition repo_AssignEvent ::
  "('m, 'r) env \<Rightarrow> uuid \<Rightarrow> string \<Rightarrow> event_status \<Rightarrow> event_status \<Rightarrow> 'r world \<Rightarrow> store_error option \<times> 'r world" where
  "repo_AssignEvent E i wid old new = on_db E (\<lambda>flt now. AssignEvent (uuid_Parse E) flt now i wid old new)"

definition repo_FinalizeEvent :: "('m, 'r) env \<Rightarrow> uuid \<Rightarrow> string \<Rightarrow> 'r world \<Rightarrow> store_error option \<times> 'r world" where
  "repo_FinalizeEvent E i h = on_db E (\<lambda>flt now. FinalizeEvent flt now i h)"

definition repo_RecordFailure ::
  "('m, 'r) env \<Rightarrow> uuid \<Rightarrow> int \<Rightarrow> 'r world \<Rightarrow> (event_status \<times> store_error option) \<times> 'r world" where
  "repo_RecordFailure E i m = on_db E (\<lambda>flt now. RecordFailure flt now i m)"

definition repo_GetStaleEvents ::
  "('m, 'r) env \<Rightarrow> event_status \<Rightarrow> time \<Rightarrow> 'r world \<Rightarrow> (store_error + event list) \<times> 'r world" where
  "repo_GetStaleEvents E st t w = on_db E (\<lambda>flt now d. (GetStaleEvents (scan_order E (wCalls w)) flt st t d, d)) w"

definition repo_GetByID :: "('m, 'r) env \<Rightarrow> uuid \<Rightarrow> 'r world \<Rightarrow> (store_error + event) \<times> 'r world" where
  "repo_GetByID E i = on_db E (\<lambda>flt now d. (GetByID flt i d, d))"

definition repo_List ::
  "('m, 'r) env \<Rightarrow> int \<Rightarrow> int \<Rightarrow> 'r world \<Rightarrow> (store_error + event list) \<times> 'r world" where
  "repo_List E l off w = on_db E (\<lambda>flt now d. (ListEvents (scan_order E (wCalls w)) flt l off d, d)) w"

definition queue_Publish :: "('m, 'r) env \<Rightarrow> event \<Rightarrow> 'r world \<Rightarrow> queue_error option \<times> 'r world" where
  "queue_Publish E e = on_out (Publish (client E) (json_Marshal E) e)"

definition queue_Ack :: "('m, 'r) env \<Rightarrow> job \<Rightarrow> 'r world \<Rightarrow> queue_error option \<times> 'r world" where
  "queue_Ack E j = on_out (Ack (client E) j)"

definition queue_Retry :: "('m, 'r) env \<Rightarrow> job \<Rightarrow> 'r world \<Rightarrow> queue_error option \<times> 'r world" where
  "queue_Retry E j = on_out (Retry (client E) (json_Marshal E) j)"

definition queue_Consume ::
  "('m, 'r) env \<Rightarrow> bool \<Rightarrow> string \<Rightarrow> string \<Rightarrow> 'r world \<Rightarrow> (queue_error + job) option \<times> 'r world" where
  "queue_Consume E fin grp name = on_out (consume_round (client E) (json_Unmarshal E) fin grp name)"

text \<open>\<open>RedisHeartbeater.Ping\<close> and \<open>RedisBroadcaster.Broadcast\<close>; an error of the latter is only logged.\<close>

definition heartbeat_key :: "string \<Rightarrow> string" where
  "heartbeat_key wid = ''worker:'' @ wid @ '':heartbeat''"

definition Ping :: "('m, 'r) env \<Rightarrow> string \<Rightarrow> duration \<Rightarrow> 'r world \<Rightarrow> string option \<times> 'r world" where
  "Ping E wid ttl w =
     (case on_out (Redis_Set (plat E) (heartbeat_key wid) ''alive'' ttl) w of
        (None, w) \<Rightarrow> (None, w)
      | (Some err, w) \<Rightarrow> (Some (''redis heartbeat failed: '' @ err), w))"

definition RedisPubSubChannel :: string where
  "RedisPubSubChannel = ''ws:events''"

definition RedisBroadcast :: "('m, 'r) env \<Rightarrow> bytes \<Rightarrow> 'r world \<Rightarrow> 'r world" where
  "RedisBroadcast E msg w = snd (on_out (Redis_Publish (plat E) RedisPubSubChannel msg) w)"

definition out_only :: "('r \<Rightarrow> 'r) \<Rightarrow> 'r world \<Rightarrow> 'r world" where
  "out_only f w = w\<lparr>wOut := f (wOut w)\<rparr>"

section \<open>What the worker process is built from\<close>

definition main_maxAttempts :: int where
  "main_maxAttempts = 3"

definition main_baseDelay :: duration where
  "main_baseDelay = time_Second"

text \<open>The processors only log; the registry exists by \<open>main_registry_lookup\<close>.\<close>

definition main_processor :: "'w processor" where
  "main_processor e w =
     (case main_registry (\<lambda>_ _ w. w) of None \<Rightarrow> (Some (ErrProcessor ''failed to register processor''), w)
      | Some r \<Rightarrow> Registry_Process r e w)"

definition worker_main_deps :: "('m, 'r) env \<Rightarrow> 'r world processor \<Rightarrow> 'r world worker_deps" where
  "worker_main_deps E proc =
     \<lparr> consumer = queue_Consume E, acker = queue_Ack E, retrier = queue_Retry E, heartbeater = Ping E,
       processor = proc, recorder = repo_RecordFailure E, updater_UpdateStatus = repo_UpdateStatus E,
       updater_AssignEvent = repo_AssignEvent E, updater_FinalizeEvent = repo_FinalizeEvent E,
       broadcaster = Some (RedisBroadcast E),
       EventsProcessed_Inc = (\<lambda>t. out_only (EventsProcessed_Add (plat E) t)),
       EventsFailed_Inc = (\<lambda>t. out_only (EventsFailed_Add (plat E) t)),
       ProcessingDuration_Observe = (\<lambda>t dur. out_only (Duration_Observe (plat E) t dur)),
       time_Now = (\<lambda>w. now_at E (wCalls w)),
       rand_Float64 = (\<lambda>w. (rand_at E (wCalls w), w\<lparr>wCalls := Suc (wCalls w)\<rparr>)),
       float_out_of_range = float_oor E, uuid_String = uuid_Text E \<rparr>"

end
