(* ===== verification/Scheduler.thy ===== *)
theory Scheduler
  imports World
begin

text \<open>
  \<open>internal/scheduler/scheduler.go\<close>: the sweep that puts stranded events back into the queue, and the
  metrics it updates. \<open>runSweep\<close> and \<open>updateMetrics\<close> are the code read from top to bottom;
  \<open>sched_step\<close> is the same code as single calls between which the other processes act.
\<close>

section \<open>The sweep\<close>

type_synonym dead_cache = "string \<rightharpoonup> bool"

definition Exists_heartbeat :: "('m, 'r) env \<Rightarrow> string \<Rightarrow> 'r world \<Rightarrow> (string + int) \<times> 'r world" where
  "Exists_heartbeat E workerID = on_out (Redis_Exists (plat E) (heartbeat_key workerID))"

text \<open>
  The first half of the loop's body: whether the event is to be recovered, with the cache \<open>deadWorkers\<close>
  afterwards.
\<close>

definition needs_recovery ::
  "('m, 'r) env \<Rightarrow> event_status \<Rightarrow> event \<Rightarrow> dead_cache \<Rightarrow> 'r world \<Rightarrow> bool \<times> dead_cache \<times> 'r world" where
  "needs_recovery E st e deadWorkers w =
     (if st = StatusProcessing then
        (case eWorkerID e of
           None \<Rightarrow> (False, deadWorkers, w)
         | Some u \<Rightarrow>
             let workerID = uuid_Text E u in
             (case deadWorkers workerID of
                Some dead \<Rightarrow> (dead, deadWorkers, w)
              | None \<Rightarrow>
                  (case Exists_heartbeat E workerID w of
                     (Inl err, w) \<Rightarrow> (False, deadWorkers, w)
                   | (Inr res, w) \<Rightarrow> (res = 0, deadWorkers(workerID \<mapsto> (res = 0)), w))))
      else (True, deadWorkers, w))"

definition recover_publish :: "('m, 'r) env \<Rightarrow> event \<Rightarrow> 'r world \<Rightarrow> queue_error option \<times> 'r world" where
  "recover_publish E e = queue_Publish E (e\<lparr>eStatus := StatusQueued\<rparr>)"

definition recover_reset :: "('m, 'r) env \<Rightarrow> event_status \<Rightarrow> event \<Rightarrow> 'r world \<Rightarrow> store_error option \<times> 'r world" where
  "recover_reset E st e = repo_AssignEvent E (eID e) '''' st StatusQueued"

definition recover_event :: "('m, 'r) env \<Rightarrow> event_status \<Rightarrow> event \<Rightarrow> 'r world \<Rightarrow> 'r world" where
  "recover_event E st e w =
     (case recover_publish E e w of
        (Some err, w) \<Rightarrow> w
      | (None, w) \<Rightarrow> snd (recover_reset E st e w))"

fun recover_list :: "('m, 'r) env \<Rightarrow> event_status \<Rightarrow> event list \<Rightarrow> dead_cache \<Rightarrow> 'r world \<Rightarrow> 'r world" where
  "recover_list E st [] deadWorkers w = w"
| "recover_list E st (e # es) deadWorkers w =
     (case needs_recovery E st e deadWorkers w of
        (recover, deadWorkers, w) \<Rightarrow>
          recover_list E st es deadWorkers (if recover then recover_event E st e w else w))"

definition query_stale ::
  "('m, 'r) env \<Rightarrow> event_status \<Rightarrow> duration \<Rightarrow> 'r world \<Rightarrow> (store_error + event list) \<times> 'r world" where
  "query_stale E st age w = repo_GetStaleEvents E st (now_at E (wCalls w) + sint (- age)) w"

definition recoverEvents :: "('m, 'r) env \<Rightarrow> event_status \<Rightarrow> duration \<Rightarrow> 'r world \<Rightarrow> 'r world" where
  "recoverEvents E st age w =
     (case query_stale E st age w of
        (Inl err, w) \<Rightarrow> w
      | (Inr evs, w) \<Rightarrow> if evs = [] then w else recover_list E st evs Map.empty w)"

definition processing_age :: duration where
  "processing_age = 30 * time_Second"

definition retrying_age :: duration where
  "retrying_age = 5 * time_Minute"

definition runSweep :: "('m, 'r) env \<Rightarrow> 'r world \<Rightarrow> 'r world" where
  "runSweep E w = recoverEvents E StatusRetrying retrying_age (recoverEvents E StatusProcessing processing_age w)"

section \<open>Metrics\<close>

definition update_active :: "('m, 'r) env \<Rightarrow> 'r world \<Rightarrow> 'r world" where
  "update_active E w =
     (case on_out (Redis_Keys (plat E) ''worker:*:heartbeat'') w of
        (Inl err, w) \<Rightarrow> w
      | (Inr keys, w) \<Rightarrow> out_only (ActiveWorkers_Set (plat E) (int (length keys))) w)"

definition update_depth :: "('m, 'r) env \<Rightarrow> string \<Rightarrow> 'r world \<Rightarrow> 'r world" where
  "update_depth E stream w =
     (case on_out (Redis_XLen (plat E) stream) w of
        (Inl err, w) \<Rightarrow> w
      | (Inr l, w) \<Rightarrow> out_only (QueueDepth_Set (plat E) stream l) w)"

definition updateMetrics :: "('m, 'r) env \<Rightarrow> 'r world \<Rightarrow> 'r world" where
  "updateMetrics E w = fold (update_depth E) AllStreams (update_active E w)"

definition sched_tick :: "('m, 'r) env \<Rightarrow> 'r world \<Rightarrow> 'r world" where
  "sched_tick E w = updateMetrics E (runSweep E w)"

section \<open>Steps\<close>

datatype sched_pc =
    SchedWait
  | SchedQuery event_status duration
  | SchedNext event_status "event list" dead_cache
  | SchedPublish event_status event "event list" dead_cache
  | SchedReset event_status event "event list" dead_cache
  | SchedActive
  | SchedDepth "string list"
  | SchedStopped

definition NewScheduler :: sched_pc where
  "NewScheduler = SchedWait"

text \<open>Where the sweep goes on after the events of a status.\<close>

definition sched_after :: "event_status \<Rightarrow> sched_pc" where
  "sched_after st = (if st = StatusProcessing then SchedQuery StatusRetrying retrying_age else SchedActive)"

text \<open>
  \<open>tick\<close> and \<open>fin\<close> resolve the \<open>select\<close>: whether it takes the branch of the ticker or that of the ended
  context. With both ready it may take either.
\<close>

fun sched_step :: "('m, 'r) env \<Rightarrow> bool \<Rightarrow> bool \<Rightarrow> sched_pc \<Rightarrow> 'r world \<Rightarrow> (sched_pc \<times> 'r world) option" where
  "sched_step E tick fin SchedWait w =
     (if fin then Some (SchedStopped, w)
      else if tick then Some (SchedQuery StatusProcessing processing_age, w)
      else None)"
| "sched_step E tick fin (SchedQuery st age) w =
     (case query_stale E st age w of
        (Inl err, w) \<Rightarrow> Some (sched_after st, w)
      | (Inr evs, w) \<Rightarrow> Some (if evs = [] then sched_after st else SchedNext st evs Map.empty, w))"
| "sched_step E tick fin (SchedNext st [] deadWorkers) w = Some (sched_after st, w)"
| "sched_step E tick fin (SchedNext st (e # es) deadWorkers) w =
     (case needs_recovery E st e deadWorkers w of
        (recover, deadWorkers, w) \<Rightarrow>
          Some (if recover then SchedPublish st e es deadWorkers else SchedNext st es deadWorkers, w))"
| "sched_step E tick fin (SchedPublish st e es deadWorkers) w =
     (case recover_publish E e w of
        (Some err, w) \<Rightarrow> Some (SchedNext st es deadWorkers, w)
      | (None, w) \<Rightarrow> Some (SchedReset st e es deadWorkers, w))"
| "sched_step E tick fin (SchedReset st e es deadWorkers) w =
     Some (SchedNext st es deadWorkers, snd (recover_reset E st e w))"
| "sched_step E tick fin SchedActive w = Some (SchedDepth AllStreams, update_active E w)"
| "sched_step E tick fin (SchedDepth []) w = Some (SchedWait, w)"
| "sched_step E tick fin (SchedDepth (stream # rest)) w = Some (SchedDepth rest, update_depth E stream w)"
| "sched_step E tick fin SchedStopped w = None"

text \<open>The steps from one \<open>select\<close> to the next, with nothing in between.\<close>

fun run_sched :: "('m, 'r) env \<Rightarrow> nat \<Rightarrow> sched_pc \<Rightarrow> 'r world \<Rightarrow> 'r world option" where
  "run_sched E 0 pc w = None"
| "run_sched E (Suc n) pc w =
     (if pc = SchedWait then Some w
      else case sched_step E True False pc w of None \<Rightarrow> None | Some (pc', w') \<Rightarrow> run_sched E n pc' w')"

end
