(* ===== verification/WorkerSafety.thy ===== *)
theory WorkerSafety
  imports WorkerProps
begin

text \<open>
  What the worker may rely on, as a locale: the services it calls, seen through the status of the rows
  and the messages that still wait for an acknowledgement. In it: a worker gives up a message only when
  its event is settled, or was not queued when the worker tried to claim it.
\<close>

definition settled :: "event_status option \<Rightarrow> bool" where
  "settled st \<longleftrightarrow> st = Some StatusCompleted \<or> st = Some StatusFailed"

definition same_message :: "job \<Rightarrow> job \<Rightarrow> bool" where
  "same_message j j' \<longleftrightarrow> jReceipt j = jReceipt j' \<and> jQueue j = jQueue j' \<and> jGroup j = jGroup j'"

lemma same_message_failed_attempt [simp]: "same_message j' (failed_attempt j) \<longleftrightarrow> same_message j' j"
  by (simp add: same_message_def failed_attempt_def)

lemma eID_failed_attempt [simp]: "eID (jEvent (failed_attempt j)) = eID (jEvent j)"
  by (simp add: failed_attempt_def)

text \<open>The job the loop has in hand.\<close>

fun job_at :: "loop_pc \<Rightarrow> job option" where
  "job_at (AtBusy j) = Some j"
| "job_at (AtAssign j) = Some j"
| "job_at (AtAckStale j) = Some j"
| "job_at (AtAnnounce j) = Some j"
| "job_at (AtProcess j t) = Some j"
| "job_at (AtFinalize j t) = Some j"
| "job_at (AtAckDuplicate j) = Some j"
| "job_at (AtAckDone j t) = Some j"
| "job_at (AtReportDone j t) = Some j"
| "job_at (AtRecordFailure j) = Some j"
| "job_at (AtFailedMetric j) = Some j"
| "job_at (AtAckFailed j) = Some j"
| "job_at (AtReportFailed j) = Some j"
| "job_at (AtSchedule j) = Some j"
| "job_at _ = None"

section \<open>Reachable states\<close>

text \<open>
  A worker among others: its own steps in any order, and between them whatever the others do, as long as
  they keep the world sane and leave settled events alone.
\<close>

inductive worker_reach ::
  "'w worker_deps \<Rightarrow> worker \<Rightarrow> ('w \<Rightarrow> uuid \<Rightarrow> event_status option) \<Rightarrow> ('w \<Rightarrow> bool) \<Rightarrow> worker_state \<Rightarrow> 'w \<Rightarrow> bool"
  for d p status_of sane where
  new: "sane w \<Longrightarrow> worker_reach d p status_of sane NewWorker w"
| own: "worker_reach d p status_of sane s w \<Longrightarrow> (\<And>v. a \<noteq> ActWorld v) \<Longrightarrow> act_step d p a s w = (s', w') \<Longrightarrow>
    worker_reach d p status_of sane s' w'"
| others: "worker_reach d p status_of sane s w \<Longrightarrow> sane w' \<Longrightarrow>
    (\<And>k. settled (status_of w k) \<Longrightarrow> status_of w' k = status_of w k) \<Longrightarrow> worker_reach d p status_of sane s w'"

text \<open>
  Where the job in hand comes from: \<open>Consume\<close> gave it out at some moment of the same run. The code only
  counts up the attempts of the event it holds.
\<close>

definition handed_out ::
  "'w worker_deps \<Rightarrow> worker \<Rightarrow> ('w \<Rightarrow> uuid \<Rightarrow> event_status option) \<Rightarrow> ('w \<Rightarrow> bool) \<Rightarrow> job \<Rightarrow> bool" where
  "handed_out d p status_of sane j \<longleftrightarrow>
     (\<exists>s w w' j0. worker_reach d p status_of sane s w \<and>
        consumer d (ctx_done s) (w_group p) (w_id p) w = (Some (Inr j0), w') \<and>
        same_message j0 j \<and> eID (jEvent j0) = eID (jEvent j))"

lemma same_message_refl [simp]: "same_message j j"
  by (simp add: same_message_def)

lemma loop_step_job:
  assumes "loop_step d p timer s w = Some (s', w')" and "job_at (loop s') = Some j"
  obtains (kept) j0 where "job_at (loop s) = Some j0" "same_message j0 j" "eID (jEvent j0) = eID (jEvent j)"
  | (consumed) "consumer d (ctx_done s) (w_group p) (w_id p) w = (Some (Inr j), w')"
  using assms by (cases "loop s") (auto simp: loop_step_def goto_def split: prod.splits option.splits sum.splits if_splits)

lemma same_message_trans: "same_message i j \<Longrightarrow> same_message j k \<Longrightarrow> same_message i k"
  by (simp add: same_message_def)

lemma handed_out_kept:
  "handed_out d p status_of sane j0 \<Longrightarrow> same_message j0 j \<Longrightarrow> eID (jEvent j0) = eID (jEvent j) \<Longrightarrow>
   handed_out d p status_of sane j"
  unfolding handed_out_def by (metis same_message_trans)

lemma job_handed_out:
  "worker_reach d p status_of sane s w \<Longrightarrow> job_at (loop s) = Some j \<Longrightarrow> handed_out d p status_of sane j"
proof (induction arbitrary: j rule: worker_reach.induct)
  case (new w)
  then show ?case by (simp add: NewWorker_def)
next
  case (own s w a s' w')
  show ?case
  proof (cases "loop s' = loop s")
    case True
    with own.IH own.prems show ?thesis by simp
  next
    case False
    show ?thesis
    proof (cases a)
      case ActStart
      with own.hyps own.prems False show ?thesis by (auto simp: Start_def Let_def split: if_splits)
    next
      case (ActLoop timer)
      with own.hyps False have l: "loop_step d p timer s w = Some (s', w')"
        by (cases "loop_step d p timer s w") (auto simp: apply_opt_def)
      from l own.prems show ?thesis
      proof (cases rule: loop_step_job)
        case (kept j0)
        with own.IH handed_out_kept show ?thesis by metis
      next
        case consumed
        with own.hyps(1) show ?thesis unfolding handed_out_def by (metis same_message_refl)
      qed
    qed (use own.hyps False in \<open>auto simp: stop_begin_def stop_wake_def stop_finish_def heart_step_def retry_step_def
        retry_exit_def apply_opt_def split: option.splits if_splits heart_pc.splits retry_pc.splits prod.splits\<close>)
  qed
next
  case (others s w w')
  then show ?case by simp
qed

text \<open>Where the loop is about to acknowledge a finished event, the event is settled.\<close>

fun settled_at :: "('w \<Rightarrow> uuid \<Rightarrow> event_status option) \<Rightarrow> 'w \<Rightarrow> loop_pc \<Rightarrow> bool" where
  "settled_at status_of w (AtAckDuplicate j) = settled (status_of w (eID (jEvent j)))"
| "settled_at status_of w (AtAckDone j t) = settled (status_of w (eID (jEvent j)))"
| "settled_at status_of w (AtFailedMetric j) = settled (status_of w (eID (jEvent j)))"
| "settled_at status_of w (AtAckFailed j) = settled (status_of w (eID (jEvent j)))"
| "settled_at status_of w _ = True"

lemma settled_at_mono:
  "settled_at status_of w pc \<Longrightarrow> (\<And>k. settled (status_of w k) \<Longrightarrow> status_of w' k = status_of w k) \<Longrightarrow>
   settled_at status_of w' pc"
  by (cases pc) auto

section \<open>The services\<close>

locale job_services =
  fixes d :: "'w worker_deps"
    and status_of :: "'w \<Rightarrow> uuid \<Rightarrow> event_status option"
    and waits :: "'w \<Rightarrow> job \<Rightarrow> bool"
    and sane :: "'w \<Rightarrow> bool"
  assumes assign: "sane w \<Longrightarrow> updater_AssignEvent d i name StatusQueued StatusProcessing w = (r, w') \<Longrightarrow>
      sane w' \<and> waits w' = waits w \<and> (\<forall>k. settled (status_of w k) \<longrightarrow> status_of w' k = status_of w k) \<and>
      (r = Some ErrInvalidStateTransition \<longrightarrow> status_of w i \<noteq> Some StatusQueued)"
    and finalize: "sane w \<Longrightarrow> updater_FinalizeEvent d i h w = (r, w') \<Longrightarrow>
      sane w' \<and> waits w' = waits w \<and> (\<forall>k. settled (status_of w k) \<longrightarrow> status_of w' k = status_of w k) \<and>
      (r = None \<or> r = Some ErrAlreadyFinalized \<longrightarrow> status_of w' i = Some StatusCompleted)"
    and recorded: "sane w \<Longrightarrow> recorder d i m w = ((st, r), w') \<Longrightarrow>
      sane w' \<and> waits w' = waits w \<and> (\<forall>k. settled (status_of w k) \<longrightarrow> status_of w' k = status_of w k) \<and>
      (r = None \<and> st = StatusFailed \<longrightarrow> status_of w' i = Some StatusFailed)"
    and ack: "sane w \<Longrightarrow> acker d j w = (q, w') \<Longrightarrow>
      sane w' \<and> status_of w' = status_of w \<and> (\<forall>j'. waits w j' \<longrightarrow> waits w' j' \<or> same_message j' j)"
    and process: "sane w \<Longrightarrow> processor d e w = (p, w') \<Longrightarrow> sane w' \<and> status_of w' = status_of w \<and> waits w' = waits w"
    and consume: "sane w \<Longrightarrow> consumer d fin grp name w = (c, w') \<Longrightarrow>
      sane w' \<and> status_of w' = status_of w \<and> (\<forall>j. waits w j \<longrightarrow> waits w' j)"
    and send: "sane w \<Longrightarrow> broadcaster d = Some f \<Longrightarrow>
      sane (f msg w) \<and> status_of (f msg w) = status_of w \<and> waits (f msg w) = waits w"
    and count_processed: "sane w \<Longrightarrow> sane (EventsProcessed_Inc d t w) \<and>
      status_of (EventsProcessed_Inc d t w) = status_of w \<and> waits (EventsProcessed_Inc d t w) = waits w"
    and count_failed: "sane w \<Longrightarrow> sane (EventsFailed_Inc d t w) \<and>
      status_of (EventsFailed_Inc d t w) = status_of w \<and> waits (EventsFailed_Inc d t w) = waits w"
    and observe: "sane w \<Longrightarrow> sane (ProcessingDuration_Observe d t dur w) \<and>
      status_of (ProcessingDuration_Observe d t dur w) = status_of w \<and> waits (ProcessingDuration_Observe d t dur w) = waits w"
    and ping: "sane w \<Longrightarrow> heartbeater d name ttl w = (pe, w') \<Longrightarrow> sane w' \<and> status_of w' = status_of w \<and> waits w' = waits w"
    and retry: "sane w \<Longrightarrow> retrier d j w = (q, w') \<Longrightarrow> sane w' \<and> status_of w' = status_of w"
    and requeued: "sane w \<Longrightarrow> updater_UpdateStatus d i StatusRetrying StatusQueued w = (r, w') \<Longrightarrow>
      sane w' \<and> waits w' = waits w \<and> (\<forall>k. settled (status_of w k) \<longrightarrow> status_of w' k = status_of w k)"
    and random: "sane w \<Longrightarrow> rand_Float64 d w = (u, w') \<Longrightarrow> sane w' \<and> status_of w' = status_of w \<and> waits w' = waits w"
begin

text \<open>A change of the world that loses no message, or only the one of \<open>j\<close>, and keeps what is settled.\<close>

definition keeps :: "'w \<Rightarrow> 'w \<Rightarrow> bool" where
  "keeps w w' \<longleftrightarrow> sane w' \<and> (\<forall>j. waits w j \<longrightarrow> waits w' j) \<and>
     (\<forall>k. settled (status_of w k) \<longrightarrow> status_of w' k = status_of w k)"

definition drops :: "job \<Rightarrow> 'w \<Rightarrow> 'w \<Rightarrow> bool" where
  "drops j w w' \<longleftrightarrow> sane w' \<and> (\<forall>j'. waits w j' \<longrightarrow> waits w' j' \<or> same_message j' j) \<and>
     (\<forall>k. settled (status_of w k) \<longrightarrow> status_of w' k = status_of w k)"

lemma keeps_refl: "sane w \<Longrightarrow> keeps w w"
  by (simp add: keeps_def)

lemma keeps_trans: "keeps w w1 \<Longrightarrow> keeps w1 w2 \<Longrightarrow> keeps w w2"
  by (simp add: keeps_def)

lemma keeps_drops: "keeps w w1 \<Longrightarrow> drops j w1 w2 \<Longrightarrow> drops j w w2"
  by (simp add: keeps_def drops_def)

lemma drops_keeps: "drops j w w1 \<Longrightarrow> keeps w1 w2 \<Longrightarrow> drops j w w2"
  by (simp add: keeps_def drops_def) blast

lemma keeps_sane: "keeps w w' \<Longrightarrow> sane w'"
  by (simp add: keeps_def)

lemma drops_sane: "drops j w w' \<Longrightarrow> sane w'"
  by (simp add: drops_def)

lemma keeps_imp_drops: "keeps w w' \<Longrightarrow> drops j w w'"
  by (simp add: keeps_def drops_def)

lemma keeps_settled: "keeps w w' \<Longrightarrow> settled (status_of w k) \<Longrightarrow> settled (status_of w' k)"
  by (simp add: keeps_def)

lemma drops_settled: "drops j w w' \<Longrightarrow> settled (status_of w k) \<Longrightarrow> settled (status_of w' k)"
  by (simp add: drops_def)

lemma Broadcast_keeps: "sane w \<Longrightarrow> keeps w (Broadcast d msg w)"
  using send [of w _ msg] by (auto simp: Broadcast_def keeps_def split: option.split)

lemma ack_drops: "sane w \<Longrightarrow> drops j w (snd (acker d j w))"
  using ack [of w j "fst (acker d j w)" "snd (acker d j w)"] by (auto simp: drops_def)

lemma report_done_keeps:
  assumes "sane w"
  shows "keeps w (report_done d j t w)"
proof -
  let ?w1 = "EventsProcessed_Inc d (eType (jEvent j)) w"
  let ?w2 = "ProcessingDuration_Observe d (eType (jEvent j)) (time_Now d ?w1 - t) ?w1"
  have 1: "keeps w ?w1" using count_processed [OF assms] by (simp add: keeps_def)
  moreover have 2: "keeps ?w1 ?w2" using observe [OF keeps_sane [OF 1]] by (simp add: keeps_def)
  ultimately have "keeps w ?w2" by (rule keeps_trans)
  from keeps_trans [OF this Broadcast_keeps [OF keeps_sane [OF 2]]] show ?thesis
    by (simp add: report_done_def Let_def)
qed

lemma report_failed_keeps: "sane w \<Longrightarrow> keeps w (report_failed d j w)"
  unfolding report_failed_def by (rule Broadcast_keeps)

lemma schedule_keeps: "sane w \<Longrightarrow> schedule_retry d p j w = (r, w') \<Longrightarrow> keeps w w'"
  using random [of w "fst (rand_Float64 d w)" "snd (rand_Float64 d w)"]
  by (auto simp: schedule_retry_def keeps_def split: prod.splits)


text \<open>One step of the loop.\<close>

definition safe_step :: "worker_state \<Rightarrow> 'w \<Rightarrow> worker_state \<Rightarrow> 'w \<Rightarrow> bool" where
  "safe_step s w s' w' \<longleftrightarrow> settled_at status_of w' (loop s') \<and>
     (keeps w w' \<or> (\<exists>j. job_at (loop s) = Some j \<and> drops j w w' \<and> (loop s = AtAckStale j \<or> settled (status_of w (eID (jEvent j)))))) \<and>
     (\<forall>j. loop s' = AtAckStale j \<longrightarrow> status_of w (eID (jEvent j)) \<noteq> Some StatusQueued)"

lemma safe_keeps:
  "keeps w w' \<Longrightarrow> settled_at status_of w' (loop s') \<Longrightarrow> (\<forall>j. loop s' \<noteq> AtAckStale j) \<Longrightarrow> safe_step s w s' w'"
  by (simp add: safe_step_def)

lemma safe_ack:
  "sane w \<Longrightarrow> job_at (loop s) = Some j \<Longrightarrow> loop s = AtAckStale j \<or> settled (status_of w (eID (jEvent j))) \<Longrightarrow> w' = snd (acker d j w) \<Longrightarrow>
   settled_at status_of w' (loop s') \<Longrightarrow> (\<forall>j. loop s' \<noteq> AtAckStale j) \<Longrightarrow> safe_step s w s' w'"
  using ack_drops [of w j] by (auto simp: safe_step_def)

lemma loop_step_safe:
  assumes "sane w" and "settled_at status_of w (loop s)" and "loop_step d p timer s w = Some (s', w')"
  shows "safe_step s w s' w'"
proof (cases "loop s")
  case AtConsume
  obtain r v where c: "consumer d (ctx_done s) (w_group p) (w_id p) w = (r, v)" by fastforce
  then have "keeps w v" using consume [OF assms(1) c] by (simp add: keeps_def)
  with AtConsume assms(3) c show ?thesis
    by (cases r) (auto simp: loop_step_def goto_def intro: safe_keeps split: sum.splits if_splits)
next
  case (AtAssign j)
  obtain r v where c: "updater_AssignEvent d (eID (jEvent j)) (w_id p) StatusQueued StatusProcessing w = (r, v)" by fastforce
  from assign [OF assms(1) c] AtAssign assms(3) c show ?thesis
    by (cases r) (auto simp: loop_step_def goto_def safe_step_def keeps_def split: if_splits)
next
  case (AtAckStale j)
  with assms show ?thesis by (auto simp: loop_step_def goto_def intro: safe_ack)
next
  case (AtProcess j t)
  obtain r v where c: "processor d (jEvent j) w = (r, v)" by fastforce
  then have "keeps w v" using process [OF assms(1) c] by (simp add: keeps_def)
  with AtProcess assms(3) c show ?thesis
    by (cases r) (auto simp: loop_step_def goto_def intro: safe_keeps)
next
  case (AtAnnounce j)
  with assms show ?thesis by (auto simp: loop_step_def goto_def intro!: safe_keeps Broadcast_keeps)
next
  case (AtFinalize j t)
  obtain r v where c: "updater_FinalizeEvent d (eID (jEvent j)) resultHash w = (r, v)" by fastforce
  from finalize [OF assms(1) c] AtFinalize assms(3) c show ?thesis
    by (cases r) (auto simp: loop_step_def goto_def safe_step_def keeps_def settled_def split: if_splits)
next
  case (AtAckDuplicate j)
  with assms show ?thesis by (auto simp: loop_step_def goto_def intro: safe_ack)
next
  case (AtAckDone j t)
  with assms show ?thesis by (auto simp: loop_step_def goto_def intro: safe_ack)
next
  case (AtReportDone j t)
  with assms show ?thesis by (auto simp: loop_step_def goto_def intro!: safe_keeps report_done_keeps)
next
  case (AtRecordFailure j)
  obtain st r v where c: "recorder d (eID (jEvent j)) (w_maxAttempts p) w = ((st, r), v)" by (metis surj_pair)
  from recorded [OF assms(1) c] AtRecordFailure assms(3) c show ?thesis
    by (cases r) (auto simp: loop_step_def goto_def safe_step_def keeps_def settled_def split: if_splits)
next
  case (AtFailedMetric j)
  have k: "keeps w (EventsFailed_Inc d (eType (jEvent j)) w)"
    using count_failed [OF assms(1)] by (simp add: keeps_def)
  moreover have "settled (status_of (EventsFailed_Inc d (eType (jEvent j)) w) (eID (jEvent j)))"
    using keeps_settled [OF k] assms(2) AtFailedMetric by simp
  ultimately show ?thesis using AtFailedMetric assms(3) by (auto simp: loop_step_def goto_def intro!: safe_keeps)
next
  case (AtAckFailed j)
  with assms show ?thesis by (auto simp: loop_step_def goto_def intro: safe_ack)
next
  case (AtReportFailed j)
  with assms show ?thesis by (auto simp: loop_step_def goto_def intro!: safe_keeps report_failed_keeps)
next
  case (AtSchedule j)
  obtain j' delay v where c: "schedule_retry d p j w = ((j', delay), v)" by (metis surj_pair)
  with AtSchedule assms(3) schedule_keeps [OF assms(1) c] show ?thesis
    by (auto simp: loop_step_def goto_def intro!: safe_keeps)
qed (use assms keeps_refl in \<open>auto simp: loop_step_def goto_def intro!: safe_keeps split: if_splits\<close>)


text \<open>Every own step keeps the world sane and what is settled.\<close>

definition calm :: "'w \<Rightarrow> 'w \<Rightarrow> bool" where
  "calm w w' \<longleftrightarrow> sane w' \<and> (\<forall>k. settled (status_of w k) \<longrightarrow> status_of w' k = status_of w k)"

lemma calm_refl: "sane w \<Longrightarrow> calm w w"
  by (simp add: calm_def)

lemma keeps_calm: "keeps w w' \<Longrightarrow> calm w w'"
  by (simp add: keeps_def calm_def)

lemma safe_step_calm: "safe_step s w s' w' \<Longrightarrow> calm w w'"
  by (auto simp: safe_step_def keeps_def drops_def calm_def)

lemma heart_step_calm:
  assumes "sane w" and "heart_step d p tick s w = Some (s', w')"
  shows "calm w w'"
proof -
  have "calm w (snd (heartbeater d (w_id p) (w_ttl p) w))"
    using ping [OF assms(1), of "w_id p" "w_ttl p"] by (metis calm_def prod.collapse)
  with assms show ?thesis
    by (auto simp: heart_step_def calm_refl split: heart_pc.splits if_splits)
qed

lemma retry_step_calm:
  assumes "sane w" and "retry_step d timer i s w = Some (s', w')"
  shows "calm w w'"
proof -
  have r: "calm w (snd (retrier d j w))" for j
    using retry [OF assms(1), of j] by (metis calm_def prod.collapse)
  have u: "calm w (snd (updater_UpdateStatus d (eID (jEvent j)) StatusRetrying StatusQueued w))" for j
    using requeued [OF assms(1), of "eID (jEvent j)"] by (metis calm_def prod.collapse)
  show ?thesis
  proof (cases "retries s ! i")
    case (RetryRequeue j)
    obtain q v where "retrier d j w = (q, v)" by fastforce
    with RetryRequeue assms r [of j] show ?thesis
      by (cases q) (auto simp: retry_step_def split: if_splits)
  next
    case (RetryUpdate j)
    with assms u [of j] show ?thesis by (auto simp: retry_step_def split: if_splits)
  qed (use assms in \<open>auto simp: retry_step_def calm_refl split: if_splits\<close>)
qed

lemma act_step_calm:
  assumes "sane w" and "settled_at status_of w (loop s)" and "\<And>v. a \<noteq> ActWorld v" and "act_step d p a s w = (s', w')"
  shows "calm w w' \<and> settled_at status_of w' (loop s')"
proof (cases a)
  case ActStart
  note b = keeps_calm [OF Broadcast_keeps [OF assms(1), of "online_msg (w_id p)"]]
  show ?thesis
    using ActStart assms(2,4) calm_refl [OF assms(1)] b
    by (cases "status s = StatusStopped") (auto simp: Start_def Let_def)
next
  case (ActLoop timer)
  show ?thesis
  proof (cases "loop_step d p timer s w")
    case None
    with ActLoop assms calm_refl show ?thesis by (simp add: apply_opt_def)
  next
    case (Some sw)
    with ActLoop assms(4) have "loop_step d p timer s w = Some (s', w')" by (simp add: apply_opt_def)
    from loop_step_safe [OF assms(1,2) this] safe_step_calm [of s w s' w'] show ?thesis by (simp add: safe_step_def)
  qed
next
  case (ActHeart tick)
  show ?thesis
  proof (cases "heart_step d p tick s w")
    case None
    with ActHeart assms calm_refl show ?thesis by (simp add: apply_opt_def)
  next
    case (Some sw)
    with ActHeart assms(4) have h: "heart_step d p tick s w = Some (s', w')" by (simp add: apply_opt_def)
    from heart_step_calm [OF assms(1) h] heart_step_frame [OF h] assms(2) show ?thesis
      by (auto simp: calm_def intro: settled_at_mono)
  qed
next
  case (ActRetry i timer)
  show ?thesis
  proof (cases "retry_step d timer i s w")
    case None
    with ActRetry assms calm_refl show ?thesis by (simp add: apply_opt_def)
  next
    case (Some sw)
    with ActRetry assms(4) have h: "retry_step d timer i s w = Some (s', w')" by (simp add: apply_opt_def)
    from retry_step_calm [OF assms(1) h] retry_step_frame [OF h] assms(2) show ?thesis
      by (auto simp: calm_def intro: settled_at_mono)
  qed
next
  case ActStop
  with assms calm_refl show ?thesis by (auto simp: stop_begin_def)
next
  case ActStopWake
  with assms calm_refl show ?thesis by (auto simp: stop_wake_def split: option.splits if_splits)
next
  case ActStopFinish
  have "keeps w (Broadcast d (offline_msg (w_id p)) w)" by (rule Broadcast_keeps [OF assms(1)])
  with ActStopFinish assms calm_refl show ?thesis
    by (auto simp: apply_opt_def stop_finish_def calm_def keeps_def intro: settled_at_mono split: if_splits)
next
  case ActParentDone
  with assms calm_refl show ?thesis by auto
next
  case (ActWorld v)
  with assms(3) show ?thesis by blast
qed

lemma reach_ok:
  "worker_reach d p status_of sane s w \<Longrightarrow> sane w \<and> settled_at status_of w (loop s)"
proof (induction rule: worker_reach.induct)
  case (new w)
  then show ?case by (simp add: NewWorker_def)
next
  case (own s w a s' w')
  with act_step_calm [of w s a p s' w'] show ?case by (auto simp: calm_def)
next
  case (others s w w')
  then show ?case by (auto intro: settled_at_mono)
qed

text \<open>
  The messages a worker gives up: only the one it is working on, and only when its event is settled or
  the claim has just been refused.
\<close>

lemma reach_drop:
  assumes "worker_reach d p status_of sane s w" and "loop_step d p timer s w = Some (s', w')"
    and "waits w j'" and "\<not> waits w' j'"
  shows "\<exists>j. job_at (loop s) = Some j \<and> same_message j' j \<and> handed_out d p status_of sane j \<and>
    (loop s = AtAckStale j \<or> settled (status_of w (eID (jEvent j))))"
  using loop_step_safe [OF _ _ assms(2)] reach_ok [OF assms(1)] assms(3,4) job_handed_out [OF assms(1)]
  by (auto simp: safe_step_def keeps_def drops_def)

end

end
