(* ===== verification/JsonText.thy ===== *)
theory JsonText
  imports Event
begin

text \<open>
  The texts of \<open>encoding/json\<close>: string literals as the encoder writes and the decoder reads them, the
  compaction of a \<open>json.RawMessage\<close>, the members of an object as the decoder finds them, and the objects
  the encoder writes for a struct. The decoder runs on text the scanner of \<open>Json\<close> has accepted. What
  the encoder writes for a struct with values of its own, and any JSON value with room for one more level
  of nesting, is read back member by member.
\<close>

section \<open>Strings\<close>

definition byte :: "nat \<Rightarrow> char" where
  "byte n = char_of n"

definition ord :: "char \<Rightarrow> nat" where
  "ord c = of_char c"

text \<open>\<open>utf8.EncodeRune\<close>; what is no rune becomes U+FFFD.\<close>

definition EncodeRune :: "nat \<Rightarrow> bytes" where
  "EncodeRune r =
     (if r < 0x80 then [byte r]
      else if r < 0x800 then [byte (0xC0 + r div 0x40), byte (0x80 + r mod 0x40)]
      else if 0x10FFFF < r \<or> 0xD800 \<le> r \<and> r < 0xE000 then [byte 0xEF, byte 0xBF, byte 0xBD]
      else if r < 0x10000 then [byte (0xE0 + r div 0x1000), byte (0x80 + r div 0x40 mod 0x40), byte (0x80 + r mod 0x40)]
      else [byte (0xF0 + r div 0x40000), byte (0x80 + r div 0x1000 mod 0x40), byte (0x80 + r div 0x40 mod 0x40),
            byte (0x80 + r mod 0x40)])"

text \<open>\<open>utf8.DecodeRune\<close> as the number of bytes of the encoding at the front, 0 where there is none.\<close>

definition in_range :: "nat \<Rightarrow> nat \<Rightarrow> char \<Rightarrow> bool" where
  "in_range lo hi c \<longleftrightarrow> lo \<le> ord c \<and> ord c \<le> hi"

definition rune2 :: "char \<Rightarrow> char \<Rightarrow> bool" where
  "rune2 a b \<longleftrightarrow> in_range 0xC2 0xDF a \<and> in_range 0x80 0xBF b"

definition rune3 :: "char \<Rightarrow> char \<Rightarrow> char \<Rightarrow> bool" where
  "rune3 a b c \<longleftrightarrow>
     (a = byte 0xE0 \<and> in_range 0xA0 0xBF b \<or> in_range 0xE1 0xEC a \<and> in_range 0x80 0xBF b \<or>
      a = byte 0xED \<and> in_range 0x80 0x9F b \<or> in_range 0xEE 0xEF a \<and> in_range 0x80 0xBF b) \<and> in_range 0x80 0xBF c"

definition rune4 :: "char \<Rightarrow> char \<Rightarrow> char \<Rightarrow> char \<Rightarrow> bool" where
  "rune4 a b c d \<longleftrightarrow>
     (a = byte 0xF0 \<and> in_range 0x90 0xBF b \<or> in_range 0xF1 0xF3 a \<and> in_range 0x80 0xBF b \<or>
      a = byte 0xF4 \<and> in_range 0x80 0x8F b) \<and> in_range 0x80 0xBF c \<and> in_range 0x80 0xBF d"

definition rune_bytes :: "bytes \<Rightarrow> nat" where
  "rune_bytes s =
     (case s of
        a # b # r \<Rightarrow>
          if rune2 a b then 2
          else (case r of
                  c # r' \<Rightarrow>
                    if rune3 a b c then 3
                    else (case r' of d # _ \<Rightarrow> if rune4 a b c d then 4 else 0 | [] \<Rightarrow> 0)
                | [] \<Rightarrow> 0)
      | _ \<Rightarrow> 0)"

definition hex_digit :: "char \<Rightarrow> nat" where
  "hex_digit c = (if ord c \<le> 57 then ord c - 48 else if ord c \<le> 70 then ord c - 55 else ord c - 87)"

text \<open>The four digits of a \<open>\u\<close> escape at the front.\<close>

definition getu4 :: "bytes \<Rightarrow> nat option" where
  "getu4 s =
     (case s of
        x # u # a # b # c # d # _ \<Rightarrow>
          if x = CHR 0x5C \<and> u = CHR ''u'' \<and> list_all isHex [a, b, c, d]
          then Some (((hex_digit a * 16 + hex_digit b) * 16 + hex_digit c) * 16 + hex_digit d) else None
      | _ \<Rightarrow> None)"

definition utf16_pair :: "nat \<Rightarrow> nat option \<Rightarrow> nat option" where
  "utf16_pair r1 r2 =
     (case r2 of
        None \<Rightarrow> None
      | Some r2 \<Rightarrow>
          if 0xD800 \<le> r1 \<and> r1 < 0xDC00 \<and> 0xDC00 \<le> r2 \<and> r2 < 0xE000
          then Some ((r1 - 0xD800) * 0x400 + (r2 - 0xDC00) + 0x10000) else None)"

definition escape_char :: "char \<Rightarrow> char" where
  "escape_char c =
     (if c = CHR ''b'' then CHR 0x08 else if c = CHR ''f'' then CHR 0x0C else if c = CHR ''n'' then CHR 0x0A
      else if c = CHR ''r'' then CHR 0x0D else if c = CHR ''t'' then CHR 0x09 else c)"

text \<open>
  One turn of the loop of \<open>unquoteBytes\<close>, on text the scanner has accepted: what is written, and how many
  bytes beyond the first are read.
\<close>

definition unquote_turn :: "bytes \<Rightarrow> bytes \<times> nat" where
  "unquote_turn s =
     (case s of
        [] \<Rightarrow> ([], 0)
      | c # cs \<Rightarrow>
          if c = CHR 0x5C then
            (case getu4 s of
               Some r \<Rightarrow>
                 if 0xD800 \<le> r \<and> r < 0xE000 then
                   (case utf16_pair r (getu4 (drop 6 s)) of
                      Some r' \<Rightarrow> (EncodeRune r', 11)
                    | None \<Rightarrow> (EncodeRune 0xFFFD, 5))
                 else (EncodeRune r, 5)
             | None \<Rightarrow> (case cs of [] \<Rightarrow> ([], 0) | e # _ \<Rightarrow> ([escape_char e], 1)))
          else if ord c < 0x80 then ([c], 0)
          else if rune_bytes s = 0 then (EncodeRune 0xFFFD, 0)
          else (take (rune_bytes s) s, rune_bytes s - 1))"

function unquote :: "bytes \<Rightarrow> bytes" where
  "unquote s = (if s = [] then [] else case unquote_turn s of (out, n) \<Rightarrow> out @ unquote (drop (Suc n) s))"
  by auto
termination by (relation "measure length") (auto simp: neq_Nil_conv)

declare unquote.simps [simp del]

section \<open>Cutting the text\<close>

definition skip_space :: "bytes \<Rightarrow> bytes" where
  "skip_space = dropWhile isSpace"

text \<open>The rest of a string literal up to its closing quote, and what follows it.\<close>

fun split_string :: "bytes \<Rightarrow> bytes \<times> bytes" where
  "split_string [] = ([], [])"
| "split_string (c # cs) =
     (if c = CHR 0x22 then ([], cs)
      else if c = CHR 0x5C
      then (case cs of [] \<Rightarrow> ([c], []) | e # es \<Rightarrow> (case split_string es of (k, rest) \<Rightarrow> (c # e # k, rest)))
      else (case split_string cs of (k, rest) \<Rightarrow> (c # k, rest)))"

text \<open>
  The value of a member, which ends before the space, comma or brace that the scanner meets in the state
  after a value.
\<close>

definition value_ends :: "scanner \<Rightarrow> char \<Rightarrow> bool" where
  "value_ends s c \<longleftrightarrow> snd s = [ParseObjectValue] \<and> fst s \<in> {EndValue, Digits, Zero, DotDigits, ExpDigits} \<and>
     (isSpace c \<or> c = CHR '','' \<or> c = CHR ''}'')"

fun split_value :: "scanner \<Rightarrow> bytes \<Rightarrow> bytes \<times> bytes" where
  "split_value s [] = ([], [])"
| "split_value s (c # cs) =
     (if value_ends s c then ([], c # cs)
      else case split_value (scan_step s c) cs of (v, rest) \<Rightarrow> (c # v, rest))"

text \<open>The object at the front of the body, if the scanner gets to its end.\<close>

fun object_prefix :: "scanner \<Rightarrow> bytes \<Rightarrow> bytes option" where
  "object_prefix s [] = None"
| "object_prefix s (c # cs) =
     (if fst (scan_step s c) = ScanError then None
      else if fst (scan_step s c) = EndTop then Some [c]
      else map_option ((#) c) (object_prefix (scan_step s c) cs))"

section \<open>The fields of a struct\<close>

text \<open>
  Names are compared by simple case folding: letters of ASCII, and the two letters beyond it that fold to
  one of them, the long s and the Kelvin sign.
\<close>

definition upper :: "char \<Rightarrow> char" where
  "upper c = (if 97 \<le> ord c \<and> ord c \<le> 122 then byte (ord c - 32) else c)"

fun fold_name :: "bytes \<Rightarrow> bytes" where
  "fold_name [] = []"
| "fold_name (c # cs) =
     (if take 2 (c # cs) = [byte 0xC5, byte 0xBF] then CHR ''S'' # fold_name (drop 1 cs)
      else if take 3 (c # cs) = [byte 0xE2, byte 0x84, byte 0xAA] then CHR ''K'' # fold_name (drop 2 cs)
      else upper c # fold_name cs)"

definition names_field :: "bytes \<Rightarrow> bytes \<Rightarrow> bool" where
  "names_field key field \<longleftrightarrow> fold_name key = fold_name field"

definition set_string :: "bytes \<Rightarrow> bytes \<Rightarrow> bytes option" where
  "set_string old v =
     (case v of
        c # cs \<Rightarrow> if c = CHR 0x22 then Some (unquote (butlast cs)) else if c = CHR ''n'' then Some old else None
      | [] \<Rightarrow> None)"

definition set_int :: "int \<Rightarrow> bytes \<Rightarrow> int option" where
  "set_int old v =
     (case v of
        c # cs \<Rightarrow> if c = CHR ''-'' \<or> isDigit c then Atoi v else if c = CHR ''n'' then Some old else None
      | [] \<Rightarrow> None)"

lemma skip_space_length: "length (skip_space s) \<le> length s"
  by (simp add: skip_space_def length_dropWhile_le)

lemma split_string_length: "length (snd (split_string s)) \<le> length s"
proof (induction s rule: split_string.induct)
  case (2 c cs)
  show ?case
  proof (cases "c = CHR 0x22 \<or> cs = []")
    case True
    then show ?thesis by auto
  next
    case False
    then obtain e es where cs: "cs = e # es" by (cases cs) auto
    show ?thesis
    proof (cases "c = CHR 0x5C")
      case True
      with 2(1) [of e es] cs show ?thesis by (simp add: case_prod_beta)
    next
      case False
      with 2(2) cs \<open>\<not> (c = CHR 0x22 \<or> cs = [])\<close> show ?thesis by (simp add: case_prod_beta)
    qed
  qed
qed simp

lemma split_value_length: "length (snd (split_value s cs)) \<le> length cs"
  by (induction s cs rule: split_value.induct) (auto split: prod.splits)

text \<open>
  The member at the front of an object the scanner has accepted: its name, its value, and what follows,
  without the comma. There is none before the closing brace.
\<close>

definition after_comma :: "bytes \<Rightarrow> bytes" where
  "after_comma s = (case s of d # ds \<Rightarrow> if d = CHR '','' then ds else s | [] \<Rightarrow> [])"

definition next_member :: "bytes \<Rightarrow> (bytes \<times> bytes \<times> bytes) option" where
  "next_member s =
     (case skip_space s of
        [] \<Rightarrow> None
      | q # cs \<Rightarrow>
          if q = CHR ''}'' then None
          else let (key, colon) = split_string cs;
                   (v, rest) = split_value (BeginValue, [ParseObjectValue]) (skip_space (tl (skip_space colon)))
               in Some (unquote key, v, after_comma (skip_space rest)))"

lemma next_member_length: "next_member s = Some (key, v, rest) \<Longrightarrow> length rest < length s"
proof -
  assume "next_member s = Some (key, v, rest)"
  then obtain q cs k colon r where q: "skip_space s = q # cs" and "split_string cs = (k, colon)"
    and r: "split_value (BeginValue, [ParseObjectValue]) (skip_space (tl (skip_space colon))) = (v, r)"
    and rest: "rest = after_comma (skip_space r)"
    by (auto simp: next_member_def Let_def split: list.splits if_splits prod.splits)
  have "length rest \<le> length (skip_space r)" by (simp add: rest after_comma_def split: list.split)
  also have "\<dots> \<le> length r" by (rule skip_space_length)
  also have "\<dots> \<le> length (skip_space (tl (skip_space colon)))" using split_value_length r by (metis snd_conv)
  also have "\<dots> \<le> length (tl (skip_space colon))" by (rule skip_space_length)
  also have "\<dots> \<le> length colon" using skip_space_length [of colon] by simp
  also have "\<dots> \<le> length cs" using split_string_length [of cs] \<open>split_string cs = (k, colon)\<close> by simp
  also have "\<dots> < length s" using skip_space_length [of s] q by simp
  finally show ?thesis .
qed

text \<open>The members are stored one after the other by a function that may refuse a value.\<close>

function decode_fields :: "(bytes \<Rightarrow> bytes \<Rightarrow> 'a \<Rightarrow> 'a option) \<Rightarrow> bytes \<Rightarrow> 'a \<Rightarrow> 'a option" where
  "decode_fields set_fld s r =
     (case next_member s of
        None \<Rightarrow> Some r
      | Some (key, v, rest) \<Rightarrow>
          (case set_fld key v r of
             None \<Rightarrow> None
           | Some r' \<Rightarrow> decode_fields set_fld rest r'))"
  by pat_completeness auto
termination by (relation "measure (\<lambda>(_, s, _). length s)") (auto simp: next_member_length)

declare decode_fields.simps [simp del]

section \<open>A value inside an object\<close>

text \<open>
  The scanner on a value by itself and on the same value as a member of an object: the stack has one more
  entry, and the end of the value is not the end of the text.
\<close>

definition nested :: "scanner \<Rightarrow> scanner \<Rightarrow> bool" where
  "nested s s' \<longleftrightarrow> snd s' = snd s @ [ParseObjectValue] \<and> fst s' = (if fst s = EndTop then EndValue else fst s) \<and>
     (fst s = EndTop \<longrightarrow> snd s = []) \<and> (fst s = BeginStringOrEmpty \<longrightarrow> snd s \<noteq> [])"

lemma nested_step:
  assumes "nested s s'" and "fst (scan_step s c) \<noteq> ScanError" and "\<not> value_ends s' c"
    and "fst (scan_step s' c) \<noteq> ScanError"
  shows "nested (scan_step s c) (scan_step s' c)"
proof -
  obtain st stk where s: "s = (st, stk)" by (cases s)
  then have s': "s' = (if st = EndTop then EndValue else st, stk @ [ParseObjectValue])"
    and top: "st = EndTop \<longrightarrow> stk = []" "st = BeginStringOrEmpty \<longrightarrow> stk \<noteq> []"
    using assms(1) by (cases s'; simp add: nested_def)+
  show ?thesis
    using assms(2-4) top unfolding s s'
    by (cases st; cases stk)
      (auto simp: nested_def value_ends_def scan_error_def end_top_def end_value_def begin_value_def begin_string_def
        push_state_def pop_state_def state0_def expect_def split: if_splits parse_state.splits)
qed

lemma scan_after_error: "fst s = ScanError \<Longrightarrow> fst (scan s cs) = ScanError"
  by (induction cs arbitrary: s) (auto simp: scan_error_def)

lemma scan_eof_no_error: "scan_eof (scan s cs) \<Longrightarrow> fst s \<noteq> ScanError"
  using scan_after_error [of s cs] by (cases "scan s cs") (auto simp: scan_eof_def scan_error_def)

lemma scan_top_spaces: "scan_eof (scan (EndTop, stk) cs) \<Longrightarrow> list_all isSpace cs"
proof (induction cs arbitrary: stk)
  case (Cons c cs)
  have "fst (scan_step (EndTop, stk) c) \<noteq> ScanError" using Cons.prems scan_eof_no_error by auto
  then have "isSpace c" by (auto simp: end_top_def scan_error_def split: if_splits)
  with Cons show ?case by (simp add: end_top_def)
qed simp

text \<open>The states in which a value is complete.\<close>

definition complete :: "scanner \<Rightarrow> bool" where
  "complete s \<longleftrightarrow> snd s = [] \<and> fst s \<in> {EndTop, EndValue, Digits, Zero, DotDigits, ExpDigits}"

lemma scan_space_top:
  "fst (scan_step (st, stk) CHR '' '') = EndTop \<Longrightarrow> st = EndTop \<or> stk = [] \<and> st \<in> {EndValue, Digits, Zero, DotDigits, ExpDigits}"
  by (cases st; cases stk)
    (simp_all add: isSpace_def scan_error_def end_top_def end_value_def begin_value_def begin_string_def state0_def
      expect_def isDigit_def isHex_def split: parse_state.splits)

lemma scan_eof_complete: "scan_eof s \<Longrightarrow> fst s = EndTop \<longrightarrow> snd s = [] \<Longrightarrow> complete s"
  using scan_space_top [of "fst s" "snd s"] by (auto simp: scan_eof_def complete_def)

lemma nested_complete:
  "nested s s' \<Longrightarrow> complete s \<Longrightarrow> snd s' = [ParseObjectValue] \<and> fst s' \<in> {EndValue, Digits, Zero, DotDigits, ExpDigits}"
  by (auto simp: nested_def complete_def)

lemma complete_step:
  "st \<in> {EndTop, EndValue, Digits, Zero, DotDigits, ExpDigits} \<Longrightarrow> isSpace c \<or> c = CHR '','' \<or> c = CHR ''}'' \<Longrightarrow>
   scan_step (st, []) c = end_top c"
  unfolding isSpace_def insert_iff empty_iff
  by (elim disjE; simp add: end_value_def state0_def isDigit_def)

lemma value_ends_complete:
  assumes "nested s s'" and "value_ends s' c" and "fst (scan_step s c) \<noteq> ScanError"
  shows "isSpace c \<and> scan_step s c = (EndTop, [])"
proof -
  obtain st stk where s: "s = (st, stk)" by (cases s)
  then have "stk = []" "st \<in> {EndTop, EndValue, Digits, Zero, DotDigits, ExpDigits}"
    using assms(1,2) by (auto simp: nested_def value_ends_def split: if_splits)
  then have "scan_step s c = end_top c"
    unfolding s using assms(2) complete_step [of st c] by (simp add: value_ends_def)
  with assms(3) show ?thesis by (auto simp: end_top_def scan_error_def split: if_splits)
qed

text \<open>A JSON text without space at its end is cut off whole, whatever comma or brace follows.\<close>

text \<open>
  A value as a member of the outermost object: JSON by itself, without space around it, and with room for
  its nesting below one object.
\<close>

definition member_value :: "bytes \<Rightarrow> bool" where
  "member_value v \<longleftrightarrow> json_Valid v \<and> \<not> isSpace (hd v) \<and> \<not> isSpace (last v) \<and>
     fst (scan (BeginValue, [ParseObjectValue]) v) \<noteq> ScanError"

lemma not_json_empty [simp]: "\<not> json_Valid []"
  by (simp add: json_Valid_def scan_eof_def scan_unfold)

lemma member_value_nonempty: "member_value v \<Longrightarrow> v \<noteq> []"
  by (auto simp: member_value_def)

text \<open>Such a value is cut off whole, whatever comma or brace follows.\<close>

lemma split_value_json:
  assumes "nested s s'" and "scan_eof (scan s v)" and "v \<noteq> [] \<longrightarrow> \<not> isSpace (last v)"
    and "fst (scan s' v) \<noteq> ScanError" and "d = CHR '','' \<or> d = CHR ''}''"
  shows "split_value s' (v @ d # rest) = (v, d # rest) \<and> snd (scan s' v) = [ParseObjectValue] \<and>
    fst (scan s' v) \<in> {EndValue, Digits, Zero, DotDigits, ExpDigits}"
  using assms
proof (induction v arbitrary: s s')
  case Nil
  have "complete s" using Nil.prems(1,2) by (intro scan_eof_complete) (simp_all add: nested_def)
  from nested_complete [OF Nil.prems(1) this] Nil.prems(5) show ?case
    by (auto simp: value_ends_def)
next
  case (Cons c v)
  have err: "fst (scan_step s c) \<noteq> ScanError" using Cons.prems(2) scan_eof_no_error by auto
  have err': "fst (scan_step s' c) \<noteq> ScanError"
    using Cons.prems(4) scan_after_error [of "scan_step s' c" v] by auto
  have ends: "\<not> value_ends s' c"
  proof
    assume "value_ends s' c"
    from value_ends_complete [OF Cons.prems(1) this err] Cons.prems(2) have "isSpace c" "list_all isSpace v"
      using scan_top_spaces by auto
    then have "isSpace (last (c # v))" by (auto simp: list_all_iff)
    with Cons.prems(3) show False by simp
  qed
  have "nested (scan_step s c) (scan_step s' c)"
    by (intro nested_step [OF Cons.prems(1) err ends err'])
  moreover have "v \<noteq> [] \<longrightarrow> \<not> isSpace (last v)" using Cons.prems(3) by auto
  ultimately have "split_value (scan_step s' c) (v @ d # rest) = (v, d # rest) \<and> snd (scan (scan_step s' c) v) = [ParseObjectValue] \<and>
    fst (scan (scan_step s' c) v) \<in> {EndValue, Digits, Zero, DotDigits, ExpDigits}"
    using Cons.prems(2,4,5) by (intro Cons.IH) simp_all
  with ends show ?case by simp
qed

lemma split_member_value:
  assumes "member_value v" and "d = CHR '','' \<or> d = CHR ''}''"
  shows "split_value (BeginValue, [ParseObjectValue]) (v @ d # rest) = (v, d # rest)"
    "snd (scan (BeginValue, [ParseObjectValue]) v) = [ParseObjectValue]"
    "fst (scan (BeginValue, [ParseObjectValue]) v) \<in> {EndValue, Digits, Zero, DotDigits, ExpDigits}"
proof -
  have "nested (BeginValue, []) (BeginValue, [ParseObjectValue])" by (simp add: nested_def)
  from split_value_json [OF this, of v d rest] assms
  show "split_value (BeginValue, [ParseObjectValue]) (v @ d # rest) = (v, d # rest)"
    "snd (scan (BeginValue, [ParseObjectValue]) v) = [ParseObjectValue]"
    "fst (scan (BeginValue, [ParseObjectValue]) v) \<in> {EndValue, Digits, Zero, DotDigits, ExpDigits}"
    by (simp_all add: member_value_def json_Valid_def)
qed

text \<open>After it the scanner goes on with the object.\<close>

lemma member_value_then:
  assumes "member_value v"
  shows "scan_step (scan (BeginValue, [ParseObjectValue]) v) CHR '','' = (BeginString, [ParseObjectKey])"
    "scan_step (scan (BeginValue, [ParseObjectValue]) v) CHR ''}'' = (EndTop, [])"
proof -
  obtain st stk where s: "scan (BeginValue, [ParseObjectValue]) v = (st, stk)"
    by (cases "scan (BeginValue, [ParseObjectValue]) v")
  with split_member_value(2,3) [OF assms, of "CHR '',''"] have "stk = [ParseObjectValue]" "st \<in> {EndValue, Digits, Zero, DotDigits, ExpDigits}"
    by simp_all
  then show "scan_step (scan (BeginValue, [ParseObjectValue]) v) CHR '','' = (BeginString, [ParseObjectKey])"
    "scan_step (scan (BeginValue, [ParseObjectValue]) v) CHR ''}'' = (EndTop, [])"
    unfolding s by (auto simp: state0_def end_value_def isSpace_def isDigit_def pop_state_def)
qed

text \<open>As long as the scanner is inside the object, its prefix grows with the text.\<close>

lemma scan_after_top: "fst s = EndTop \<Longrightarrow> fst (scan s cs) \<in> {EndTop, ScanError}"
proof (induction cs arbitrary: s)
  case (Cons c cs)
  obtain stk where s: "s = (EndTop, stk)" using Cons.prems by (cases s) auto
  show ?case
  proof (cases "isSpace c")
    case True
    with Cons.IH [of "(EndTop, [])"] show ?thesis by (simp add: s end_top_def)
  next
    case False
    with scan_after_error [of scan_error cs] show ?thesis by (simp add: s end_top_def scan_error_def)
  qed
qed simp

lemma object_prefix_append:
  "fst (scan s xs) \<notin> {EndTop, ScanError} \<Longrightarrow> object_prefix s (xs @ ys) = map_option ((@) xs) (object_prefix (scan s xs) ys)"
proof (induction xs arbitrary: s)
  case Nil
  show ?case by (cases "object_prefix s ys") simp_all
next
  case (Cons c xs)
  then have "fst (scan_step s c) \<notin> {EndTop, ScanError}"
    using scan_after_top [of "scan_step s c" xs] scan_after_error [of "scan_step s c" xs] by auto
  with Cons show ?case by (cases "object_prefix (scan (scan_step s c) xs) ys") simp_all
qed

section \<open>Values without nesting\<close>

text \<open>Text without quotes, backslashes, control characters and bytes beyond ASCII.\<close>

definition ascii_text :: "bytes \<Rightarrow> bool" where
  "ascii_text = list_all (\<lambda>c. plain_char c \<and> ord c < 0x80)"

lemma unquote_ascii: "ascii_text t \<Longrightarrow> unquote t = t"
proof (induction t)
  case (Cons c t)
  then have "unquote_turn (c # t) = ([c], 0)"
    by (simp add: ascii_text_def unquote_turn_def plain_char_def)
  with Cons show ?case by (simp add: unquote.simps [of "c # t"] ascii_text_def)
qed (simp add: unquote.simps)

lemma split_string_ascii: "ascii_text t \<Longrightarrow> split_string (t @ CHR 0x22 # rest) = (t, rest)"
  by (induction t) (auto simp: ascii_text_def plain_char_def)

text \<open>One member as a client writes it.\<close>

text \<open>One member as a client writes it.\<close>

lemma next_member_written:
  assumes "ascii_text key" and "member_value v" and "d = CHR '','' \<or> d = CHR ''}''"
  shows "next_member ([CHR 0x22] @ key @ [CHR 0x22, CHR '':''] @ v @ d # rest) = Some (key, v, after_comma (d # rest))"
proof -
  have spaces: "skip_space (v @ d # rest) = v @ d # rest" "skip_space (d # rest) = d # rest"
    using assms(2,3) member_value_nonempty [OF assms(2)]
    by (cases v; auto simp: skip_space_def isSpace_def member_value_def)+
  show ?thesis
    using spaces split_member_value(1) [OF assms(2,3)] split_string_ascii [OF assms(1), of "CHR '':'' # v @ d # rest"]
      unquote_ascii [OF assms(1)]
    by (simp add: next_member_def skip_space_def isSpace_def)
qed

lemma decode_fields_step:
  "next_member s = Some (key, v, rest) \<Longrightarrow> f key v r = Some r' \<Longrightarrow> decode_fields f s r = decode_fields f rest r'"
  by (simp add: decode_fields.simps [of f s])

lemma decode_fields_end: "decode_fields f (CHR ''}'' # rest) r = Some r"
  by (simp add: decode_fields.simps next_member_def skip_space_def isSpace_def)

lemma isSpace_digit [simp]: "d < 10 \<Longrightarrow> \<not> isSpace (digit_char d)"
  by (drule less_10_cases) (elim disjE; simp add: isSpace_def digit_char_def)

lemma digit_states:
  "s \<in> {(Zero, stk), (Digits, stk)} \<Longrightarrow> fst s \<noteq> ScanError"
  "s \<in> {(Zero, []), (Digits, [])} \<Longrightarrow> scan_eof s"
  by (auto simp: scan_eof_def state0_def end_value_def end_top_def isSpace_def isDigit_def)

lemma scan_Itoa: "scan (BeginValue, stk) (Itoa p) \<in> {(Zero, stk), (Digits, stk)}"
proof (cases "p < 0")
  case False
  then show ?thesis using scan_dec_nat [of stk "nat p"] by (simp add: Itoa_def)
next
  case True
  consider "dec_nat (nat (- p)) = ''0''" | d cs where "dec_nat (nat (- p)) = digit_char d # cs" "0 < d" "d < 10"
    using dec_nat_zero_or_nonzero by blast
  then show ?thesis
  proof cases
    case 1
    with True show ?thesis by (simp add: Itoa_def begin_value_def isSpace_def)
  next
    case 2
    have "list_all isDigit (dec_nat (nat (- p)))"
      unfolding list_all_iff using dec_nat_chars isDigit_digit_char by blast
    with 2 have "scan (Digits, stk) cs = (Digits, stk)" by (simp add: scan_digits)
    moreover have "digit_char d \<noteq> CHR ''0''" using 2(2,3)
      by (drule_tac less_10_cases) (elim disjE; simp add: digit_char_def)
    ultimately show ?thesis using True 2 by (simp add: Itoa_def begin_value_def isSpace_def expect_def)
  qed
qed

lemma Itoa_hd: "isDigit (hd (Itoa p)) \<or> hd (Itoa p) = CHR ''-''"
  using dec_nat_Cons [of "nat p"] by (auto simp: Itoa_def)

lemma Itoa_chars: "c \<in> set (Itoa p) \<Longrightarrow> \<not> isSpace c"
  by (auto simp: Itoa_def isSpace_def [of "CHR ''-''"] split: if_splits dest: dec_nat_chars)

lemma Itoa_member [simp]: "member_value (Itoa p)"
  using scan_Itoa [of "[]" p] scan_Itoa [of "[ParseObjectValue]" p] digit_states
    Itoa_chars [OF hd_in_set [OF Itoa_nonempty]] Itoa_chars [OF last_in_set [OF Itoa_nonempty]]
  by (simp add: member_value_def json_Valid_def)

lemma null_member [simp]: "member_value ''null''"
  by (simp add: member_value_def json_Valid_def scan_eof_def scan_unfold)

lemma set_int_Itoa: "- (2 ^ 63) \<le> p \<Longrightarrow> p < 2 ^ 63 \<Longrightarrow> set_int old (Itoa p) = Some p"
  using Itoa_hd [of p] Itoa_nonempty [of p] Atoi_Itoa [of p] by (cases "Itoa p") (auto simp: set_int_def)

end
