(* ===== verification/JsonEncode.thy ===== *)
theory JsonEncode
  imports JsonText
begin

text \<open>
  The encoder of \<open>encoding/json\<close> on what the program gives it: strings with the characters escaped that
  \<open>json.Marshal\<close> escapes (those of HTML too), a \<open>json.RawMessage\<close> compacted, and objects with their
  members in the order of the struct. A string of UTF-8 is read back as it was; a compacted value is the
  same for the scanner, is read back byte for byte and is not changed by compacting it again.
\<close>

section \<open>Strings\<close>

definition safe_char :: "char \<Rightarrow> bool" where
  "safe_char c \<longleftrightarrow> 32 \<le> ord c \<and> ord c < 0x80 \<and>
     c \<noteq> CHR 0x22 \<and> c \<noteq> CHR 0x5C \<and> c \<noteq> CHR ''<'' \<and> c \<noteq> CHR ''>'' \<and> c \<noteq> CHR ''&''"

definition line_separator :: "bytes \<Rightarrow> bool" where
  "line_separator s \<longleftrightarrow> take 3 s = [byte 0xE2, byte 0x80, byte 0xA8] \<or> take 3 s = [byte 0xE2, byte 0x80, byte 0xA9]"

definition escape_00 :: "char \<Rightarrow> bytes" where
  "escape_00 c = [CHR 0x5C, CHR ''u'', CHR ''0'', CHR ''0'', hex_char (ord c div 16), hex_char (ord c mod 16)]"

definition escape_202 :: "bytes \<Rightarrow> bytes" where
  "escape_202 s = [CHR 0x5C, CHR ''u'', CHR ''2'', CHR ''0'', CHR ''2'', hex_char (ord (s ! 2) mod 16)]"

definition short_escape :: "nat \<Rightarrow> char option" where
  "short_escape = map_of [(8, CHR ''b''), (12, CHR ''f''), (10, CHR ''n''), (13, CHR ''r''), (9, CHR ''t'')]"

text \<open>One turn of the loop of \<open>appendString\<close>: what is written, and how many bytes beyond the first are read.\<close>

definition encode_turn :: "bytes \<Rightarrow> bytes \<times> nat" where
  "encode_turn s =
     (case s of
        [] \<Rightarrow> ([], 0)
      | c # _ \<Rightarrow>
          if ord c < 0x80 then
            (if safe_char c then [c]
             else if c = CHR 0x22 \<or> c = CHR 0x5C then [CHR 0x5C, c]
             else (case short_escape (ord c) of Some d \<Rightarrow> [CHR 0x5C, d] | None \<Rightarrow> escape_00 c), 0)
          else if rune_bytes s = 0 then ([CHR 0x5C] @ ''ufffd'', 0)
          else if line_separator s then (escape_202 s, 2)
          else (take (rune_bytes s) s, rune_bytes s - 1))"

function escape :: "bytes \<Rightarrow> bytes" where
  "escape s = (if s = [] then [] else case encode_turn s of (out, n) \<Rightarrow> out @ escape (drop (Suc n) s))"
  by auto
termination by (relation "measure length") (auto simp: neq_Nil_conv)

declare escape.simps [simp del]

definition encode_string :: "bytes \<Rightarrow> bytes" where
  "encode_string s = [CHR 0x22] @ escape s @ [CHR 0x22]"

function utf8 :: "bytes \<Rightarrow> bool" where
  "utf8 s =
     (case s of
        [] \<Rightarrow> True
      | c # cs \<Rightarrow> if ord c < 0x80 then utf8 cs else if rune_bytes s = 0 then False else utf8 (drop (rune_bytes s) s))"
  by auto
termination by (relation "measure length") auto

declare utf8.simps [simp del]

subsection \<open>Runes\<close>

lemma ord_byte: "n < 256 \<Longrightarrow> ord (byte n) = n"
  by (simp add: ord_def byte_def)

lemma rune_bytes_cases:
  obtains (none) "rune_bytes s = 0"
  | (two) a b r where "s = a # b # r" "rune2 a b" "rune_bytes s = 2"
  | (three) a b c r where "s = a # b # c # r" "\<not> rune2 a b" "rune3 a b c" "rune_bytes s = 3"
  | (four) a b c d r where "s = a # b # c # d # r" "\<not> rune2 a b" "\<not> rune3 a b c" "rune4 a b c d" "rune_bytes s = 4"
  by (cases "rune_bytes s = 0") (auto simp: rune_bytes_def split: list.splits if_splits)

lemma high_bytes:
  "rune2 a b \<Longrightarrow> 128 \<le> ord a \<and> 128 \<le> ord b"
  "rune3 a b c \<Longrightarrow> 128 \<le> ord a \<and> 128 \<le> ord b \<and> 128 \<le> ord c"
  "rune4 a b c d \<Longrightarrow> 128 \<le> ord a \<and> 128 \<le> ord b \<and> 128 \<le> ord c \<and> 128 \<le> ord d"
  by (auto simp: rune2_def rune3_def rune4_def in_range_def ord_byte)

lemma rune_bytes_take: "rune_bytes (take (rune_bytes s) s @ r) = rune_bytes s" if "rune_bytes s \<noteq> 0"
  using that by (cases s rule: rune_bytes_cases) (simp_all add: rune_bytes_def)

lemma rune_high: "list_all (\<lambda>c. 128 \<le> ord c) (take (rune_bytes s) s)"
  by (cases s rule: rune_bytes_cases) (auto dest: high_bytes)

lemma rune_take_Cons:
  assumes "rune_bytes s \<noteq> 0"
  obtains a t where "take (rune_bytes s) s = a # t" "128 \<le> ord a" "length t = rune_bytes s - 1"
  using assms by (cases s rule: rune_bytes_cases) (auto dest: high_bytes)

lemma line_separator_Cons:
  assumes "line_separator s"
  obtains x r where "s = byte 0xE2 # byte 0x80 # x # r" "x = byte 0xA8 \<or> x = byte 0xA9" "rune_bytes s = 3"
proof -
  obtain x where t: "take 3 s = [byte 0xE2, byte 0x80, x]" and x: "x = byte 0xA8 \<or> x = byte 0xA9"
    using assms by (auto simp: line_separator_def)
  have "s = take 3 s @ drop 3 s" by simp
  then obtain r where s: "s = byte 0xE2 # byte 0x80 # x # r" unfolding t by simp
  from x have "rune_bytes s = 3"
    by (auto simp: s rune_bytes_def rune2_def rune3_def in_range_def ord_byte)
  with s x show thesis by (intro that) simp_all
qed

subsection \<open>What the decoder reads of a turn\<close>

lemma less_16_cases: "d < (16::nat) \<Longrightarrow> d < 10 \<or> d = 10 \<or> d = 11 \<or> d = 12 \<or> d = 13 \<or> d = 14 \<or> d = 15"
  by presburger

lemma hex_char_digit: "d < 16 \<Longrightarrow> isHex (hex_char d) \<and> hex_digit (hex_char d) = d"
  by (drule less_16_cases, elim disjE, drule less_10_cases, elim disjE)
    (simp_all add: isHex_def isDigit_def hex_char_def hex_digit_def ord_def)

lemma hex_char_plain: "d < 16 \<Longrightarrow> plain_char (hex_char d) \<and> hex_char d \<noteq> CHR 0x22 \<and> \<not> isSpace (hex_char d)"
  by (drule less_16_cases, elim disjE, drule less_10_cases, elim disjE)
    (simp_all add: plain_char_def hex_char_def isSpace_def)

lemma ord_less: "ord c < 256"
  by (simp add: ord_def)

lemma byte_ord: "byte (ord c) = c"
  by (simp add: ord_def byte_def)

lemma getu4_escape_00: "getu4 (escape_00 c @ rest) = Some (ord c)"
proof -
  have "hex_digit (hex_char (ord c div 16)) * 16 + hex_digit (hex_char (ord c mod 16)) = ord c"
    using hex_char_digit [of "ord c div 16"] hex_char_digit [of "ord c mod 16"] ord_less [of c]
    by (simp add: less_mult_imp_div_less)
  moreover have "isHex (hex_char (ord c div 16))" "isHex (hex_char (ord c mod 16))"
    using hex_char_digit [of "ord c div 16"] hex_char_digit [of "ord c mod 16"] ord_less [of c]
    by (simp_all add: less_mult_imp_div_less)
  ultimately show ?thesis
    by (simp add: getu4_def escape_00_def isHex_def [of "CHR ''0''"] isDigit_def hex_digit_def [of "CHR ''0''"] ord_def [of "CHR ''0''"])
qed

lemma unquote_turn_escape_00: "ord c < 0x80 \<Longrightarrow> unquote_turn (escape_00 c @ rest) = ([c], 5)"
  using getu4_escape_00 [of c rest]
  by (simp add: unquote_turn_def escape_00_def EncodeRune_def byte_ord)

lemma unquote_turn_escape_202:
  assumes "line_separator s"
  shows "unquote_turn (escape_202 s @ rest) = (take 3 s, 5)"
proof -
  obtain x r where s: "s = byte 0xE2 # byte 0x80 # x # r" "x = byte 0xA8 \<or> x = byte 0xA9"
    using assms by (rule line_separator_Cons)
  from s(2) have "getu4 (escape_202 s @ rest) = Some (0x2020 + ord x mod 16)"
    using hex_char_digit [of "ord x mod 16"]
    by (auto simp: getu4_def escape_202_def s(1) isHex_def isDigit_def hex_digit_def ord_byte ord_def [of "CHR ''0''"] ord_def [of "CHR ''2''"])
  with s(2) show ?thesis
    by (auto simp: unquote_turn_def s(1) EncodeRune_def ord_byte escape_202_def)
qed

lemma short_escape_char:
  assumes "short_escape n = Some d"
  shows "escape_char d = byte n \<and> d \<noteq> CHR ''u'' \<and> d \<in> set ''bfnrt''"
proof -
  have "(n, d) \<in> set [(8, CHR ''b''), (12, CHR ''f''), (10, CHR ''n''), (13, CHR ''r''), (9, CHR ''t'')]"
    using assms unfolding short_escape_def by (rule map_of_SomeD)
  then have "ord (escape_char d) = n" "d \<noteq> CHR ''u''" "d \<in> set ''bfnrt''"
    by (auto simp: escape_char_def ord_def)
  then show ?thesis using byte_ord [of "escape_char d"] by simp
qed

lemma unquote_turn_encode:
  assumes "encode_turn s = (out, n)" and "s \<noteq> []" and "utf8 s"
  shows "unquote_turn (out @ rest) = (take (Suc n) s, length out - 1) \<and> out \<noteq> [] \<and> utf8 (drop (Suc n) s)"
proof -
  obtain c cs where s: "s = c # cs" using assms(2) by (cases s) auto
  show ?thesis
  proof (cases "ord c < 0x80")
    case True
    then have "utf8 cs" using assms(3) by (simp add: s utf8.simps [of "c # cs"])
    have e: "unquote_turn (CHR 0x5C # d # rest) = ([escape_char d], 1)" if "d \<noteq> CHR ''u''" for d
      using that by (simp add: unquote_turn_def getu4_def split: list.splits)
    consider "safe_char c" | "\<not> safe_char c" "c = CHR 0x22 \<or> c = CHR 0x5C"
      | d where "\<not> safe_char c" "\<not> (c = CHR 0x22 \<or> c = CHR 0x5C)" "short_escape (ord c) = Some d"
      | "\<not> safe_char c" "\<not> (c = CHR 0x22 \<or> c = CHR 0x5C)" "short_escape (ord c) = None"
      by (cases "short_escape (ord c)") blast+
    then show ?thesis
    proof cases
      case 1
      then have "c \<noteq> CHR 0x5C" by (simp add: safe_char_def)
      with 1 True assms(1) \<open>utf8 cs\<close> show ?thesis by (auto simp: encode_turn_def s unquote_turn_def)
    next
      case 2
      with True assms(1) have "out = [CHR 0x5C, c]" "n = 0" by (simp_all add: encode_turn_def s)
      with 2(2) e [of c] \<open>utf8 cs\<close> show ?thesis by (auto simp: s escape_char_def)
    next
      case 3
      then have "escape_char d = byte (ord c)" "d \<noteq> CHR ''u''" using short_escape_char by blast+
      moreover from 3 True assms(1) have "out = [CHR 0x5C, d]" "n = 0" by (simp_all add: encode_turn_def s)
      ultimately show ?thesis using e [of d] \<open>utf8 cs\<close> by (simp add: s byte_ord)
    next
      case 4
      with True assms(1) have "out = escape_00 c" "n = 0" by (simp_all add: encode_turn_def s)
      with unquote_turn_escape_00 [OF True, of rest] \<open>utf8 cs\<close> show ?thesis
        by (simp add: s escape_00_def)
    qed
  next
    case False
    then have r: "rune_bytes s \<noteq> 0" "utf8 (drop (rune_bytes s) s)"
      using assms(3) by (simp_all add: s utf8.simps [of "c # cs"] split: if_splits)
    show ?thesis
    proof (cases "line_separator s")
      case True
      then have "rune_bytes s = 3" by (rule line_separator_Cons)
      with True False assms(1) r have "out = escape_202 s" "n = 2" by (simp_all add: encode_turn_def s)
      with unquote_turn_escape_202 [OF True, of rest] r \<open>rune_bytes s = 3\<close> show ?thesis
        by (simp add: escape_202_def numeral_3_eq_3 numeral_2_eq_2)
    next
      case ns: False
      with False assms(1) r have o: "out = take (rune_bytes s) s" "n = rune_bytes s - 1"
        by (auto simp: encode_turn_def s)
      obtain a t where a: "take (rune_bytes s) s = a # t" "128 \<le> ord a" "length t = rune_bytes s - 1"
        using rune_take_Cons [OF r(1)] .
      then have "a \<noteq> CHR 0x5C" by (auto simp: ord_def)
      have k: "rune_bytes s = length (a # t)" using a(3) r(1) by simp
      have "take (rune_bytes s) (a # t @ rest) = a # t" unfolding k by simp
      with \<open>a \<noteq> CHR 0x5C\<close> show ?thesis using a r rune_bytes_take [OF r(1), of rest]
        by (simp add: o unquote_turn_def)
    qed
  qed
qed

theorem unquote_escape: "utf8 s \<Longrightarrow> unquote (escape s) = s"
proof (induction s rule: escape.induct)
  case (1 s)
  show ?case
  proof (cases "s = []")
    case False
    obtain out n where t: "encode_turn s = (out, n)" by (cases "encode_turn s")
    let ?rest = "escape (drop (Suc n) s)"
    from unquote_turn_encode [OF t False 1(2), of ?rest]
    have u: "unquote_turn (out @ ?rest) = (take (Suc n) s, length out - 1)" "out \<noteq> []" "utf8 (drop (Suc n) s)"
      by simp_all
    have "unquote (escape s) = unquote (out @ ?rest)" using False t by (simp add: escape.simps [of s])
    also have "\<dots> = take (Suc n) s @ unquote ?rest"
      using u(1,2) by (subst unquote.simps) (simp add: Suc_diff_1)
    also have "unquote ?rest = drop (Suc n) s" using 1(1) [OF False t [symmetric] u(3)] .
    finally show ?thesis by simp
  qed (simp add: escape.simps unquote.simps)
qed

subsection \<open>What the scanner does with a turn\<close>

lemma scan_escape_00: "scan (InString, stk) (escape_00 c @ rest) = scan (InString, stk) rest"
  using hex_char_digit [of "ord c div 16"] hex_char_digit [of "ord c mod 16"] ord_less [of c]
  by (simp add: escape_00_def expect_def isHex_def [of "CHR ''0''"] isDigit_def less_mult_imp_div_less)

lemma scan_escape_202: "scan (InString, stk) (escape_202 s @ rest) = scan (InString, stk) rest"
  using hex_char_digit [of "ord (s ! 2) mod 16"]
  by (simp add: escape_202_def expect_def isHex_def [of "CHR ''0''"] isHex_def [of "CHR ''2''"] isDigit_def)

lemma plain_high: "128 \<le> ord c \<Longrightarrow> plain_char c"
  by (auto simp: plain_char_def ord_def)

lemma scan_high: "list_all (\<lambda>c. 128 \<le> ord c) t \<Longrightarrow> scan (InString, stk) t = (InString, stk)"
  by (rule scan_plain) (auto simp: list_all_iff plain_high)

lemma scan_encode_turn: "scan (InString, stk) (fst (encode_turn s)) = (InString, stk)"
proof (cases s)
  case (Cons c cs)
  show ?thesis
  proof (cases "ord c < 0x80")
    case True
    have "safe_char c \<Longrightarrow> plain_char c" by (simp add: safe_char_def plain_char_def ord_def)
    with True scan_escape_00 [of stk c "[]"] short_escape_char [of "ord c"] show ?thesis
      by (auto simp: encode_turn_def Cons plain_char_def split: option.splits)
  next
    case False
    with scan_high [OF rune_high] scan_escape_202 [of stk s "[]"] show ?thesis
      by (auto simp: encode_turn_def Cons expect_def isHex_def isDigit_def)
  qed
qed (simp add: encode_turn_def)

lemma scan_escape: "scan (InString, stk) (escape s) = (InString, stk)"
proof (induction s rule: escape.induct)
  case (1 s)
  show ?case
  proof (cases "s = []")
    case False
    obtain out n where t: "encode_turn s = (out, n)" by (cases "encode_turn s")
    from 1 [OF False t [symmetric]] False t scan_encode_turn [of stk s] show ?thesis
      by (simp add: escape.simps [of s])
  qed (simp add: escape.simps)
qed

lemma encode_string_member [simp]: "member_value (encode_string s)"
  using scan_escape [of _ s]
  by (simp add: member_value_def encode_string_def json_Valid_def scan_eof_def scan_unfold)

lemma set_string_encoded [simp]: "utf8 s \<Longrightarrow> set_string old (encode_string s) = Some s"
  by (simp add: set_string_def encode_string_def unquote_escape)

text \<open>Plain ASCII without the characters of HTML is written as it is.\<close>

lemma escape_safe: "list_all safe_char s \<Longrightarrow> escape s = s"
proof (induction s)
  case (Cons c s)
  then have "encode_turn (c # s) = ([c], 0)" by (simp add: encode_turn_def safe_char_def)
  with Cons show ?case by (simp add: escape.simps [of "c # s"])
qed (simp add: escape.simps)

lemma utf8_ascii: "list_all (\<lambda>c. ord c < 0x80) s \<Longrightarrow> utf8 s"
  by (induction s) (simp_all add: utf8.simps)

section \<open>Compacting a raw value\<close>

text \<open>
  \<open>appendCompact\<close> with escaping: the scanner walks over the value; space outside strings is dropped, the
  characters of HTML and the two line separators become escapes. In a valid value these are in strings.
\<close>

definition html_char :: "char \<Rightarrow> bool" where
  "html_char c \<longleftrightarrow> c = CHR ''<'' \<or> c = CHR ''>'' \<or> c = CHR ''&''"

definition skips :: "scanner \<Rightarrow> char \<Rightarrow> bool" where
  "skips s c \<longleftrightarrow> isSpace c \<and> fst s \<noteq> InString"

function compact_from :: "scanner \<Rightarrow> bytes \<Rightarrow> bytes" where
  "compact_from s [] = []"
| "compact_from s (c # cs) =
     (if line_separator (c # cs) then escape_202 (c # cs) @ compact_from (scan s (take 3 (c # cs))) (drop 2 cs)
      else if html_char c then escape_00 c @ compact_from (scan_step s c) cs
      else if skips s c then compact_from (scan_step s c) cs
      else c # compact_from (scan_step s c) cs)"
  by pat_completeness auto
termination by (relation "measure (length \<circ> snd)") auto

declare compact_from.simps(2) [simp del]

definition compact :: "bytes \<Rightarrow> bytes option" where
  "compact v = (if json_Valid v then Some (compact_from (BeginValue, []) v) else None)"

subsection \<open>The scanner on the compacted value\<close>

text \<open>
  Dropping space leaves the scanner behind by at most one step: after a number it has not yet seen that the
  number is over.
\<close>

definition same_scan :: "scanner \<Rightarrow> scanner \<Rightarrow> bool" where
  "same_scan s s' \<longleftrightarrow> (fst s = EndTop \<longrightarrow> snd s = []) \<and>
     (s = s' \<or> fst s' \<in> {EndValue, Digits, Zero, DotDigits, ExpDigits} \<and> s = scan_step s' CHR '' '')"

lemmas scan_cases_unfold = scan_error_def end_top_def end_value_def begin_value_def begin_string_def
  push_state_def pop_state_def state0_def expect_def

lemma after_value:
  assumes "st \<in> {EndValue, Digits, Zero, DotDigits, ExpDigits}"
  shows "isSpace c \<Longrightarrow> scan_step (st, stk) c = (if stk = [] then (EndTop, []) else (EndValue, stk))"
    "c \<in> {CHR '','', CHR '':'', CHR '']'', CHR ''}''} \<Longrightarrow> scan_step (st, stk) c = end_value stk c"
proof -
  have v: "scan_step (st, stk) c = end_value stk c" if "isSpace c \<or> c \<in> {CHR '','', CHR '':'', CHR '']'', CHR ''}''}"
  proof -
    have "\<not> isDigit c" "c \<noteq> CHR ''.''" "c \<noteq> CHR ''e''" "c \<noteq> CHR ''E''"
      using that by (auto simp: isSpace_def isDigit_def)
    with assms show ?thesis by (auto simp: state0_def)
  qed
  show "isSpace c \<Longrightarrow> scan_step (st, stk) c = (if stk = [] then (EndTop, []) else (EndValue, stk))"
    using v by (simp add: end_value_def end_top_def split: list.split)
  show "c \<in> {CHR '','', CHR '':'', CHR '']'', CHR ''}''} \<Longrightarrow> scan_step (st, stk) c = end_value stk c"
    using v by blast
qed

lemma same_scan_skip:
  assumes "same_scan s s'" and "isSpace c" and "fst s \<noteq> InString" and "fst (scan_step s c) \<noteq> ScanError"
  shows "same_scan (scan_step s c) s'"
proof -
  obtain st stk where s: "s = (st, stk)" by (cases s)
  show ?thesis
  proof (cases "s = s'")
    case True
    show ?thesis
    proof (cases "st \<in> {EndValue, Digits, Zero, DotDigits, ExpDigits}")
      case True
      have "scan_step s c = scan_step s CHR '' ''"
        unfolding s using after_value(1) [OF True, of c] after_value(1) [OF True, of "CHR '' ''"] assms(2)
        by (simp add: isSpace_def)
      moreover have "fst (scan_step s c) = EndTop \<longrightarrow> snd (scan_step s c) = []"
        unfolding s using after_value(1) [OF True, of c] assms(2) by simp
      ultimately show ?thesis unfolding \<open>s = s'\<close> [symmetric] using True by (simp add: same_scan_def s)
    next
      case False
      with assms(2-4) have "scan_step s c = s \<or> st = EndTop"
        unfolding s by (cases st) (auto simp: isSpace_def scan_cases_unfold isDigit_def isHex_def split: if_splits)
      with assms(1,2) \<open>s = s'\<close> show ?thesis
        by (auto simp: same_scan_def s end_top_def)
    qed
  next
    case False
    obtain st' stk' where s': "s' = (st', stk')" by (cases s')
    from False assms(1) have e: "st' \<in> {EndValue, Digits, Zero, DotDigits, ExpDigits}" "s = scan_step s' CHR '' ''"
      by (auto simp: same_scan_def s')
    then have "s = (if stk' = [] then (EndTop, []) else (EndValue, stk'))"
      unfolding s' using after_value(1) [of st' "CHR '' ''" stk'] by (simp add: isSpace_def)
    then have "scan_step s c = s"
      using assms(2) by (auto simp: end_top_def end_value_def split: if_splits list.split)
    with assms(1) show ?thesis by simp
  qed
qed

lemma scan_step_top: "(fst s = EndTop \<longrightarrow> snd s = []) \<Longrightarrow> fst (scan_step s c) = EndTop \<Longrightarrow> snd (scan_step s c) = []"
  by (cases s; cases "fst s")
    (auto simp: scan_cases_unfold split: if_splits list.splits parse_state.splits)

lemma same_scan_step:
  assumes "same_scan s s'" and "\<not> isSpace c \<or> fst s = InString" and "fst (scan_step s c) \<noteq> ScanError"
  shows "same_scan (scan_step s c) (scan_step s' c)"
proof (cases "s = s'")
  case True
  with assms(1) scan_step_top [of s c] show ?thesis by (simp add: same_scan_def)
next
  case False
  obtain st' stk' where s': "s' = (st', stk')" by (cases s')
  from False assms(1) have e: "st' \<in> {EndValue, Digits, Zero, DotDigits, ExpDigits}" "s = scan_step s' CHR '' ''"
    by (auto simp: same_scan_def s')
  then have s: "s = (if stk' = [] then (EndTop, []) else (EndValue, stk'))"
    unfolding s' using after_value(1) [of st' "CHR '' ''" stk'] by (simp add: isSpace_def)
  with assms(2) have "\<not> isSpace c" by (auto split: if_splits)
  with assms(3) s have "stk' \<noteq> []" "c \<in> {CHR '','', CHR '':'', CHR '']'', CHR ''}''}"
    by (auto simp: end_top_def end_value_def scan_error_def split: if_splits list.splits parse_state.splits)
  with after_value(2) [OF e(1)] s have "scan_step s c = scan_step s' c" by (simp add: s')
  then show ?thesis using assms(1) scan_step_top [of s c] by (simp add: same_scan_def)
qed

text \<open>What compaction escapes occurs in strings only.\<close>

lemma odd_char:
  assumes "html_char c \<or> 128 \<le> ord c" and "fst (scan_step s c) \<noteq> ScanError"
  shows "fst s = InString \<and> scan_step s c = s"
proof -
  have c: "\<not> isSpace c" "\<not> isDigit c" "\<not> isHex c" "32 \<le> (of_char c :: nat)"
    using assms(1) by (auto simp: html_char_def isSpace_def isDigit_def isHex_def ord_def)
  have "c \<noteq> x" if "x \<in> set ''bfnrt/ulase{}[]:,.E+-0'' \<or> x = CHR 0x22 \<or> x = CHR 0x5C" for x
    using that assms(1) by (auto simp: html_char_def ord_def)
  then have n: "c \<notin> set ''bfnrt/ulase{}[]:,.E+-0''" "c \<noteq> CHR 0x22" "c \<noteq> CHR 0x5C" by blast+
  obtain st stk where s: "s = (st, stk)" by (cases s)
  show ?thesis
    using assms(2) n c(4) unfolding s
    by (cases st) (auto simp: c(1-3) scan_cases_unfold split: if_splits list.splits parse_state.splits)
qed

fun tight :: "scanner \<Rightarrow> bytes \<Rightarrow> bool" where
  "tight s [] \<longleftrightarrow> True"
| "tight s (c # cs) \<longleftrightarrow> \<not> skips s c \<and> tight (scan_step s c) cs"

lemma tight_append: "tight s (xs @ ys) \<longleftrightarrow> tight s xs \<and> tight (scan s xs) ys"
  by (induction xs arbitrary: s) auto

lemma tight_no_space: "list_all (\<lambda>c. \<not> isSpace c) xs \<Longrightarrow> tight s xs"
  by (induction xs arbitrary: s) (auto simp: skips_def)

lemma escape_no_space:
  "list_all (\<lambda>c. \<not> isSpace c) (escape_00 c)" "list_all (\<lambda>c. \<not> isSpace c) (escape_202 s)"
  using hex_char_plain [of "ord c div 16"] hex_char_plain [of "ord c mod 16"] hex_char_plain [of "ord (s ! 2) mod 16"] ord_less [of c]
  by (simp_all add: escape_00_def escape_202_def isSpace_def less_mult_imp_div_less)

lemma in_string_same: "same_scan s s' \<Longrightarrow> fst s = InString \<Longrightarrow> s' = s"
  using after_value(1) [of "fst s'" "CHR '' ''" "snd s'"] by (auto simp: same_scan_def isSpace_def split: if_splits)

text \<open>The four kinds of a turn of the compaction, for a value the scanner accepts.\<close>

lemma compact_turn:
  assumes "same_scan s s'" and "fst (scan s (c # cs)) \<noteq> ScanError"
  obtains (line) stk where "s = (InString, stk)" "s' = s" "line_separator (c # cs)" "scan s (take 3 (c # cs)) = s"
      "compact_from s (c # cs) = escape_202 (c # cs) @ compact_from s (drop 2 cs)" "fst (scan s (drop 2 cs)) \<noteq> ScanError"
  | (html) stk where "s = (InString, stk)" "s' = s" "\<not> line_separator (c # cs)" "html_char c" "scan_step s c = s"
      "compact_from s (c # cs) = escape_00 c @ compact_from s cs" "fst (scan s cs) \<noteq> ScanError"
  | (skip) "\<not> line_separator (c # cs)" "\<not> html_char c" "skips s c" "same_scan (scan_step s c) s'"
      "compact_from s (c # cs) = compact_from (scan_step s c) cs" "fst (scan (scan_step s c) cs) \<noteq> ScanError"
  | (emit) "\<not> line_separator (c # cs)" "\<not> html_char c" "\<not> skips s c" "\<not> skips s' c"
      "same_scan (scan_step s c) (scan_step s' c)"
      "compact_from s (c # cs) = c # compact_from (scan_step s c) cs" "fst (scan (scan_step s c) cs) \<noteq> ScanError"
proof -
  have rest: "fst (scan (scan_step s c) cs) \<noteq> ScanError" using assms(2) by simp
  then have step: "fst (scan_step s c) \<noteq> ScanError" using scan_after_error by blast
  consider (l) "line_separator (c # cs)" | (h) "\<not> line_separator (c # cs)" "html_char c"
    | (s) "\<not> line_separator (c # cs)" "\<not> html_char c" "skips s c"
    | (e) "\<not> line_separator (c # cs)" "\<not> html_char c" "\<not> skips s c" by blast
  then show thesis
  proof cases
    case l
    then obtain x r where x: "c # cs = byte 0xE2 # byte 0x80 # x # r" "x = byte 0xA8 \<or> x = byte 0xA9"
      by (rule line_separator_Cons)
    then have c: "128 \<le> ord c" by (simp add: ord_byte)
    with step have in_s: "fst s = InString" using odd_char by blast
    moreover have "list_all (\<lambda>c. 128 \<le> ord c) (take 3 (c # cs))" unfolding x(1) using x(2) by (auto simp: ord_byte)
    ultimately have t: "scan s (take 3 (c # cs)) = s" using scan_high by (metis prod.collapse)
    have "c # cs = take 3 (c # cs) @ drop 2 cs" by (cases cs; cases "tl cs") (simp_all add: numeral_3_eq_3 numeral_2_eq_2)
    then have "scan s (c # cs) = scan s (drop 2 cs)" using t by (metis scan_append)
    with assms(2) have ne: "fst (scan s (drop 2 cs)) \<noteq> ScanError" by simp
    have cf: "compact_from s (c # cs) = escape_202 (c # cs) @ compact_from s (drop 2 cs)"
      using l t by (simp only: compact_from.simps(2) if_True)
    have "s = (InString, snd s)" using in_s by (simp add: prod_eq_iff)
    then show thesis using in_string_same [OF assms(1) in_s] l t cf ne by (rule line)
  next
    case h
    from odd_char [OF _ step] h(2) have "fst s = InString" "scan_step s c = s" by blast+
    note in_s = this
    have cf: "compact_from s (c # cs) = escape_00 c @ compact_from s cs"
      using h in_s(2) by (simp only: compact_from.simps(2) if_True if_False)
    have ne: "fst (scan s cs) \<noteq> ScanError" using rest unfolding in_s(2) .
    have "s = (InString, snd s)" using in_s by (simp add: prod_eq_iff)
    then show thesis using in_string_same [OF assms(1) in_s(1)] h in_s(2) cf ne by (rule html)
  next
    case s
    then have "same_scan (scan_step s c) s'" using step by (intro same_scan_skip [OF assms(1)]) (simp_all add: skips_def)
    with s rest show thesis by (intro skip) (simp_all add: compact_from.simps(2))
  next
    case e
    then have c: "\<not> isSpace c \<or> fst s = InString" by (simp add: skips_def)
    then have "\<not> skips s' c" using in_string_same [OF assms(1)] by (auto simp: skips_def)
    with e rest same_scan_step [OF assms(1) c step] show thesis by (intro emit) (simp_all add: compact_from.simps(2))
  qed
qed

lemma compact_scan:
  "same_scan s s' \<Longrightarrow> fst (scan s cs) \<noteq> ScanError \<Longrightarrow>
   same_scan (scan s cs) (scan s' (compact_from s cs)) \<and> tight s' (compact_from s cs)"
proof (induction "length cs" arbitrary: s s' cs rule: less_induct)
  case less
  show ?case
  proof (cases cs)
    case (Cons c cs')
    from less.prems(1,2) [unfolded Cons] show ?thesis
    proof (cases rule: compact_turn)
      case (line stk)
      have "cs = take 3 cs @ drop 2 cs'" unfolding Cons by (cases cs'; cases "tl cs'") (simp_all add: numeral_3_eq_3 numeral_2_eq_2)
      then have "scan s cs = scan s (drop 2 cs')" using line(4) by (metis Cons scan_append)
      moreover have "scan s' (escape_202 cs) = s'" using scan_escape_202 [of stk cs "[]"] by (simp add: line(1,2))
      moreover have "same_scan (scan s (drop 2 cs')) (scan s' (compact_from s (drop 2 cs'))) \<and> tight s' (compact_from s (drop 2 cs'))"
        using less.hyps [of "drop 2 cs'" s s'] less.prems(1) line(6) by (simp add: Cons)
      ultimately show ?thesis
        using line(5) tight_no_space [OF escape_no_space(2)] by (simp add: Cons tight_append)
    next
      case (html stk)
      have "scan s' (escape_00 c) = s'" using scan_escape_00 [of stk c "[]"] by (simp add: html(1,2))
      moreover have "same_scan (scan s cs') (scan s' (compact_from s cs')) \<and> tight s' (compact_from s cs')"
        using less.hyps [of cs' s s'] less.prems(1) html(7) by (simp add: Cons)
      ultimately show ?thesis
        using html(5,6) tight_no_space [OF escape_no_space(1)] by (simp add: Cons tight_append)
    next
      case skip
      then show ?thesis using less.hyps [of cs' "scan_step s c" s'] by (simp add: Cons)
    next
      case emit
      then show ?thesis using less.hyps [of cs' "scan_step s c" "scan_step s' c"] by (simp add: Cons)
    qed
  qed (use less.prems in simp)
qed

text \<open>The compacted value is JSON, has no space at its ends, and needs no more nesting.\<close>

lemma tight_last:
  assumes "tight s (xs @ [c])" and "scan_eof (scan s (xs @ [c]))"
  shows "\<not> isSpace c"
proof
  assume c: "isSpace c"
  with assms(1) have "fst (scan s xs) = InString" by (simp add: tight_append skips_def)
  then have "scan s xs = (InString, snd (scan s xs))" by (simp add: prod_eq_iff)
  then have "scan s (xs @ [c]) = scan_step (InString, snd (scan s xs)) c" by (metis scan_append scan_Cons scan_Nil)
  with c assms(2) show False by (auto simp: isSpace_def scan_eof_def scan_error_def split: if_splits)
qed

lemma same_scan_eof:
  assumes "same_scan s s'" and "scan_eof s"
  shows "scan_eof s'"
proof (cases "s = s'")
  case False
  with assms(1) have e: "fst s' \<in> {EndValue, Digits, Zero, DotDigits, ExpDigits}" "s = scan_step s' CHR '' ''"
    by (auto simp: same_scan_def)
  then have "s = (if snd s' = [] then (EndTop, []) else (EndValue, snd s'))"
    using after_value(1) [of "fst s'" "CHR '' ''" "snd s'"] by (simp add: isSpace_def)
  note s = this
  show ?thesis
  proof (cases "snd s' = []")
    case True
    with s e(2) show ?thesis by (simp add: scan_eof_def)
  next
    case False
    then have "\<not> scan_eof s" unfolding s by (auto simp: scan_eof_def end_value_def isSpace_def split: list.split)
    with assms(2) show ?thesis by simp
  qed
qed (use assms in simp)

lemma same_scan_error: "same_scan s s' \<Longrightarrow> fst s \<noteq> ScanError \<Longrightarrow> fst s' \<noteq> ScanError"
  by (auto simp: same_scan_def)

lemma same_scan_refl: "fst s \<noteq> EndTop \<Longrightarrow> same_scan s s"
  by (simp add: same_scan_def)

text \<open>Compacting does not depend on where the value stands.\<close>

lemma nested_step_any:
  assumes "nested s s'" and "fst (scan_step s c) \<noteq> ScanError" and "fst (scan_step s' c) \<noteq> ScanError"
  shows "nested (scan_step s c) (scan_step s' c)"
proof (cases "value_ends s' c")
  case True
  with value_ends_complete [OF assms(1) True assms(2)] after_value(1) [of "fst s'" c "snd s'"]
  show ?thesis by (simp add: nested_def value_ends_def)
qed (rule nested_step [OF assms(1,2) _ assms(3)])

lemma compact_nested:
  "nested s s' \<Longrightarrow> fst (scan s v) \<noteq> ScanError \<Longrightarrow> fst (scan s' v) \<noteq> ScanError \<Longrightarrow> compact_from s' v = compact_from s v"
proof (induction "length v" arbitrary: s s' v rule: less_induct)
  case less
  show ?case
  proof (cases v)
    case (Cons c cs)
    have e: "fst (scan_step s c) \<noteq> ScanError" "fst (scan_step s' c) \<noteq> ScanError"
      using less.prems(2,3) scan_after_error [of "scan_step s c" cs] scan_after_error [of "scan_step s' c" cs]
      by (auto simp: Cons)
    have n: "nested (scan_step s c) (scan_step s' c)" by (rule nested_step_any [OF less.prems(1) e])
    have one: "compact_from (scan_step s' c) cs = compact_from (scan_step s c) cs"
      using less.hyps [OF _ n, of cs] less.prems(2,3) by (simp add: Cons)
    have sk: "skips s' c \<longleftrightarrow> skips s c"
      using less.prems(1) by (auto simp: skips_def nested_def)
    show ?thesis
    proof (cases "line_separator (c # cs)")
      case False
      with one sk show ?thesis by (simp add: Cons compact_from.simps(2))
    next
      case True
      then obtain x r where x: "c # cs = byte 0xE2 # byte 0x80 # x # r" "x = byte 0xA8 \<or> x = byte 0xA9"
        by (rule line_separator_Cons)
      then have "128 \<le> ord c" by (simp add: ord_byte)
      with e odd_char have in_s: "fst s = InString" "fst s' = InString" by blast+
      have "list_all (\<lambda>c. 128 \<le> ord c) (take 3 (c # cs))" unfolding x(1) using x(2) by (auto simp: ord_byte)
      then have t: "scan s (take 3 (c # cs)) = s" "scan s' (take 3 (c # cs)) = s'"
        using in_s scan_high by (metis prod.collapse)+
      have "v = take 3 (c # cs) @ drop 2 cs" unfolding Cons by (cases cs; cases "tl cs") (simp_all add: numeral_3_eq_3 numeral_2_eq_2)
      then have "fst (scan s (drop 2 cs)) \<noteq> ScanError" "fst (scan s' (drop 2 cs)) \<noteq> ScanError"
        using less.prems(2,3) t by (metis scan_append)+
      then have "compact_from s' (drop 2 cs) = compact_from s (drop 2 cs)"
        using less.hyps [of "drop 2 cs" s s'] less.prems(1) by (simp add: Cons)
      with True t show ?thesis by (simp only: Cons compact_from.simps(2) if_True)
    qed
  qed simp
qed

theorem compact_member:
  assumes "compact v = Some b" and "fst (scan (BeginValue, [ParseObjectValue]) v) \<noteq> ScanError"
  shows "member_value b"
proof -
  from assms(1) have v: "scan_eof (scan (BeginValue, []) v)" and b: "b = compact_from (BeginValue, []) v"
    by (auto simp: compact_def json_Valid_def split: if_splits)
  from v scan_eof_no_error [of "scan (BeginValue, []) v" "[]"] have ok: "fst (scan (BeginValue, []) v) \<noteq> ScanError" by simp
  have c: "same_scan (scan (BeginValue, []) v) (scan (BeginValue, []) b)" "tight (BeginValue, []) b"
    using compact_scan [OF same_scan_refl ok] by (simp_all add: b)
  have eof: "scan_eof (scan (BeginValue, []) b)" using same_scan_eof [OF c(1) v] .
  then have ne: "b \<noteq> []" by (auto simp: scan_eof_def scan_unfold)
  then have l: "\<not> isSpace (last b)" using tight_last [of _ "butlast b" "last b"] c(2) eof by simp
  have h: "\<not> isSpace (hd b)" using c(2) ne by (cases b) (auto simp: skips_def)
  have "nested (BeginValue, []) (BeginValue, [ParseObjectValue])" by (simp add: nested_def)
  from compact_nested [OF this ok assms(2)] have "b = compact_from (BeginValue, [ParseObjectValue]) v" by (simp add: b)
  then have "fst (scan (BeginValue, [ParseObjectValue]) b) \<noteq> ScanError"
    using same_scan_error [OF conjunct1 [OF compact_scan [OF same_scan_refl assms(2)]] assms(2)] by simp
  with eof l h show ?thesis by (simp add: member_value_def json_Valid_def)
qed

text \<open>What is compacted is left alone by compacting again.\<close>

fun no_separator :: "bytes \<Rightarrow> bool" where
  "no_separator [] \<longleftrightarrow> True"
| "no_separator (c # cs) \<longleftrightarrow> \<not> line_separator (c # cs) \<and> no_separator cs"

definition clean :: "scanner \<Rightarrow> bytes \<Rightarrow> bool" where
  "clean s v \<longleftrightarrow> tight s v \<and> list_all (\<lambda>c. \<not> html_char c) v \<and> no_separator v"

lemma compact_clean: "clean s v \<Longrightarrow> compact_from s v = v"
  by (induction v arbitrary: s) (auto simp: clean_def compact_from.simps(2))

lemma separator_head: "line_separator (c # cs) \<Longrightarrow> c = byte 0xE2"
  by (simp add: line_separator_def) blast

lemma no_separator_ascii: "list_all (\<lambda>c. ord c < 128) xs \<Longrightarrow> no_separator (xs @ ys) = no_separator ys"
proof (induction xs)
  case (Cons x xs)
  then have "x \<noteq> byte 0xE2" using ord_byte [of "0xE2"] by auto
  with Cons separator_head [of x "xs @ ys"] show ?case by auto
qed simp

lemma compact_plain:
  assumes "list_all (\<lambda>c. ord c < 128 \<and> \<not> html_char c \<and> \<not> isSpace c) v" and "json_Valid v"
  shows "compact v = Some v"
proof -
  have "no_separator (v @ [])" using assms(1) by (subst no_separator_ascii) (auto simp: list_all_iff)
  then have "clean (BeginValue, []) v"
    using assms(1) tight_no_space [of v "(BeginValue, [])"] by (auto simp: clean_def list_all_iff)
  with assms(2) show ?thesis by (simp add: compact_def compact_clean)
qed

lemma compact_ascii_step:
  "ord c < 128 \<Longrightarrow> compact_from s (c # cs) =
     (if html_char c then escape_00 c @ compact_from (scan_step s c) cs
      else if skips s c then compact_from (scan_step s c) cs else c # compact_from (scan_step s c) cs)"
proof -
  assume "ord c < 128"
  then have "c \<noteq> byte 0xE2" using ord_byte [of "0xE2"] by auto
  then show ?thesis using separator_head [of c cs] by (auto simp: compact_from.simps(2))
qed

lemma hex_char_ascii: "d < 16 \<Longrightarrow> ord (hex_char d) < 128 \<and> \<not> html_char (hex_char d)"
  by (drule less_16_cases, elim disjE, drule less_10_cases, elim disjE)
    (simp_all add: hex_char_def ord_def html_char_def)

lemma escape_ascii:
  "list_all (\<lambda>c. ord c < 128 \<and> \<not> html_char c) (escape_00 c)" "list_all (\<lambda>c. ord c < 128 \<and> \<not> html_char c) (escape_202 s)"
  using hex_char_ascii [of "ord c div 16"] hex_char_ascii [of "ord c mod 16"] hex_char_ascii [of "ord (s ! 2) mod 16"] ord_less [of c]
  by (simp_all add: escape_00_def escape_202_def ord_def html_char_def less_mult_imp_div_less)

lemma escape_head: "\<exists>t. escape_00 c @ r = CHR 0x5C # t" "\<exists>t. escape_202 s @ r = CHR 0x5C # t"
  by (simp_all add: escape_00_def escape_202_def)

text \<open>Inside a string the compacted value shows a byte of the value first, or a backslash.\<close>

lemma compact_high_head:
  assumes "fst s = InString" and "fst (scan s v) \<noteq> ScanError" and "compact_from s v = x # r" and "128 \<le> ord x"
  shows "\<exists>w. v = x # w \<and> r = compact_from s w \<and> fst (scan s w) \<noteq> ScanError"
proof (cases v)
  case (Cons c cs)
  have x: "x \<noteq> CHR 0x5C" using assms(4) by (auto simp: ord_def)
  have "same_scan s s" using assms(1) by (intro same_scan_refl) simp
  from this assms(2) [unfolded Cons] show ?thesis
  proof (cases rule: compact_turn)
    case (line stk)
    with assms(3) x escape_head(2) [of "c # cs" "compact_from s (drop 2 cs)"] show ?thesis by (auto simp: Cons)
  next
    case (html stk)
    with assms(3) x escape_head(1) [of c "compact_from s cs"] show ?thesis by (auto simp: Cons)
  next
    case skip
    with assms(1) show ?thesis by (simp add: skips_def)
  next
    case emit
    with assms(3) have c: "c = x" by (simp add: Cons)
    have r: "compact_from (scan_step s x) cs = r" using assms(3) emit(6) unfolding Cons c by simp
    have "fst (scan_step s x) \<noteq> ScanError" using emit(7) scan_after_error unfolding c by blast
    with odd_char [of x s] assms(4) have st: "scan_step s x = s" by blast
    show ?thesis using emit(7) r unfolding c st by (auto simp: Cons c)
  qed
qed (use assms in simp)

lemma compact_no_new_separator:
  assumes "fst (scan s (c # cs)) \<noteq> ScanError" and "line_separator (c # compact_from (scan_step s c) cs)"
  shows "line_separator (c # cs)"
proof -
  obtain x r where x: "c # compact_from (scan_step s c) cs = byte 0xE2 # byte 0x80 # x # r" "x = byte 0xA8 \<or> x = byte 0xA9"
    using assms(2) by (rule line_separator_Cons)
  then have c: "128 \<le> ord c" "c = byte 0xE2" by (simp_all add: ord_byte)
  have "fst (scan_step s c) \<noteq> ScanError" using assms(1) scan_after_error [of "scan_step s c" cs] by auto
  with odd_char [of c s] c(1) have s: "fst s = InString" "scan_step s c = s" by blast+
  from x(1) s(2) have "compact_from s cs = byte 0x80 # x # r" "fst (scan s cs) \<noteq> ScanError" using assms(1) by simp_all
  from compact_high_head [OF s(1) this(2,1)] obtain w where
    w: "cs = byte 0x80 # w" "x # r = compact_from s w" "fst (scan s w) \<noteq> ScanError" by (auto simp: ord_byte)
  from compact_high_head [OF s(1) w(3) w(2) [symmetric]] x(2) obtain w' where "w = x # w'" by (auto simp: ord_byte)
  with w(1) c(2) x(2) show ?thesis by (auto simp: line_separator_def)
qed

lemma compact_is_clean:
  "same_scan s s' \<Longrightarrow> fst (scan s v) \<noteq> ScanError \<Longrightarrow>
   list_all (\<lambda>c. \<not> html_char c) (compact_from s v) \<and> no_separator (compact_from s v)"
proof (induction "length v" arbitrary: s s' v rule: less_induct)
  case less
  show ?case
  proof (cases v)
    case (Cons c cs)
    from less.prems(1,2) [unfolded Cons] show ?thesis
    proof (cases rule: compact_turn)
      case (line stk)
      have "list_all (\<lambda>c. \<not> html_char c) (compact_from s (drop 2 cs)) \<and> no_separator (compact_from s (drop 2 cs))"
        using less.hyps [of "drop 2 cs" s s'] less.prems(1) line(6) by (simp add: Cons)
      then show ?thesis unfolding Cons line(5)
        using escape_ascii(2) [of "c # cs"] no_separator_ascii [of "escape_202 (c # cs)"] by (auto simp: list_all_iff)
    next
      case (html stk)
      have "list_all (\<lambda>c. \<not> html_char c) (compact_from s cs) \<and> no_separator (compact_from s cs)"
        using less.hyps [of cs s s'] less.prems(1) html(7) by (simp add: Cons)
      then show ?thesis unfolding Cons html(6)
        using escape_ascii(1) [of c] no_separator_ascii [of "escape_00 c"] by (auto simp: list_all_iff)
    next
      case skip
      then show ?thesis using less.hyps [of cs "scan_step s c" s'] by (simp add: Cons)
    next
      case emit
      then show ?thesis
        using less.hyps [of cs "scan_step s c" "scan_step s' c"] compact_no_new_separator [of s c cs] less.prems(2)
        by (auto simp: Cons)
    qed
  qed simp
qed

theorem compact_idempotent: "compact v = Some b \<Longrightarrow> compact b = Some b"
proof -
  assume "compact v = Some b"
  then have v: "scan_eof (scan (BeginValue, []) v)" and b: "b = compact_from (BeginValue, []) v"
    by (auto simp: compact_def json_Valid_def split: if_splits)
  from v scan_eof_no_error [of "scan (BeginValue, []) v" "[]"] have ok: "fst (scan (BeginValue, []) v) \<noteq> ScanError" by simp
  from compact_scan [OF same_scan_refl ok] compact_is_clean [OF same_scan_refl ok]
  have "same_scan (scan (BeginValue, []) v) (scan (BeginValue, []) b)" "clean (BeginValue, []) b"
    by (simp_all add: b clean_def)
  with same_scan_eof v compact_clean show ?thesis by (auto simp: compact_def json_Valid_def)
qed

section \<open>Objects\<close>

text \<open>Names of ASCII fold letter by letter.\<close>

definition upper_code :: "char \<Rightarrow> nat" where
  "upper_code c = (if 97 \<le> ord c \<and> ord c \<le> 122 then ord c - 32 else ord c)"

lemma ord_upper: "ord (upper c) = upper_code c"
  using ord_less [of c] ord_byte [of "ord c - 32"] by (simp add: upper_def upper_code_def)

lemma fold_name_ascii: "list_all (\<lambda>c. ord c < 128) s \<Longrightarrow> fold_name s = map upper s"
proof (induction s)
  case (Cons c s)
  then have "c \<noteq> byte 0xC5" "c \<noteq> byte 0xE2" using ord_byte [of "0xC5"] ord_byte [of "0xE2"] by auto
  with Cons show ?case by simp
qed simp

lemma ord_inj: "ord a = ord b \<longleftrightarrow> a = b"
  by (simp add: ord_def)

lemma names_field_ascii:
  assumes "list_all (\<lambda>c. ord c < 128) key" and "list_all (\<lambda>c. ord c < 128) field"
  shows "names_field key field \<longleftrightarrow> map upper_code key = map upper_code field"
proof -
  have inj: "map upper xs = map upper ys \<longleftrightarrow> map ord (map upper xs) = map ord (map upper ys)" for xs ys
    by (rule inj_map_eq_map [symmetric]) (auto simp: inj_def ord_inj)
  have code: "map ord (map upper xs) = map upper_code xs" for xs by (simp add: ord_upper)
  show ?thesis unfolding names_field_def fold_name_ascii [OF assms(1)] fold_name_ascii [OF assms(2)] inj code ..
qed

text \<open>The members of a struct in their order, the names quoted, the values already encoded.\<close>

definition member_text :: "bytes \<times> bytes \<Rightarrow> bytes" where
  "member_text kv = [CHR 0x22] @ fst kv @ [CHR 0x22, CHR '':''] @ snd kv"

fun members_text :: "(bytes \<times> bytes) list \<Rightarrow> bytes" where
  "members_text [] = []"
| "members_text [kv] = member_text kv"
| "members_text (kv # kvs) = member_text kv @ CHR '','' # members_text kvs"

definition object_text :: "(bytes \<times> bytes) list \<Rightarrow> bytes" where
  "object_text kvs = CHR ''{'' # members_text kvs @ ''}''"

definition written_member :: "bytes \<times> bytes \<Rightarrow> bool" where
  "written_member kv \<longleftrightarrow> ascii_text (fst kv) \<and> member_value (snd kv)"

fun fold_fields :: "(bytes \<Rightarrow> bytes \<Rightarrow> 'a \<Rightarrow> 'a option) \<Rightarrow> (bytes \<times> bytes) list \<Rightarrow> 'a \<Rightarrow> 'a option" where
  "fold_fields f [] r = Some r"
| "fold_fields f (kv # kvs) r = (case f (fst kv) (snd kv) r of None \<Rightarrow> None | Some r' \<Rightarrow> fold_fields f kvs r')"

lemma next_member_text:
  "written_member kv \<Longrightarrow> d = CHR '','' \<or> d = CHR ''}'' \<Longrightarrow>
   next_member (member_text kv @ d # rest) = Some (fst kv, snd kv, after_comma (d # rest))"
  using next_member_written [of "fst kv" "snd kv" d rest] by (simp add: written_member_def member_text_def)

lemma decode_fields_next:
  "next_member s = Some (key, v, rest) \<Longrightarrow>
   decode_fields f s r = (case f key v r of None \<Rightarrow> None | Some r' \<Rightarrow> decode_fields f rest r')"
  by (simp add: decode_fields.simps [of f s])

lemma decode_members_text:
  "list_all written_member kvs \<Longrightarrow> decode_fields f (members_text kvs @ ''}'') r = fold_fields f kvs r"
proof (induction kvs arbitrary: r rule: members_text.induct)
  case 1
  show ?case by (simp add: decode_fields_end)
next
  case (2 kv)
  then show ?case using next_member_text [of kv "CHR ''}''" "[]"]
    by (simp add: decode_fields_next after_comma_def decode_fields_end split: option.split)
next
  case (3 kv kv' kvs)
  then show ?case using next_member_text [of kv "CHR '',''" "members_text (kv' # kvs) @ ''}''"]
    by (simp add: decode_fields_next after_comma_def split: option.split)
qed

lemma scan_member_text:
  assumes "written_member kv" and "st \<in> {BeginString, BeginStringOrEmpty}"
  shows "scan (st, [ParseObjectKey]) (member_text kv) = scan (BeginValue, [ParseObjectValue]) (snd kv)"
proof -
  have "scan (InString, [ParseObjectKey]) (fst kv) = (InString, [ParseObjectKey])"
    using assms(1) by (intro scan_plain) (auto simp: written_member_def ascii_text_def list_all_iff)
  with assms(2) show ?thesis by (auto simp: member_text_def scan_unfold)
qed

lemma scan_members_text:
  "list_all written_member kvs \<Longrightarrow> kvs \<noteq> [] \<Longrightarrow> st \<in> {BeginString, BeginStringOrEmpty} \<Longrightarrow>
   scan (st, [ParseObjectKey]) (members_text kvs) = scan (BeginValue, [ParseObjectValue]) (snd (last kvs))"
proof (induction kvs arbitrary: st rule: members_text.induct)
  case (2 kv)
  then show ?case by (simp add: scan_member_text)
next
  case (3 kv kv' kvs)
  have "member_value (snd kv)" using 3(2) by (simp add: written_member_def)
  with 3 show ?case by (simp add: scan_member_text member_value_then)
qed simp

lemma object_text_prefix:
  assumes "list_all written_member kvs" and "kvs \<noteq> []"
  shows "object_prefix (BeginValue, []) (object_text kvs @ junk) = Some (object_text kvs)"
    "scan (BeginValue, []) (object_text kvs) = (EndTop, [])"
proof -
  let ?body = "CHR ''{'' # members_text kvs"
  have b: "scan (BeginValue, []) ?body = scan (BeginValue, [ParseObjectValue]) (snd (last kvs))"
    using scan_members_text [OF assms, of BeginStringOrEmpty]
    by (simp add: begin_value_def isSpace_def push_state_def maxNestingDepth_def)
  have last: "member_value (snd (last kvs))"
    using assms by (auto simp: list_all_iff written_member_def)
  then have "fst (scan (BeginValue, []) ?body) \<notin> {EndTop, ScanError}"
    using split_member_value(3) [OF last, of "CHR '',''"] unfolding b by auto
  from object_prefix_append [OF this, of "CHR ''}'' # junk"]
  show "object_prefix (BeginValue, []) (object_text kvs @ junk) = Some (object_text kvs)"
    using member_value_then(2) [OF last] unfolding b by (simp add: object_text_def)
  show "scan (BeginValue, []) (object_text kvs) = (EndTop, [])"
    using member_value_then(2) [OF last] b by (simp add: object_text_def)
qed

lemma object_text_json: "list_all written_member kvs \<Longrightarrow> kvs \<noteq> [] \<Longrightarrow> json_Valid (object_text kvs)"
  by (simp add: json_Valid_def object_text_prefix(2) scan_eof_def)

end
