(* ===== verification/GoTime.thy ===== *)
theory GoTime
  imports Json
begin

text \<open>
  How \<open>encoding/json\<close> writes and reads a \<open>time.Time\<close>: RFC 3339 with nanoseconds. The instant is a number
  of nanoseconds since 1970; the clock on the wall, which the text shows, is that instant in the time zone
  of the process, given as the seconds it is ahead of UTC. The calendar is the one of Go's package \<open>time\<close>
  (proleptic Gregorian, no leap seconds). Reading follows \<open>time.Parse(RFC3339, _)\<close> with its tolerance:
  an hour of one digit, a comma for the point, offsets of up to 24 hours and 60 minutes.
\<close>

section \<open>The calendar\<close>

definition isLeap :: "int \<Rightarrow> bool" where
  "isLeap y \<longleftrightarrow> y mod 4 = 0 \<and> (y mod 100 \<noteq> 0 \<or> y mod 400 = 0)"

definition month_lengths :: "int \<Rightarrow> int list" where
  "month_lengths y = [31, if isLeap y then 29 else 28, 31, 30, 31, 30, 31, 31, 30, 31, 30, 31]"

text \<open>The month, from 0, in which a day of the year falls, and the day of that month, from 0.\<close>

fun split_month :: "int list \<Rightarrow> int \<Rightarrow> nat \<times> int" where
  "split_month [] d = (0, d)"
| "split_month (n # ns) d =
     (if d < n then (0, d) else case split_month ns (d - n) of (m, r) \<Rightarrow> (Suc m, r))"

text \<open>Days are counted from 1 January of the year 1.\<close>

definition civil :: "int \<Rightarrow> int \<times> nat \<times> nat" where
  "civil days =
     (let n400 = days div 146097; r = days mod 146097;
          n100 = min 3 (r div 36524); r = r - 36524 * n100;
          n4 = r div 1461; r = r - 1461 * n4;
          n1 = min 3 (r div 365); r = r - 365 * n1;
          y = 400 * n400 + 100 * n100 + 4 * n4 + n1 + 1
      in case split_month (month_lengths y) r of (m, d) \<Rightarrow> (y, Suc m, nat d + 1))"

definition days_before_year :: "int \<Rightarrow> int" where
  "days_before_year y = (let p = y - 1 in 365 * p + p div 4 - p div 100 + p div 400)"

definition civil_days :: "int \<Rightarrow> nat \<Rightarrow> nat \<Rightarrow> int" where
  "civil_days y m d = days_before_year y + sum_list (take (m - 1) (month_lengths y)) + (int d - 1)"

definition daysIn :: "nat \<Rightarrow> int \<Rightarrow> nat" where
  "daysIn m y = nat (month_lengths y ! (m - 1))"

lemma split_month_spec:
  "split_month ns d = (m, r) \<Longrightarrow> 0 \<le> d \<Longrightarrow> d < sum_list ns \<Longrightarrow>
   m < length ns \<and> 0 \<le> r \<and> r < ns ! m \<and> sum_list (take m ns) + r = d"
proof (induction ns d arbitrary: m r rule: split_month.induct)
  case (2 n ns d)
  show ?case
  proof (cases "d < n")
    case True
    with 2(2,3) show ?thesis by auto
  next
    case False
    with 2(2) obtain m' where m': "split_month ns (d - n) = (m', r)" "m = Suc m'"
      by (auto split: prod.splits)
    from 2(1) [OF False m'(1)] False 2(4) m'(2) show ?thesis by simp
  qed
qed simp

text \<open>The cycles of 400, 100, 4 and 1 years.\<close>

lemma year_cycles:
  fixes a b c e :: int
  assumes "0 \<le> b" "b \<le> 3" "0 \<le> c" "c \<le> 24" "0 \<le> e" "e \<le> 3"
  shows "days_before_year (400 * a + 100 * b + 4 * c + e + 1) = 146097 * a + 36524 * b + 1461 * c + 365 * e"
proof -
  let ?p = "400 * a + 100 * b + 4 * c + e"
  have "?p div 4 = 100 * a + 25 * b + c" by (rule int_div_pos_eq [of _ _ _ e]) (use assms in simp_all)
  moreover have "?p div 100 = 4 * a + b" by (rule int_div_pos_eq [of _ _ _ "4 * c + e"]) (use assms in simp_all)
  moreover have "?p div 400 = a" by (rule int_div_pos_eq [of _ _ _ "100 * b + 4 * c + e"]) (use assms in simp_all)
  ultimately show ?thesis by (simp add: days_before_year_def Let_def)
qed

lemma leap_cycle:
  fixes a b c e :: int
  assumes "0 \<le> b" "b \<le> 3" "0 \<le> c" "c \<le> 24" "0 \<le> e" "e \<le> 3"
  shows "isLeap (400 * a + 100 * b + 4 * c + e + 1) \<longleftrightarrow> e = 3 \<and> (c \<noteq> 24 \<or> b = 3)"
proof -
  let ?y = "400 * a + 100 * b + 4 * c + e + 1"
  let ?r = "4 * c + e + 1"
  have 4: "?y mod 4 = 0 \<longleftrightarrow> e = 3"
  proof (cases "e = 3")
    case True
    have "?y mod 4 = 0" by (rule int_mod_pos_eq [of _ _ "100 * a + 25 * b + c + 1"]) (use True in simp_all)
    with True show ?thesis by simp
  next
    case False
    have "?y mod 4 = e + 1" by (rule int_mod_pos_eq [of _ _ "100 * a + 25 * b + c"]) (use False assms in simp_all)
    with False assms show ?thesis by simp
  qed
  have 100: "?y mod 100 = 0 \<longleftrightarrow> c = 24 \<and> e = 3"
  proof (cases "c = 24 \<and> e = 3")
    case True
    have "?y mod 100 = 0" by (rule int_mod_pos_eq [of _ _ "4 * a + b + 1"]) (use True in simp_all)
    with True show ?thesis by simp
  next
    case False
    have "?y mod 100 = ?r" by (rule int_mod_pos_eq [of _ _ "4 * a + b"]) (use False assms in auto)
    with False assms show ?thesis by simp
  qed
  have 400: "?y mod 400 = 0 \<longleftrightarrow> b = 3 \<and> c = 24 \<and> e = 3"
  proof (cases "b = 3 \<and> c = 24 \<and> e = 3")
    case True
    have "?y mod 400 = 0" by (rule int_mod_pos_eq [of _ _ "a + 1"]) (use True in simp_all)
    with True show ?thesis by simp
  next
    case False
    have "?y mod 400 = 100 * b + ?r" by (rule int_mod_pos_eq [of _ _ "a"]) (use False assms in auto)
    with False assms show ?thesis by simp
  qed
  show ?thesis unfolding isLeap_def 4 100 400 by blast
qed

text \<open>Division with a remainder that may reach the divisor in the last cycle.\<close>

lemma last_cycle:
  fixes x q n k :: int
  assumes "0 \<le> x" "x < (k + 1) * n + 1" "0 < n" "0 \<le> k" "q = min k (x div n)"
  shows "0 \<le> q \<and> q \<le> k \<and> 0 \<le> x - n * q \<and> (x - n * q < n \<or> q = k \<and> x - n * q \<le> n)"
proof (cases "x div n \<le> k")
  case True
  have "x - n * (x div n) = x mod n" by (simp add: minus_mult_div_eq_mod)
  with True assms show ?thesis by (simp add: pos_imp_zdiv_nonneg_iff)
next
  case False
  then have "(k + 1) * n \<le> x div n * n" using \<open>0 < n\<close> by (intro mult_right_mono) simp_all
  also have "\<dots> \<le> x" using div_mult_mod_eq [of x n] pos_mod_sign [OF \<open>0 < n\<close>, of x] by linarith
  finally have "(k + 1) * n \<le> x" .
  with False assms show ?thesis by (simp add: algebra_simps)
qed

lemma sum_month_lengths: "sum_list (month_lengths y) = (if isLeap y then 366 else 365)"
  by (simp add: month_lengths_def)

lemma civil_parts:
  fixes days :: int
  obtains a b c e r where "days = 146097 * a + 36524 * b + 1461 * c + 365 * e + r"
    "0 \<le> b" "b \<le> 3" "0 \<le> c" "c \<le> 24" "0 \<le> e" "e \<le> 3" "0 \<le> r"
    "r < (if isLeap (400 * a + 100 * b + 4 * c + e + 1) then 366 else 365)"
    "civil days = (case split_month (month_lengths (400 * a + 100 * b + 4 * c + e + 1)) r of
       (m, d) \<Rightarrow> (400 * a + 100 * b + 4 * c + e + 1, Suc m, nat d + 1))"
proof -
  define a where "a = days div 146097"
  define r1 where "r1 = days mod 146097"
  define b where "b = min 3 (r1 div 36524)"
  define r2 where "r2 = r1 - 36524 * b"
  define c where "c = r2 div 1461"
  define r3 where "r3 = r2 - 1461 * c"
  define e where "e = min 3 (r3 div 365)"
  define r where "r = r3 - 365 * e"
  have r1: "0 \<le> r1" "r1 < 146097" "days = 146097 * a + r1" by (simp_all add: r1_def a_def)
  have b: "0 \<le> b" "b \<le> 3" "0 \<le> r2" "r2 < 36524 \<or> b = 3 \<and> r2 \<le> 36524"
    using last_cycle [of r1 3 36524 b] r1 by (simp_all add: r2_def b_def)
  have r2: "r2 = 1461 * c + r3" "0 \<le> r3" "r3 < 1461" by (simp_all add: r3_def c_def minus_mult_div_eq_mod)
  have c: "0 \<le> c" "c \<le> 24" "r3 < 1460 \<or> c \<noteq> 24 \<or> b = 3" using b r2 by linarith+
  have e: "0 \<le> e" "e \<le> 3" "0 \<le> r" "r < 365 \<or> e = 3 \<and> r \<le> 365"
    using last_cycle [of r3 3 365 e] r2 by (simp_all add: r_def e_def)
  have "r < 365 \<or> e = 3 \<and> (c \<noteq> 24 \<or> b = 3) \<and> r < 366"
    using e c(3) by (auto simp: r_def)
  then have "r < (if isLeap (400 * a + 100 * b + 4 * c + e + 1) then 366 else 365)"
    using leap_cycle [of b c e a] b c e by auto
  moreover have "civil days = (case split_month (month_lengths (400 * a + 100 * b + 4 * c + e + 1)) r of
       (m, d) \<Rightarrow> (400 * a + 100 * b + 4 * c + e + 1, Suc m, nat d + 1))"
    unfolding civil_def Let_def a_def r1_def b_def r2_def c_def r3_def e_def r_def by (rule refl)
  moreover have "days = 146097 * a + 36524 * b + 1461 * c + 365 * e + r"
    by (simp add: r1(3) r_def r3_def r2_def)
  ultimately show thesis using b(1,2) c(1,2) e(1-3) by (intro that)
qed

lemma civil_days_civil:
  assumes "civil days = (y, m, d)"
  shows "civil_days y m d = days \<and> 1 \<le> m \<and> m \<le> 12 \<and> 1 \<le> d \<and> d \<le> daysIn m y"
proof -
  obtain a b c e r where p: "days = 146097 * a + 36524 * b + 1461 * c + 365 * e + r"
    "0 \<le> b" "b \<le> 3" "0 \<le> c" "c \<le> 24" "0 \<le> e" "e \<le> 3" "0 \<le> r"
    and r: "r < (if isLeap (400 * a + 100 * b + 4 * c + e + 1) then 366 else 365)"
    and civ: "civil days = (case split_month (month_lengths (400 * a + 100 * b + 4 * c + e + 1)) r of
       (m, d) \<Rightarrow> (400 * a + 100 * b + 4 * c + e + 1, Suc m, nat d + 1))"
    by (rule civil_parts)
  obtain m' d' where s: "split_month (month_lengths (400 * a + 100 * b + 4 * c + e + 1)) r = (m', d')"
    by (cases "split_month (month_lengths (400 * a + 100 * b + 4 * c + e + 1)) r")
  with civ assms have y: "y = 400 * a + 100 * b + 4 * c + e + 1" and m: "m = Suc m'" and d: "d = nat d' + 1"
    by auto
  from split_month_spec [OF s p(8)] r sum_month_lengths
  have "m' < 12" "0 \<le> d'" "d' < month_lengths y ! m'" "sum_list (take m' (month_lengths y)) + d' = r"
    by (simp_all add: y month_lengths_def)
  then show ?thesis
    using year_cycles [OF p(2-7), of a] p(1) by (simp add: civil_days_def daysIn_def y m d)
qed

lemma daysIn_le: "1 \<le> m \<Longrightarrow> m \<le> 12 \<Longrightarrow> daysIn m y \<le> 31"
proof -
  assume "1 \<le> m" "m \<le> 12"
  then have "m - 1 < 12" by simp
  then have "month_lengths y ! (m - 1) \<le> 31"
    by (auto simp: month_lengths_def less_Suc_eq numeral_eq_Suc)
  then show ?thesis by (simp add: daysIn_def)
qed

section \<open>Decimal fields\<close>

text \<open>A number in a field of fixed width, with leading zeros.\<close>

fun digits :: "nat \<Rightarrow> nat \<Rightarrow> string" where
  "digits 0 n = []"
| "digits (Suc w) n = digits w (n div 10) @ [digit_char (n mod 10)]"

definition digits_value :: "string \<Rightarrow> nat" where
  "digits_value ds = foldl (\<lambda>a c. 10 * a + (of_char c - 48)) 0 ds"

lemma digit_code: "d < 10 \<Longrightarrow> (of_char (digit_char d) :: nat) = d + 48"
  by (drule less_10_cases) (elim disjE; simp add: digit_char_def)

lemma length_digits [simp]: "length (digits w n) = w"
  by (induction w n rule: digits.induct) simp_all

lemma digits_isDigit: "list_all isDigit (digits w n)"
  by (induction w n rule: digits.induct) simp_all

lemma digits_value_append: "digits_value (xs @ [digit_char d]) = 10 * digits_value xs + d" if "d < 10"
  using that by (simp add: digits_value_def digit_code)

lemma digits_value_digits: "digits_value (digits w n) = n mod 10 ^ w"
proof (induction w n rule: digits.induct)
  case (2 w n)
  have "10 * (n div 10 mod 10 ^ w) + n mod 10 = n mod (10 * 10 ^ w)"
    by (simp add: mod_mult2_eq)
  with 2 show ?case by (simp add: digits_value_append)
qed (simp add: digits_value_def)

lemma digits_numeral: "digits (numeral k) n = digits (pred_numeral k) (n div 10) @ [digit_char (n mod 10)]"
  by (subst numeral_eq_Suc) (rule digits.simps(2))

lemma digits_2: "digits 2 n = [digit_char (n div 10 mod 10), digit_char (n mod 10)]"
  by (simp add: numeral_2_eq_2)

section \<open>Writing an instant\<close>

text \<open>
  \<open>appendFormatRFC3339\<close> with nanoseconds: no trailing zeros in the fraction and no point without one; the
  offset in hours and minutes, or \<open>Z\<close>. \<open>MarshalJSON\<close> refuses years outside 0 to 9999 and offsets of a day.
\<close>

definition drop_zeros :: "string \<Rightarrow> string" where
  "drop_zeros ds = rev (dropWhile (\<lambda>c. c = CHR ''0'') (rev ds))"

definition fraction :: "nat \<Rightarrow> string" where
  "fraction ns = (let ds = drop_zeros (digits 9 ns) in if ds = [] then [] else CHR ''.'' # ds)"

definition offset_text :: "int \<Rightarrow> string" where
  "offset_text off =
     (if off = 0 then ''Z''
      else let neg = off \<le> - 60; z = nat \<bar>off\<bar> div 60
           in [if neg then CHR ''-'' else CHR ''+''] @ digits 2 (z div 60) @ '':'' @ digits 2 (z mod 60))"

definition time_text :: "(time \<Rightarrow> int) \<Rightarrow> time \<Rightarrow> bytes option" where
  "time_text zone t =
     (let off = zone t; secs = t div nanos_per_second + off; ns = nat (t mod nanos_per_second);
          sod = nat (secs mod 86400)
      in case civil (secs div 86400 + 719162) of
           (y, m, d) \<Rightarrow>
             if y < 0 \<or> 9999 < y \<or> 24 \<le> nat \<bar>off\<bar> div 3600 then None
             else Some (digits 4 (nat y) @ ''-'' @ digits 2 m @ ''-'' @ digits 2 d @ ''T'' @
                    digits 2 (sod div 3600) @ '':'' @ digits 2 (sod div 60 mod 60) @ '':'' @ digits 2 (sod mod 60) @
                    fraction ns @ offset_text off))"

section \<open>Reading an instant\<close>

text \<open>The pieces of \<open>time.Parse\<close>, each with the rest of the text.\<close>

definition getnum :: "bool \<Rightarrow> bytes \<Rightarrow> (nat \<times> bytes) option" where
  "getnum fixed s =
     (case s of
        a # b # r \<Rightarrow>
          if isDigit a \<and> isDigit b then Some (digits_value [a, b], r)
          else if isDigit a \<and> \<not> fixed then Some (digits_value [a], b # r) else None
      | [a] \<Rightarrow> if isDigit a \<and> \<not> fixed then Some (digits_value [a], []) else None
      | [] \<Rightarrow> None)"

definition get_year :: "bytes \<Rightarrow> (nat \<times> bytes) option" where
  "get_year s =
     (if 4 \<le> length s \<and> list_all isDigit (take 4 s) then Some (digits_value (take 4 s), drop 4 s) else None)"

definition skip_char :: "char \<Rightarrow> bytes \<Rightarrow> bytes option" where
  "skip_char c s = (case s of a # r \<Rightarrow> if a = c then Some r else None | [] \<Rightarrow> None)"

text \<open>A fraction is optional; digits after the ninth are dropped.\<close>

definition get_fraction :: "bytes \<Rightarrow> nat \<times> bytes" where
  "get_fraction s =
     (case s of
        p # d # r \<Rightarrow>
          if (p = CHR ''.'' \<or> p = CHR '','') \<and> isDigit d
          then let ds = take 9 (takeWhile isDigit (d # r))
               in (digits_value ds * 10 ^ (9 - length ds), dropWhile isDigit (d # r))
          else (0, s)
      | _ \<Rightarrow> (0, s))"

definition get_offset :: "bytes \<Rightarrow> (int \<times> bytes) option" where
  "get_offset s =
     (case s of
        [] \<Rightarrow> None
      | c # r \<Rightarrow>
          if c = CHR ''Z'' then Some (0, r)
          else (case getnum True r of
                  None \<Rightarrow> None
                | Some (hr, r) \<Rightarrow>
                    (case skip_char CHR '':'' r of
                       None \<Rightarrow> None
                     | Some r \<Rightarrow>
                         (case getnum True r of
                            None \<Rightarrow> None
                          | Some (mm, r) \<Rightarrow>
                              if 24 < hr \<or> 60 < mm then None
                              else if c = CHR ''+'' then Some (int (hr * 3600 + mm * 60), r)
                              else if c = CHR ''-'' then Some (- int (hr * 3600 + mm * 60), r)
                              else None))))"

definition parse_time :: "bytes \<Rightarrow> time option" where
  "parse_time s =
     Option.bind (get_year s) (\<lambda>(y, s).
     Option.bind (skip_char CHR ''-'' s) (\<lambda>s.
     Option.bind (getnum True s) (\<lambda>(m, s).
     Option.bind (skip_char CHR ''-'' s) (\<lambda>s.
     Option.bind (getnum True s) (\<lambda>(d, s).
     Option.bind (skip_char CHR ''T'' s) (\<lambda>s.
     Option.bind (getnum False s) (\<lambda>(h, s).
     Option.bind (skip_char CHR '':'' s) (\<lambda>s.
     Option.bind (getnum True s) (\<lambda>(mi, s).
     Option.bind (skip_char CHR '':'' s) (\<lambda>s.
     Option.bind (getnum True s) (\<lambda>(sec, s).
     case get_fraction s of (ns, s) \<Rightarrow>
     Option.bind (get_offset s) (\<lambda>(off, s).
       if s = [] \<and> 1 \<le> m \<and> m \<le> 12 \<and> 1 \<le> d \<and> d \<le> daysIn m (int y) \<and> h < 24 \<and> mi < 60 \<and> sec < 60
       then Some (((civil_days (int y) m d - 719162) * 86400 + int (h * 3600 + mi * 60 + sec) - off) * nanos_per_second + int ns)
       else None))))))))))))"

section \<open>Reading back what is written\<close>

lemma getnum_digits: "n < 100 \<Longrightarrow> getnum fixed (digits 2 n @ r) = Some (n, r)"
  using digits_isDigit [of 2 n] digits_value_digits [of 2 n]
  by (simp add: getnum_def digits_2)

lemma get_year_digits: "n < 10000 \<Longrightarrow> get_year (digits 4 n @ r) = Some (n, r)"
  using digits_isDigit [of 4 n] by (simp add: get_year_def digits_value_digits)

lemma drop_zeros_split: "\<exists>k. ds = drop_zeros ds @ replicate k CHR ''0''"
proof -
  have "rev ds = takeWhile (\<lambda>c. c = CHR ''0'') (rev ds) @ dropWhile (\<lambda>c. c = CHR ''0'') (rev ds)" by simp
  then have "ds = drop_zeros ds @ rev (takeWhile (\<lambda>c. c = CHR ''0'') (rev ds))"
    unfolding drop_zeros_def by (metis rev_append rev_rev_ident)
  moreover have "rev (takeWhile (\<lambda>c. c = CHR ''0'') (rev ds)) =
      replicate (length (takeWhile (\<lambda>c. c = CHR ''0'') (rev ds))) CHR ''0''"
    by (rule replicate_eqI) (auto dest: set_takeWhileD)
  ultimately show ?thesis by metis
qed

lemma digits_value_zeros: "digits_value (ds @ replicate k CHR ''0'') = digits_value ds * 10 ^ k"
proof (induction k)
  case (Suc k)
  have "ds @ replicate (Suc k) CHR ''0'' = (ds @ replicate k CHR ''0'') @ [digit_char 0]"
    by (simp add: replicate_append_same digit_char_def)
  with Suc show ?case by (simp only: digits_value_append [of 0]) simp
qed simp

lemma isDigit_offset: "\<not> isDigit (hd (offset_text off))" "offset_text off \<noteq> []"
  by (simp_all add: offset_text_def Let_def isDigit_def)

lemma offset_head: "hd (offset_text off) \<noteq> CHR ''.''" "hd (offset_text off) \<noteq> CHR '',''"
  by (simp_all add: offset_text_def Let_def)

lemma get_fraction_written:
  assumes "ns < 1000000000"
  shows "get_fraction (fraction ns @ offset_text off) = (ns, offset_text off)"
proof -
  obtain z zs where z: "offset_text off = z # zs" "\<not> isDigit z" "z \<noteq> CHR ''.''" "z \<noteq> CHR '',''"
    using isDigit_offset [of off] offset_head [of off] by (cases "offset_text off") auto
  obtain k where k: "digits 9 ns = drop_zeros (digits 9 ns) @ replicate k CHR ''0''"
    using drop_zeros_split by blast
  have v: "digits_value (drop_zeros (digits 9 ns)) * 10 ^ k = ns"
    using arg_cong [OF k, of digits_value] digits_value_zeros digits_value_digits [of 9 ns] assms by simp
  have len: "length (drop_zeros (digits 9 ns)) = 9 - k" "k \<le> 9"
    using arg_cong [OF k, of length] by simp_all
  show ?thesis
  proof (cases "drop_zeros (digits 9 ns)")
    case Nil
    with v have "ns = 0" by (simp add: digits_value_def)
    with Nil z show ?thesis by (cases zs) (simp_all add: fraction_def get_fraction_def)
  next
    case (Cons d ds)
    have all: "list_all isDigit (d # ds)"
      using digits_isDigit [of 9 ns] k Cons by (metis list_all_append)
    then have tw: "takeWhile isDigit (d # ds @ z # zs) = d # ds" "dropWhile isDigit (d # ds @ z # zs) = z # zs"
      using z(2) by (auto simp: takeWhile_append dropWhile_append list_all_iff takeWhile_eq_all_conv)
    from all have "isDigit d" by simp
    moreover have "8 - length ds = k" "length ds \<le> 8" using len Cons by simp_all
    ultimately show ?thesis using Cons v tw z(1)
      by (simp add: fraction_def get_fraction_def Let_def)
  qed
qed

lemma get_offset_written:
  assumes "60 dvd off" and "nat \<bar>off\<bar> div 3600 < 24"
  shows "get_offset (offset_text off) = Some (off, [])"
proof (cases "off = 0")
  case False
  define z where "z = nat \<bar>off\<bar> div 60"
  define hh where "hh = z div 60"
  define mm where "mm = z mod 60"
  obtain q where q: "off = 60 * q" using assms(1) by auto
  have z: "int z = \<bar>q\<bar>" by (simp add: z_def q abs_mult nat_mult_distrib)
  have "nat \<bar>off\<bar> div 3600 = hh" by (simp add: hh_def z_def div_mult2_eq [symmetric])
  with assms(2) have h: "hh < 24" by simp
  have m: "mm < 60" by (simp add: mm_def)
  have "hh * 3600 + mm * 60 = z * 60" unfolding hh_def mm_def using div_mult_mod_eq [of z 60] by linarith
  then have "int (hh * 3600 + mm * 60) = int (z * 60)" by (rule arg_cong)
  also have "\<dots> = \<bar>off\<bar>" by (simp add: z) (simp add: q abs_mult)
  finally have size: "int (hh * 3600 + mm * 60) = \<bar>off\<bar>" .
  have tx: "offset_text off = (if off < 0 then CHR ''-'' else CHR ''+'') # digits 2 hh @ '':'' @ digits 2 mm"
  proof -
    have "off \<le> - 60 \<longleftrightarrow> off < 0" using q by auto
    with False show ?thesis by (simp add: offset_text_def Let_def z_def [symmetric] hh_def mm_def)
  qed
  have "getnum True (digits 2 hh @ r) = Some (hh, r)" "getnum True (digits 2 mm) = Some (mm, [])" for r
    using getnum_digits [of hh True r] getnum_digits [of mm True "[]"] h m by simp_all
  then have "get_offset (offset_text off) =
      Some (if off < 0 then - int (hh * 3600 + mm * 60) else int (hh * 3600 + mm * 60), [])"
    using h m unfolding tx by (simp add: get_offset_def skip_char_def)
  then show ?thesis unfolding size by (simp add: abs_if)
qed (simp add: get_offset_def offset_text_def)

lemma parse_time_text:
  assumes b: "time_text zone t = Some b" and z: "60 dvd zone t"
  shows "parse_time b = Some t"
proof -
  define secs where "secs = t div nanos_per_second + zone t"
  define sod where "sod = nat (secs mod 86400)"
  define ns where "ns = nat (t mod nanos_per_second)"
  obtain y m d where civ: "civil (secs div 86400 + 719162) = (y, m, d)" by (cases "civil (secs div 86400 + 719162)")
  from b civ have y: "0 \<le> y" "y \<le> 9999" and off: "nat \<bar>zone t\<bar> div 3600 < 24"
    and tx: "b = digits 4 (nat y) @ ''-'' @ digits 2 m @ ''-'' @ digits 2 d @ ''T'' @
                    digits 2 (sod div 3600) @ '':'' @ digits 2 (sod div 60 mod 60) @ '':'' @ digits 2 (sod mod 60) @
                    fraction ns @ offset_text (zone t)"
    by (auto simp: time_text_def Let_def secs_def sod_def ns_def split: if_splits)
  from civil_days_civil [OF civ] have day: "civil_days y m d = secs div 86400 + 719162" "1 \<le> m" "m \<le> 12" "1 \<le> d" "d \<le> daysIn m y"
    by simp_all
  then have "d < 100" "m < 100" using daysIn_le [of m y] by simp_all
  have sod: "sod < 86400" "int sod = secs mod 86400" by (simp_all add: sod_def)
  then have "sod div 3600 < 24" by (simp add: less_mult_imp_div_less)
  have ns: "ns < 1000000000" "int ns = t mod nanos_per_second" by (simp_all add: ns_def)
  have clock: "sod div 3600 * 3600 + sod div 60 mod 60 * 60 + sod mod 60 = sod"
  proof -
    have "sod div 3600 = sod div 60 div 60" by (simp add: div_mult2_eq [symmetric])
    then show ?thesis using div_mult_mod_eq [of sod 60] div_mult_mod_eq [of "sod div 60" 60] by linarith
  qed
  have "secs div 86400 * 86400 + int sod = t div nanos_per_second + zone t"
    unfolding sod div_mult_mod_eq by (rule secs_def)
  then have "secs div 86400 * 86400 + int sod - zone t = t div nanos_per_second" by simp
  then have inst: "(secs div 86400 * 86400 + int sod - zone t) * nanos_per_second + int ns = t"
    unfolding ns by simp
  have mins: "sod div 60 mod 60 < 100" "sod mod 60 < 100"
    using mod_less_divisor [of 60 "sod div 60"] mod_less_divisor [of 60 sod] by linarith+
  have yr: "nat y < 10000" "int (nat y) = y" using y by simp_all
  have "parse_time b = Some (((civil_days y m d - 719162) * 86400 +
      int (sod div 3600 * 3600 + sod div 60 mod 60 * 60 + sod mod 60) - zone t) * nanos_per_second + int ns)"
    unfolding tx parse_time_def
    using y(1) day(2-5) ns(1) get_offset_written [OF z off] \<open>sod div 3600 < 24\<close>
    by (simp add: get_year_digits [OF yr(1)] getnum_digits [OF \<open>m < 100\<close>] getnum_digits [OF \<open>d < 100\<close>]
        getnum_digits [OF mins(1)] getnum_digits [OF mins(2)] getnum_digits skip_char_def get_fraction_written yr)
  then show ?thesis using inst unfolding clock day(1) by simp
qed

end
