(* ===== verification/EventCodec.thy ===== *)
theory EventCodec
  imports JsonEncode GoTime
begin

text \<open>
  The bytes of an event in the queue: \<open>json.Marshal(e)\<close> of \<open>Publish\<close> and \<open>json.Unmarshal\<close> of \<open>Consume\<close> in
  \<open>internal/queue/redis\<close>, for the struct of \<open>internal/event/model.go\<close>, whose fields have no tags. The text
  form of a UUID belongs to the package \<open>google/uuid\<close>: its \<open>MarshalText\<close> and its \<open>UnmarshalText\<close> (which is
  \<open>Parse\<close>) are arguments. The time zone of the process is one too.
\<close>

section \<open>Writing an event\<close>

text \<open>A payload of the program that is empty is the nil slice, which is written as null.\<close>

definition raw_text :: "bytes \<Rightarrow> bytes option" where
  "raw_text pl = (if pl = [] then Some ''null'' else compact pl)"

definition time_value :: "(time \<Rightarrow> int) \<Rightarrow> time \<Rightarrow> bytes option" where
  "time_value zone t = map_option (\<lambda>b. [CHR 0x22] @ b @ [CHR 0x22]) (time_text zone t)"

definition pointer_value :: "('a \<Rightarrow> bytes option) \<Rightarrow> 'a option \<Rightarrow> bytes option" where
  "pointer_value enc p = (case p of None \<Rightarrow> Some ''null'' | Some x \<Rightarrow> enc x)"

definition event_members :: "(uuid \<Rightarrow> bytes) \<Rightarrow> (time \<Rightarrow> int) \<Rightarrow> event \<Rightarrow> (bytes \<times> bytes) list option" where
  "event_members utext zone e =
     Option.bind (raw_text (ePayload e)) (\<lambda>pl.
     Option.bind (pointer_value (\<lambda>i. Some (encode_string (utext i))) (eWorkerID e)) (\<lambda>wid.
     Option.bind (time_value zone (eCreatedAt e)) (\<lambda>cr.
     Option.bind (time_value zone (eUpdatedAt e)) (\<lambda>up.
     Option.bind (pointer_value (time_value zone) (eCompletedAt e)) (\<lambda>co.
       Some [(''ID'', encode_string (utext (eID e))), (''Type'', encode_string (eType e)), (''Payload'', pl),
             (''Priority'', Itoa (ePriority e)), (''Status'', encode_string (eStatus e)),
             (''Attempt'', Itoa (eAttempt e)), (''WorkerID'', wid), (''CreatedAt'', cr), (''UpdatedAt'', up),
             (''CompletedAt'', co)])))))"

definition encode_event :: "(uuid \<Rightarrow> bytes) \<Rightarrow> (time \<Rightarrow> int) \<Rightarrow> event \<Rightarrow> bytes option" where
  "encode_event utext zone e = map_option object_text (event_members utext zone e)"

section \<open>Reading an event\<close>

text \<open>\<open>null\<close> leaves everything but a pointer as it is; a time does not look at escapes.\<close>

definition set_uuid :: "(bytes \<Rightarrow> uuid option) \<Rightarrow> uuid \<Rightarrow> bytes \<Rightarrow> uuid option" where
  "set_uuid uparse old v =
     (case v of
        c # cs \<Rightarrow> if c = CHR 0x22 then uparse (unquote (butlast cs)) else if c = CHR ''n'' then Some old else None
      | [] \<Rightarrow> None)"

definition set_time :: "time \<Rightarrow> bytes \<Rightarrow> time option" where
  "set_time old v =
     (if v = ''null'' then Some old
      else if 2 \<le> length v \<and> hd v = CHR 0x22 \<and> last v = CHR 0x22 then parse_time (butlast (tl v)) else None)"

definition set_pointer :: "(bytes \<Rightarrow> 'a option) \<Rightarrow> bytes \<Rightarrow> 'a option option" where
  "set_pointer dec v = (if v = ''null'' then Some None else map_option Some (dec v))"

definition zero_time :: time where
  "zero_time = - 62135596800 * nanos_per_second"

definition zero_event :: event where
  "zero_event =
     \<lparr> eID = 0, eType = '''', ePayload = '''', ePriority = 0, eStatus = '''', eAttempt = 0, eWorkerID = None,
       eCreatedAt = zero_time, eUpdatedAt = zero_time, eCompletedAt = None \<rparr>"

definition set_event_field :: "(bytes \<Rightarrow> uuid option) \<Rightarrow> bytes \<Rightarrow> bytes \<Rightarrow> event \<Rightarrow> event option" where
  "set_event_field uparse key v e =
     (if names_field key ''ID'' then map_option (\<lambda>x. e\<lparr>eID := x\<rparr>) (set_uuid uparse (eID e) v)
      else if names_field key ''Type'' then map_option (\<lambda>x. e\<lparr>eType := x\<rparr>) (set_string (eType e) v)
      else if names_field key ''Payload'' then Some (e\<lparr>ePayload := v\<rparr>)
      else if names_field key ''Priority'' then map_option (\<lambda>x. e\<lparr>ePriority := x\<rparr>) (set_int (ePriority e) v)
      else if names_field key ''Status'' then map_option (\<lambda>x. e\<lparr>eStatus := x\<rparr>) (set_string (eStatus e) v)
      else if names_field key ''Attempt'' then map_option (\<lambda>x. e\<lparr>eAttempt := x\<rparr>) (set_int (eAttempt e) v)
      else if names_field key ''WorkerID''
      then map_option (\<lambda>x. e\<lparr>eWorkerID := x\<rparr>) (set_pointer (set_uuid uparse 0) v)
      else if names_field key ''CreatedAt'' then map_option (\<lambda>x. e\<lparr>eCreatedAt := x\<rparr>) (set_time (eCreatedAt e) v)
      else if names_field key ''UpdatedAt'' then map_option (\<lambda>x. e\<lparr>eUpdatedAt := x\<rparr>) (set_time (eUpdatedAt e) v)
      else if names_field key ''CompletedAt''
      then map_option (\<lambda>x. e\<lparr>eCompletedAt := x\<rparr>) (set_pointer (set_time zero_time) v)
      else Some e)"

text \<open>\<open>json.Unmarshal\<close> checks the whole text first.\<close>

definition decode_event :: "(bytes \<Rightarrow> uuid option) \<Rightarrow> bytes \<Rightarrow> event option" where
  "decode_event uparse b =
     (if \<not> json_Valid b then None
      else case skip_space b of
             [] \<Rightarrow> None
           | c # cs \<Rightarrow>
               if c = CHR ''{'' then decode_fields (set_event_field uparse) cs zero_event
               else if c = CHR ''n'' then Some zero_event else None)"

section \<open>The fields\<close>

lemma safe_digits: "list_all safe_char (digits w n)"
proof -
  have "safe_char (digit_char d)" if "d < 10" for d
    using less_10_cases [OF that] by (elim disjE; simp add: safe_char_def digit_char_def ord_def)
  then show ?thesis by (induction w n rule: digits.induct) simp_all
qed

lemma safe_drop_zeros: "list_all safe_char ds \<Longrightarrow> list_all safe_char (drop_zeros ds)"
  using drop_zeros_split [of ds] by (metis list_all_append)

lemma time_text_safe: "time_text zone t = Some b \<Longrightarrow> list_all safe_char b"
proof -
  have f: "list_all safe_char (fraction n)" for n
    using safe_drop_zeros [OF safe_digits, of 9 n] by (simp add: fraction_def Let_def safe_char_def ord_def)
  have z: "list_all safe_char (offset_text off)" for off
    using safe_digits by (simp add: offset_text_def Let_def safe_char_def ord_def)
  show "time_text zone t = Some b \<Longrightarrow> list_all safe_char b"
    using f z safe_digits
    by (auto simp: time_text_def Let_def safe_char_def [of "CHR ''-''"] safe_char_def [of "CHR '':''"] safe_char_def [of "CHR ''T''"] ord_def
        split: prod.splits if_splits)
qed

lemma time_value_encoded: "time_value zone t = Some v \<Longrightarrow> \<exists>b. time_text zone t = Some b \<and> v = encode_string b"
  using time_text_safe by (fastforce simp: time_value_def encode_string_def escape_safe)

lemma time_value_member: "time_value zone t = Some v \<Longrightarrow> member_value v"
  by (auto dest!: time_value_encoded)

lemma set_time_written: "time_value zone t = Some v \<Longrightarrow> 60 dvd zone t \<Longrightarrow> set_time old v = Some t"
  by (auto simp: time_value_def set_time_def parse_time_text)

lemma time_value_not_null: "time_value zone t = Some v \<Longrightarrow> v \<noteq> ''null''"
  by (auto simp: time_value_def)

lemma set_uuid_written: "utf8 (utext i) \<Longrightarrow> uparse (utext i) = Some i \<Longrightarrow> set_uuid uparse old (encode_string (utext i)) = Some i"
  by (simp add: set_uuid_def encode_string_def unquote_escape)

lemma event_names:
  "ascii_text ''ID''" "ascii_text ''Type''" "ascii_text ''Payload''" "ascii_text ''Priority''" "ascii_text ''Status''"
  "ascii_text ''Attempt''" "ascii_text ''WorkerID''" "ascii_text ''CreatedAt''" "ascii_text ''UpdatedAt''" "ascii_text ''CompletedAt''"
  by (simp_all add: ascii_text_def plain_char_def ord_def)

definition event_keys :: "bytes list" where
  "event_keys = [''ID'', ''Type'', ''Payload'', ''Priority'', ''Status'', ''Attempt'', ''WorkerID'', ''CreatedAt'', ''UpdatedAt'', ''CompletedAt'']"

lemma event_keys_fold: "key \<in> set event_keys \<Longrightarrow> field \<in> set event_keys \<Longrightarrow> names_field key field \<longleftrightarrow> key = field"
proof -
  have a: "\<forall>k \<in> set event_keys. list_all (\<lambda>c. ord c < 128) k" by (simp add: event_keys_def ord_def)
  have i: "inj_on (map upper_code) (set event_keys)"
    by (simp add: event_keys_def upper_code_def ord_def)
  assume "key \<in> set event_keys" "field \<in> set event_keys"
  with a i show ?thesis by (auto simp: names_field_ascii inj_on_def)
qed

section \<open>Reading back what is written\<close>

lemma event_members_written:
  assumes "event_members utext zone e = Some kvs"
    and "ePayload e \<noteq> [] \<longrightarrow> fst (scan (BeginValue, [ParseObjectValue]) (ePayload e)) \<noteq> ScanError"
  shows "list_all written_member kvs \<and> kvs \<noteq> []"
proof -
  have "member_value pl" if "raw_text (ePayload e) = Some pl" for pl
    using that assms(2) compact_member by (auto simp: raw_text_def split: if_splits)
  moreover have "member_value wid"
    if "pointer_value (\<lambda>i. Some (encode_string (utext i))) (eWorkerID e) = Some wid" for wid
    using that by (auto simp: pointer_value_def split: option.splits)
  moreover have "member_value co" if "pointer_value (time_value zone) (eCompletedAt e) = Some co" for co
    using that time_value_member by (auto simp: pointer_value_def split: option.splits)
  ultimately show ?thesis
    using assms(1) time_value_member
    by (auto simp: event_members_def written_member_def event_names Option.bind_eq_Some_conv)
qed

text \<open>The conditions under which an event survives: what the kinds of its fields can hold.\<close>

definition storable :: "(uuid \<Rightarrow> bytes) \<Rightarrow> (bytes \<Rightarrow> uuid option) \<Rightarrow> (time \<Rightarrow> int) \<Rightarrow> event \<Rightarrow> bool" where
  "storable utext uparse zone e \<longleftrightarrow>
     (\<forall>i \<in> insert (eID e) (set_option (eWorkerID e)). utf8 (utext i) \<and> uparse (utext i) = Some i) \<and>
     (\<forall>t \<in> {eCreatedAt e, eUpdatedAt e} \<union> set_option (eCompletedAt e). 60 dvd zone t) \<and>
     utf8 (eType e) \<and> utf8 (eStatus e) \<and>
     (\<forall>n \<in> {ePriority e, eAttempt e}. - (2 ^ 63) \<le> n \<and> n < 2 ^ 63) \<and>
     (ePayload e \<noteq> [] \<longrightarrow> fst (scan (BeginValue, [ParseObjectValue]) (ePayload e)) \<noteq> ScanError)"

lemma fold_event_fields:
  assumes kvs: "event_members utext zone e = Some kvs" and s: "storable utext uparse zone e"
    and pl: "raw_text (ePayload e) = Some pl"
  shows "fold_fields (set_event_field uparse) kvs zero_event = Some (e\<lparr>ePayload := pl\<rparr>)"
proof -
  obtain wid cr up co where
    wid: "pointer_value (\<lambda>i. Some (encode_string (utext i))) (eWorkerID e) = Some wid"
    and cr: "time_value zone (eCreatedAt e) = Some cr" and up: "time_value zone (eUpdatedAt e) = Some up"
    and co: "pointer_value (time_value zone) (eCompletedAt e) = Some co"
    and k: "kvs = [(''ID'', encode_string (utext (eID e))), (''Type'', encode_string (eType e)), (''Payload'', pl),
             (''Priority'', Itoa (ePriority e)), (''Status'', encode_string (eStatus e)),
             (''Attempt'', Itoa (eAttempt e)), (''WorkerID'', wid), (''CreatedAt'', cr), (''UpdatedAt'', up),
             (''CompletedAt'', co)]"
    using kvs pl by (auto simp: event_members_def Option.bind_eq_Some_conv)
  have z: "60 dvd zone (eCreatedAt e)" "60 dvd zone (eUpdatedAt e)" "\<And>t. eCompletedAt e = Some t \<Longrightarrow> 60 dvd zone t"
    using s by (auto simp: storable_def)
  have w: "set_pointer (set_uuid uparse 0) wid = Some (eWorkerID e)"
    using wid s set_uuid_written [of utext _ uparse]
    by (cases "eWorkerID e") (auto simp: pointer_value_def set_pointer_def storable_def encode_string_def)
  have c: "set_pointer (set_time zero_time) co = Some (eCompletedAt e)"
    using co z(3) set_time_written time_value_not_null
    by (cases "eCompletedAt e") (auto simp: pointer_value_def set_pointer_def)
  have i: "set_uuid uparse old (encode_string (utext (eID e))) = Some (eID e)" for old
    using s by (intro set_uuid_written) (simp_all add: storable_def)
  have n: "set_int old (Itoa (ePriority e)) = Some (ePriority e)" "set_int old (Itoa (eAttempt e)) = Some (eAttempt e)" for old
    using s by (intro set_int_Itoa; simp add: storable_def)+
  have t: "set_string old (encode_string (eType e)) = Some (eType e)" "set_string old (encode_string (eStatus e)) = Some (eStatus e)" for old
    using s by (simp_all add: storable_def)
  note f = event_keys_fold [unfolded event_keys_def]
  show ?thesis
    unfolding k
    by (simp add: set_event_field_def f i t n w c set_time_written [OF cr z(1)] set_time_written [OF up z(2)] zero_event_def)
qed

theorem decode_encoded:
  assumes b: "encode_event utext zone e = Some b" and s: "storable utext uparse zone e"
    and pl: "raw_text (ePayload e) = Some pl"
  shows "decode_event uparse b = Some (e\<lparr>ePayload := pl\<rparr>)"
proof -
  obtain kvs where k: "event_members utext zone e = Some kvs" "b = object_text kvs"
    using b by (auto simp: encode_event_def)
  have w: "list_all written_member kvs" "kvs \<noteq> []"
    using event_members_written [OF k(1)] s by (simp_all add: storable_def)
  have "json_Valid b" using object_text_json [OF w] k(2) by simp
  moreover have "skip_space b = b" unfolding k(2) by (simp add: object_text_def skip_space_def isSpace_def)
  ultimately show ?thesis
    using decode_members_text [OF w(1), of "set_event_field uparse" zero_event] fold_event_fields [OF k(1) s pl]
    unfolding k(2) by (simp add: decode_event_def object_text_def)
qed

text \<open>Writing succeeds on JSON payloads and on times of years that RFC 3339 can show.\<close>

lemma encode_event_succeeds:
  "encode_event utext zone e \<noteq> None \<longleftrightarrow>
   (ePayload e = [] \<or> json_Valid (ePayload e)) \<and> time_text zone (eCreatedAt e) \<noteq> None \<and>
   time_text zone (eUpdatedAt e) \<noteq> None \<and> (\<forall>t \<in> set_option (eCompletedAt e). time_text zone t \<noteq> None)"
  by (cases "eWorkerID e"; cases "eCompletedAt e")
    (auto simp: encode_event_def event_members_def raw_text_def compact_def pointer_value_def time_value_def
      Option.bind_eq_None_conv)

lemma raw_text_idem: "raw_text pl = Some b \<Longrightarrow> raw_text b = Some b"
proof -
  assume b: "raw_text pl = Some b"
  have "b \<noteq> []"
  proof
    assume "b = []"
    with b have "compact [] = Some []" using compact_idempotent by (auto simp: raw_text_def split: if_splits)
    then show False by (simp add: compact_def)
  qed
  moreover have "compact ''null'' = Some ''null''"
    by (rule compact_plain) (simp_all add: html_char_def isSpace_def ord_def json_Valid_def scan_eof_def scan_unfold)
  ultimately show "raw_text b = Some b"
    using b compact_idempotent by (auto simp: raw_text_def split: if_splits)
qed

section \<open>The canonical text of a UUID\<close>

text \<open>
  The 32 lower case hexadecimal digits in groups of 8, 4, 4, 4 and 12, as the documentation of
  \<open>google/uuid\<close> shows them: an instance of the two functions the codec takes as arguments.
\<close>

fun hex_digits :: "nat \<Rightarrow> nat \<Rightarrow> string" where
  "hex_digits 0 n = []"
| "hex_digits (Suc w) n = hex_digits w (n div 16) @ [hex_char (n mod 16)]"

definition hex_value :: "string \<Rightarrow> nat" where
  "hex_value ds = foldl (\<lambda>a c. 16 * a + hex_digit c) 0 ds"

definition canonical_text :: "uuid \<Rightarrow> bytes" where
  "canonical_text i =
     (let h = hex_digits 32 (unat i)
      in take 8 h @ ''-'' @ take 4 (drop 8 h) @ ''-'' @ take 4 (drop 12 h) @ ''-'' @ take 4 (drop 16 h) @ ''-'' @ drop 20 h)"

definition canonical_parse :: "bytes \<Rightarrow> uuid option" where
  "canonical_parse s =
     (let h = filter (\<lambda>c. c \<noteq> CHR ''-'') s
      in if length s = 36 \<and> length h = 32 \<and> list_all isHex h then Some (of_nat (hex_value h)) else None)"

lemma hex_digits_facts:
  "length (hex_digits w n) = w \<and> hex_value (hex_digits w n) = n mod 16 ^ w \<and>
   list_all (\<lambda>c. isHex c \<and> c \<noteq> CHR ''-'' \<and> ord c < 128) (hex_digits w n)"
proof (induction w n rule: hex_digits.induct)
  case (2 w n)
  have "16 * (n div 16 mod 16 ^ w) + n mod 16 = n mod (16 * 16 ^ w)" by (simp add: mod_mult2_eq)
  moreover have "hex_char d \<noteq> CHR ''-''" if "d < 16" for d
    using hex_char_digit [OF that] by (auto simp: isHex_def isDigit_def)
  ultimately show ?case using 2 hex_char_digit [of "n mod 16"] hex_char_ascii [of "n mod 16"]
    by (simp add: hex_value_def)
qed (simp add: hex_value_def)

lemma canonical_law: "utf8 (canonical_text i) \<and> canonical_parse (canonical_text i) = Some i"
proof -
  let ?h = "hex_digits 32 (unat i)"
  note f = hex_digits_facts [of 32 "unat i"]
  have cut: "take k (drop n ?h) @ drop (n + k) ?h = drop n ?h" for k n
    using append_take_drop_id [of k "drop n ?h"] by (simp add: add.commute)
  have parts: "take 8 ?h @ take 4 (drop 8 ?h) @ take 4 (drop 12 ?h) @ take 4 (drop 16 ?h) @ drop 20 ?h = ?h"
    using cut [of 4 8] cut [of 4 12] cut [of 4 16] append_take_drop_id [of 8 ?h] by simp
  have keep: "filter (\<lambda>c. c \<noteq> CHR ''-'') xs = xs" if "set xs \<subseteq> set ?h" for xs
    using that f by (auto simp: filter_id_conv list_all_iff)
  have sub: "set (take n (drop m ?h)) \<subseteq> set ?h" "set (take n ?h) \<subseteq> set ?h" "set (drop m ?h) \<subseteq> set ?h" for n m
    by (meson order_trans set_drop_subset set_take_subset)+
  have h: "filter (\<lambda>c. c \<noteq> CHR ''-'') (canonical_text i) = ?h"
    unfolding canonical_text_def Let_def filter_append keep [OF sub(1)] keep [OF sub(2)] keep [OF sub(3)] by (simp add: parts)
  have "unat i < 16 ^ 32" using unsigned_less [of i, where ?'a = nat] by simp
  then have "of_nat (hex_value ?h) = i" using f by simp
  moreover have "length (canonical_text i) = 36" using f by (simp add: canonical_text_def Let_def)
  moreover have "list_all isHex ?h" using f by (simp add: list_all_iff)
  moreover have "utf8 (canonical_text i)"
  proof (rule utf8_ascii)
    have "set (canonical_text i) \<subseteq> insert CHR ''-'' (set ?h)"
      unfolding canonical_text_def Let_def set_append using sub by (simp add: subset_insertI2)
    moreover have "\<forall>c \<in> set ?h. ord c < 128" using f by (simp add: list_all_iff)
    moreover have "ord CHR ''-'' < 128" by (simp add: ord_def)
    ultimately show "list_all (\<lambda>c. ord c < 0x80) (canonical_text i)" by (auto simp: list_all_iff)
  qed
  ultimately show ?thesis using f by (simp add: canonical_parse_def h)
qed

section \<open>The property\<close>

text \<open>
  C4 What \<open>Publish\<close> marshals \<open>Consume\<close> unmarshals to the same event: identity, type, priority, status, attempt,
  worker and the three times are those of the event, to the nanosecond and whatever the time zone of the
  process, and the payload is its compacted form, on which another round trip changes nothing. It holds for
  every event whose strings are UTF-8, whose numbers are 64-bit, whose UUIDs have a text that is parsed
  back, whose payload has room for one more level of nesting, and in time zones of whole minutes.
\<close>

theorem event_codec_roundtrip:
  assumes "encode_event utext zone e = Some b" and "storable utext uparse zone e"
  shows "\<exists>pl. raw_text (ePayload e) = Some pl \<and> decode_event uparse b = Some (e\<lparr>ePayload := pl\<rparr>) \<and>
    encode_event utext zone (e\<lparr>ePayload := pl\<rparr>) = Some b \<and> raw_text pl = Some pl \<and> json_Valid b"
proof -
  obtain pl where pl: "raw_text (ePayload e) = Some pl"
    using assms(1) by (auto simp: encode_event_def event_members_def Option.bind_eq_Some_conv)
  have "event_members utext zone (e\<lparr>ePayload := pl\<rparr>) = event_members utext zone e"
    by (simp add: event_members_def pl raw_text_idem [OF pl])
  then have "encode_event utext zone (e\<lparr>ePayload := pl\<rparr>) = Some b" using assms(1) by (simp add: encode_event_def)
  moreover have dec: "decode_event uparse b = Some (e\<lparr>ePayload := pl\<rparr>)" by (rule decode_encoded [OF assms pl])
  moreover from dec have "json_Valid b" by (auto simp: decode_event_def split: if_splits)
  ultimately show ?thesis using pl raw_text_idem [OF pl] by blast
qed

definition travelling_event :: event where
  "travelling_event =
     \<lparr> eID = 7, eType = TypeOrderCreated, ePayload = ''{ \"a\" : [1, \"<b>\"] }'', ePriority = 10, eStatus = StatusReceived,
       eAttempt = 0, eWorkerID = Some 9, eCreatedAt = 1700000000123456789, eUpdatedAt = 1700000000123456789, eCompletedAt = None \<rparr>"

lemma travelling_time: "time_text (\<lambda>_. 7200) 1700000000123456789 = Some ''2023-11-15T00:13:20.123456789+02:00''"
proof -
  have "civil 738838 = (2023, 11, 15)" by (simp add: civil_def Let_def month_lengths_def isLeap_def)
  moreover have "fraction 123456789 = ''.123456789''" by (simp add: fraction_def Let_def drop_zeros_def digits_numeral digit_char_def)
  moreover have "offset_text 7200 = ''+02:00''" by (simp add: offset_text_def Let_def digits_numeral digit_char_def)
  moreover have "(1700000000123456789::int) div nanos_per_second + 7200 = 1700007200"
    "nat ((1700000000123456789::int) mod nanos_per_second) = 123456789"
    "(1700007200::int) div 86400 + 719162 = 738838" "nat ((1700007200::int) mod 86400) = 800" by simp_all
  ultimately show ?thesis
    unfolding time_text_def Let_def by (simp only: prod.case) (simp add: digits_numeral digit_char_def)
qed

lemma early_time: "time_text (\<lambda>_. 7200) 100000 \<noteq> None"
proof -
  have "civil 719162 = (1970, 1, 1)" by (simp add: civil_def Let_def month_lengths_def isLeap_def)
  then show ?thesis by (simp add: time_text_def Let_def)
qed

definition compacted_payload :: bytes where
  "compacted_payload = ''{\"a\":[1,\"'' @ [CHR 0x5C] @ ''u003cb'' @ [CHR 0x5C] @ ''u003e\"]}''"

lemma travelling_payload: "raw_text (ePayload travelling_event) = Some compacted_payload"
  by (simp add: travelling_event_def compacted_payload_def raw_text_def compact_def json_Valid_def scan_eof_def scan_unfold isDigit_def state0_def
      compact_ascii_step ord_def html_char_def skips_def escape_00_def hex_char_def)

theorem event_codec_roundtrip_witness:
  "\<exists>b. encode_event canonical_text (\<lambda>_. 7200) travelling_event = Some b \<and>
     decode_event canonical_parse b = Some (travelling_event\<lparr>ePayload := compacted_payload\<rparr>)"
proof -
  have "encode_event canonical_text (\<lambda>_. 7200) travelling_event \<noteq> None"
    unfolding encode_event_succeeds
    by (simp add: travelling_event_def travelling_time json_Valid_def scan_eof_def scan_unfold isDigit_def state0_def)
  then obtain b where b: "encode_event canonical_text (\<lambda>_. 7200) travelling_event = Some b" by blast
  have "utf8 TypeOrderCreated" "utf8 StatusReceived" by (rule utf8_ascii; simp add: type_defs status_defs ord_def)+
  then have "storable canonical_text canonical_parse (\<lambda>_. 7200) travelling_event"
    by (simp add: storable_def canonical_law travelling_event_def
        scan_unfold isDigit_def state0_def)
  from event_codec_roundtrip [OF b this] b travelling_payload show ?thesis by auto
qed

end
