(* ===== verification/Pipeline.thy ===== *)
theory Pipeline
  imports World WorkerSafety StoreProps QueueProps EventCodec
begin

text \<open>
  The services of the worker on the model's own database and queue: any Redis server that keeps the laws
  of \<open>redis_streams\<close>, with commands beside the streams that leave the streams alone, any processor that
  leaves database and streams alone, and any faults of the database satisfy \<open>job_services\<close>.
\<close>

section \<open>The view of the worker\<close>

definition world_status :: "'r world \<Rightarrow> uuid \<Rightarrow> event_status option" where
  "world_status w i = map_option eStatus (event_row (wDB w) i)"

definition world_waits :: "('r \<Rightarrow> 'm view) \<Rightarrow> 'r world \<Rightarrow> job \<Rightarrow> bool" where
  "world_waits view w j \<longleftrightarrow> jReceipt j \<in> fst ` set (pending (view (wOut w) (jQueue j) (jGroup j)))"

definition world_sane :: "('r \<Rightarrow> bool) \<Rightarrow> 'r world \<Rightarrow> bool" where
  "world_sane ok w \<longleftrightarrow> wf_db (wDB w) \<and> finalized_ok (wDB w) \<and> ok (wOut w)"

text \<open>A command of the platform that leaves the streams alone.\<close>

definition neutral :: "('r \<Rightarrow> bool) \<Rightarrow> ('r \<Rightarrow> 'm view) \<Rightarrow> ('r \<Rightarrow> 'r) \<Rightarrow> bool" where
  "neutral ok view f \<longleftrightarrow> (\<forall>s. ok s \<longrightarrow> ok (f s) \<and> view (f s) = view s)"

definition neutral_platform :: "('r \<Rightarrow> bool) \<Rightarrow> ('r \<Rightarrow> 'm view) \<Rightarrow> 'r platform \<Rightarrow> bool" where
  "neutral_platform ok view P \<longleftrightarrow>
     (\<forall>k v ttl. neutral ok view (\<lambda>s. snd (Redis_Set P k v ttl s))) \<and>
     (\<forall>k. neutral ok view (\<lambda>s. snd (Redis_Exists P k s))) \<and>
     (\<forall>k. neutral ok view (\<lambda>s. snd (Redis_Keys P k s))) \<and>
     (\<forall>k. neutral ok view (\<lambda>s. snd (Redis_XLen P k s))) \<and>
     (\<forall>ch m. neutral ok view (\<lambda>s. snd (Redis_Publish P ch m s))) \<and>
     (\<forall>t. neutral ok view (EventsReceived_Add P t)) \<and>
     (\<forall>t. neutral ok view (EventsProcessed_Add P t)) \<and>
     (\<forall>t. neutral ok view (EventsFailed_Add P t)) \<and>
     (\<forall>t dur. neutral ok view (Duration_Observe P t dur)) \<and>
     (\<forall>k n. neutral ok view (QueueDepth_Set P k n)) \<and>
     (\<forall>n. neutral ok view (ActiveWorkers_Set P n))"

text \<open>A processor that acts outside the database and the streams; the call counter may move on.\<close>

definition neutral_processor :: "('r \<Rightarrow> bool) \<Rightarrow> ('r \<Rightarrow> 'm view) \<Rightarrow> 'r world processor \<Rightarrow> bool" where
  "neutral_processor ok view proc \<longleftrightarrow>
     (\<forall>e w. ok (wOut w) \<longrightarrow> wDB (snd (proc e w)) = wDB w \<and> ok (wOut (snd (proc e w))) \<and>
        view (wOut (snd (proc e w))) = view (wOut w))"

lemma on_out_neutral:
  assumes "neutral ok view (\<lambda>s. snd (f s))" and "world_sane ok w"
  shows "world_sane ok (snd (on_out f w)) \<and> wDB (snd (on_out f w)) = wDB w \<and> view (wOut (snd (on_out f w))) = view (wOut w)"
  using assms by (auto simp: neutral_def on_out_def world_sane_def case_prod_beta)

lemma out_only_neutral:
  assumes "neutral ok view f" and "world_sane ok w"
  shows "world_sane ok (out_only f w) \<and> wDB (out_only f w) = wDB w \<and> view (wOut (out_only f w)) = view (wOut w)"
  using assms by (auto simp: neutral_def out_only_def world_sane_def)

section \<open>Database calls\<close>

text \<open>Every writing call is one of the operations of \<open>repo_op\<close>.\<close>

lemma db_call_calm:
  assumes "world_sane ok w" and "snd (f (faults_at E (wCalls w)) (now_at E (wCalls w)) (wDB w)) = exec_op jsonb parse x (wDB w)"
  shows "world_sane ok (snd (on_db E f w)) \<and> wOut (snd (on_db E f w)) = wOut w \<and>
    (\<forall>k. settled (world_status w k) \<longrightarrow> world_status (snd (on_db E f w)) k = world_status w k)"
proof -
  let ?d = "exec_op jsonb parse x (wDB w)"
  have wf: "wf_db (wDB w)" "finalized_ok (wDB w)" "ok (wOut w)" using assms(1) by (simp_all add: world_sane_def)
  have "event_row ?d k = event_row (wDB w) k" if "settled (world_status w k)" for k
    using exec_op_terminal [OF wf(1)] that
    by (fastforce simp: world_status_def settled_def terminal_def)
  then show ?thesis
    using wf exec_op_wf [OF wf(1)] exec_op_finalized_ok [OF wf(1,2)] assms(2)
    by (auto simp: on_db_def case_prod_beta world_sane_def world_status_def)
qed

lemma on_db_result: "fst (on_db E f w) = fst (f (faults_at E (wCalls w)) (now_at E (wCalls w)) (wDB w))"
  by (simp add: on_db_def case_prod_beta)

lemma on_db_db: "wDB (snd (on_db E f w)) = snd (f (faults_at E (wCalls w)) (now_at E (wCalls w)) (wDB w))"
  by (simp add: on_db_def case_prod_beta)

lemma AssignEvent_conflict:
  assumes "wf_db d" and "AssignEvent parse flt now i name old new d = (Some ErrInvalidStateTransition, d')"
    and "IsValidTransition old new"
  shows "map_option eStatus (event_row d i) \<noteq> Some old"
  using assms by (auto simp: AssignEvent_normal locked_event_def apply_outcome_def split: if_splits outcome.splits)

lemma FinalizeEvent_completed:
  assumes "wf_db d" and "finalized_ok d" and "FinalizeEvent flt now i h d = (r, d')"
    and "r = None \<or> r = Some ErrAlreadyFinalized"
  shows "map_option eStatus (event_row d' i) = Some StatusCompleted"
proof (cases "r = None")
  case True
  from assms(1,3) show ?thesis
    by (cases rule: FinalizeEvent_cases) (use True in \<open>auto simp: row_moved_def updated_row_def\<close>)
next
  case False
  with assms(4) have r: "r = Some ErrAlreadyFinalized" by simp
  have idem: "idem_row d i \<noteq> None \<Longrightarrow> map_option eStatus (event_row d i) = Some StatusCompleted"
    using assms(2) by (auto simp: finalized_ok_def)
  from assms(3) r idem show ?thesis
    by (auto simp: FinalizeEvent_normal locked_event_def apply_outcome_def split: if_splits option.splits outcome.splits)
qed

lemma RecordFailure_failed:
  assumes "wf_db d" and "RecordFailure flt now i m d = ((StatusFailed, None), d')"
  shows "map_option eStatus (event_row d' i) = Some StatusFailed"
  using assms by (cases rule: RecordFailure_cases) (auto simp: row_moved_def)

section \<open>Queue calls\<close>

lemma receipts_take: "fst ` set (pending (v st g)) \<subseteq> fst ` set (pending (view_take stream grp v st g))"
  by (auto simp: view_take_def)

lemma pending_ack:
  assumes "ident \<in> fst ` set (pending (v st g))" and "st \<noteq> stream \<or> g \<noteq> grp \<or> ident \<noteq> ident'"
  shows "ident \<in> fst ` set (pending (view_ack stream grp ident' v st g))"
  using assms by (auto simp: view_ack_def image_iff)

lemma poll_streams_pending:
  assumes "redis_streams R view ok" and "ok s" and "poll_streams R unmarshal (\<lambda>_ t. t) grp name streams s = (r, s')"
  shows "ok s' \<and> (\<forall>st g. fst ` set (pending (view s st g)) \<subseteq> fst ` set (pending (view s' st g)))"
  using assms(2,3)
proof (induction streams arbitrary: s)
  case Nil
  then show ?case by auto
next
  case (Cons stream streams)
  obtain reply t where x: "XReadGroup R grp name stream s = (reply, t)" by fastforce
  have t: "ok t \<and> (\<forall>st g. fst ` set (pending (view s st g)) \<subseteq> fst ` set (pending (view t st g)))"
    by (rule redis_streams.read_cases [OF assms(1) Cons.prems(1) x]) (auto simp: view_take_def image_iff)
  show ?case
  proof (cases reply)
    case ReadNil
    have "poll_streams R unmarshal (\<lambda>_ t. t) grp name streams t = (r, s')"
      using Cons.prems(2) x ReadNil by simp
    from Cons.IH [OF conjunct1 [OF t] this] t show ?thesis
      by (meson subset_trans)
  qed (use Cons.prems(2) x t in \<open>auto split: option.splits\<close>)
qed

lemma Retry_ok:
  assumes "redis_streams R view ok" and "ok s" and "Retry R marshal j s = (r, s')"
  shows "ok s'"
  by (rule redis_streams.Retry_cases [OF assms])

section \<open>The contract holds\<close>


locale pipeline =
  fixes E :: "('m, 'r) env"
    and view :: "'r \<Rightarrow> 'm view"
    and ok :: "'r \<Rightarrow> bool"
    and proc :: "'r world processor"
  assumes streams: "redis_streams (client E) view ok"
    and platform: "neutral_platform ok view (plat E)"
    and processing: "neutral_processor ok view proc"
begin

abbreviation sane :: "'r world \<Rightarrow> bool" where
  "sane \<equiv> world_sane ok"

lemma db_step:
  assumes "sane w" and "on_db E f w = (r, w')"
    and "snd (f (faults_at E (wCalls w)) (now_at E (wCalls w)) (wDB w)) = exec_op jsonb parse x (wDB w)"
  shows "sane w' \<and> world_waits view w' = world_waits view w \<and>
    (\<forall>k. settled (world_status w k) \<longrightarrow> world_status w' k = world_status w k)"
  using db_call_calm [where f = f and E = E and w = w, OF assms(1,3)] assms(2)
  by (auto simp: world_waits_def fun_eq_iff)

lemma out_step:
  assumes "sane w" and "world_sane ok w' \<and> wDB w' = wDB w \<and> view (wOut w') = view (wOut w)"
  shows "sane w' \<and> world_status w' = world_status w \<and> world_waits view w' = world_waits view w"
  using assms by (auto simp: world_status_def world_waits_def fun_eq_iff)

lemma assign_law:
  assumes "sane w" and "repo_AssignEvent E i name StatusQueued StatusProcessing w = (r, w')"
  shows "sane w' \<and> world_waits view w' = world_waits view w \<and>
    (\<forall>k. settled (world_status w k) \<longrightarrow> world_status w' k = world_status w k) \<and>
    (r = Some ErrInvalidStateTransition \<longrightarrow> world_status w i \<noteq> Some StatusQueued)"
proof -
  let ?n = "wCalls w"
  let ?op = "OpAssignEvent (faults_at E ?n) (now_at E ?n) i name StatusQueued StatusProcessing"
  have calm: "sane w' \<and> world_waits view w' = world_waits view w \<and>
      (\<forall>k. settled (world_status w k) \<longrightarrow> world_status w' k = world_status w k)"
    by (rule db_step [OF assms(1) assms(2) [unfolded repo_AssignEvent_def], of "jsonb_in E" "uuid_Parse E" ?op]) simp
  have "world_status w i \<noteq> Some StatusQueued" if "r = Some ErrInvalidStateTransition"
  proof -
    have "AssignEvent (uuid_Parse E) (faults_at E ?n) (now_at E ?n) i name StatusQueued StatusProcessing (wDB w) =
        (Some ErrInvalidStateTransition, wDB w')"
      using assms(2) that unfolding repo_AssignEvent_def by (auto simp: on_db_def split: prod.splits)
    from AssignEvent_conflict [OF _ this] assms(1) show ?thesis
      by (simp add: world_status_def world_sane_def)
  qed
  with calm show ?thesis by blast
qed

lemma finalize_law:
  assumes "sane w" and "repo_FinalizeEvent E i h w = (r, w')"
  shows "sane w' \<and> world_waits view w' = world_waits view w \<and>
    (\<forall>k. settled (world_status w k) \<longrightarrow> world_status w' k = world_status w k) \<and>
    (r = None \<or> r = Some ErrAlreadyFinalized \<longrightarrow> world_status w' i = Some StatusCompleted)"
proof -
  let ?n = "wCalls w"
  let ?call = "FinalizeEvent (faults_at E ?n) (now_at E ?n) i h (wDB w)"
  have calm: "sane w' \<and> world_waits view w' = world_waits view w \<and>
      (\<forall>k. settled (world_status w k) \<longrightarrow> world_status w' k = world_status w k)"
    by (rule db_step [OF assms(1) assms(2) [unfolded repo_FinalizeEvent_def], of "jsonb_in E" "uuid_Parse E"
        "OpFinalizeEvent (faults_at E ?n) (now_at E ?n) i h"]) simp
  have "?call = (r, wDB w')"
    using assms(2) unfolding repo_FinalizeEvent_def by (auto simp: on_db_def split: prod.splits)
  with FinalizeEvent_completed [of "wDB w"] assms(1)
  have "r = None \<or> r = Some ErrAlreadyFinalized \<longrightarrow> world_status w' i = Some StatusCompleted"
    unfolding world_status_def world_sane_def by blast
  with calm show ?thesis by blast
qed

lemma record_law:
  assumes "sane w" and "repo_RecordFailure E i m w = ((st, r), w')"
  shows "sane w' \<and> world_waits view w' = world_waits view w \<and>
    (\<forall>k. settled (world_status w k) \<longrightarrow> world_status w' k = world_status w k) \<and>
    (r = None \<and> st = StatusFailed \<longrightarrow> world_status w' i = Some StatusFailed)"
proof -
  let ?n = "wCalls w"
  have calm: "sane w' \<and> world_waits view w' = world_waits view w \<and>
      (\<forall>k. settled (world_status w k) \<longrightarrow> world_status w' k = world_status w k)"
    by (rule db_step [OF assms(1) assms(2) [unfolded repo_RecordFailure_def], of "jsonb_in E" "uuid_Parse E"
        "OpRecordFailure (faults_at E ?n) (now_at E ?n) i m"]) simp
  have "RecordFailure (faults_at E ?n) (now_at E ?n) i m (wDB w) = ((st, r), wDB w')"
    using assms(2) unfolding repo_RecordFailure_def by (auto simp: on_db_def split: prod.splits)
  with RecordFailure_failed [of "wDB w"] assms(1)
  have "r = None \<and> st = StatusFailed \<longrightarrow> world_status w' i = Some StatusFailed"
    unfolding world_status_def world_sane_def by blast
  with calm show ?thesis by blast
qed

lemma update_law:
  assumes "sane w" and "repo_UpdateStatus E i old new w = (r, w')"
  shows "sane w' \<and> world_waits view w' = world_waits view w \<and>
    (\<forall>k. settled (world_status w k) \<longrightarrow> world_status w' k = world_status w k)"
  by (rule db_step [OF assms(1) assms(2) [unfolded repo_UpdateStatus_def], of "jsonb_in E" "uuid_Parse E"
      "OpUpdateStatus (faults_at E (wCalls w)) (now_at E (wCalls w)) i old new"]) simp

lemma ack_law:
  assumes "sane w" and "queue_Ack E j w = (q, w')"
  shows "sane w' \<and> world_status w' = world_status w \<and> (\<forall>j'. world_waits view w j' \<longrightarrow> world_waits view w' j' \<or> same_message j' j)"
proof -
  obtain s where a: "Ack (client E) j (wOut w) = (q, s)" and w': "w' = w\<lparr>wOut := s, wCalls := Suc (wCalls w)\<rparr>"
    using assms(2) by (auto simp: queue_Ack_def on_out_def split: prod.splits)
  have ok: "ok (wOut w)" using assms(1) by (simp add: world_sane_def)
  note e = redis_streams.Ack_effect [OF streams ok a]
  have "world_waits view w' j' \<or> same_message j' j" if "world_waits view w j'" for j'
  proof (rule disjCI)
    assume "\<not> same_message j' j"
    then have "jQueue j' \<noteq> jQueue j \<or> jGroup j' \<noteq> jGroup j \<or> jReceipt j' \<noteq> jReceipt j"
      by (auto simp: same_message_def)
    note p = pending_ack [where v = "view (wOut w)", OF that [unfolded world_waits_def] this]
    from e(2) show "world_waits view w' j'"
      using p that by (elim disjE conjE) (simp_all add: world_waits_def w')
  qed
  moreover have "sane w' \<and> world_status w' = world_status w"
    using assms(1) e(1) by (auto simp: w' world_sane_def world_status_def fun_eq_iff)
  ultimately show ?thesis by blast
qed

lemma consume_law:
  assumes "sane w" and "queue_Consume E fin grp name w = (c, w')"
  shows "sane w' \<and> world_status w' = world_status w \<and> (\<forall>j. world_waits view w j \<longrightarrow> world_waits view w' j)"
proof -
  obtain s where a: "consume_round (client E) (json_Unmarshal E) fin grp name (wOut w) = (c, s)"
      and w': "w' = w\<lparr>wOut := s, wCalls := Suc (wCalls w)\<rparr>"
    using assms(2) by (auto simp: queue_Consume_def on_out_def split: prod.splits)
  have ok: "ok (wOut w)" using assms(1) by (simp add: world_sane_def)
  have "ok s \<and> (\<forall>st g. fst ` set (pending (view (wOut w) st g)) \<subseteq> fst ` set (pending (view s st g)))"
    using a poll_streams_pending [OF streams ok] ok
    by (cases fin) (simp add: consume_round_def, auto simp: consume_round_def)
  then have s: "ok s" "\<And>st g. fst ` set (pending (view (wOut w) st g)) \<subseteq> fst ` set (pending (view s st g))" by auto
  have "\<forall>j. world_waits view w j \<longrightarrow> world_waits view w' j"
  proof (intro allI impI)
    fix j
    assume "world_waits view w j"
    then show "world_waits view w' j"
      unfolding world_waits_def w' by simp (rule subsetD [OF s(2)])
  qed
  moreover have "sane w' \<and> world_status w' = world_status w"
    using assms(1) s(1) by (simp add: w' world_sane_def world_status_def fun_eq_iff)
  ultimately show ?thesis by blast
qed

lemma retry_law:
  assumes "sane w" and "queue_Retry E j w = (q, w')"
  shows "sane w' \<and> world_status w' = world_status w"
proof -
  obtain s where a: "Retry (client E) (json_Marshal E) j (wOut w) = (q, s)" and w': "w' = w\<lparr>wOut := s, wCalls := Suc (wCalls w)\<rparr>"
    using assms(2) by (auto simp: queue_Retry_def on_out_def split: prod.splits)
  have "ok s" using Retry_ok [OF streams _ a] assms(1) by (simp add: world_sane_def)
  then show ?thesis using assms(1) by (auto simp: w' world_sane_def world_status_def fun_eq_iff)
qed

lemma process_law:
  assumes "sane w" and "proc e w = (p, w')"
  shows "sane w' \<and> world_status w' = world_status w \<and> world_waits view w' = world_waits view w"
proof -
  have "wDB w' = wDB w \<and> ok (wOut w') \<and> view (wOut w') = view (wOut w)"
    using processing assms unfolding neutral_processor_def world_sane_def by (metis snd_conv)
  with assms(1) show ?thesis by (auto simp: world_sane_def world_status_def world_waits_def fun_eq_iff)
qed

end

context pipeline
begin

lemma neutral_commands:
  "neutral ok view (\<lambda>s. snd (Redis_Set (plat E) k v ttl s))"
  "neutral ok view (\<lambda>s. snd (Redis_Publish (plat E) ch m s))"
  "neutral ok view (EventsProcessed_Add (plat E) t)"
  "neutral ok view (EventsFailed_Add (plat E) t)"
  "neutral ok view (Duration_Observe (plat E) t dur)"
  using platform by (auto simp: neutral_platform_def)

lemma ping_law:
  assumes "sane w" and "Ping E name ttl w = (pe, w')"
  shows "sane w' \<and> world_status w' = world_status w \<and> world_waits view w' = world_waits view w"
proof -
  have "w' = snd (on_out (Redis_Set (plat E) (heartbeat_key name) ''alive'' ttl) w)"
    using assms(2) by (auto simp: Ping_def split: prod.splits option.splits)
  with out_step [OF assms(1)] on_out_neutral [OF neutral_commands(1) assms(1)] show ?thesis by blast
qed

lemma send_law:
  assumes "sane w"
  shows "sane (RedisBroadcast E msg w) \<and> world_status (RedisBroadcast E msg w) = world_status w \<and>
    world_waits view (RedisBroadcast E msg w) = world_waits view w"
  unfolding RedisBroadcast_def
  by (rule out_step [OF assms on_out_neutral [OF neutral_commands(2) assms]])

lemma count_law:
  assumes "sane w" and "neutral ok view f"
  shows "sane (out_only f w) \<and> world_status (out_only f w) = world_status w \<and>
    world_waits view (out_only f w) = world_waits view w"
  by (rule out_step [OF assms(1) out_only_neutral [OF assms(2,1)]])

lemma random_law:
  assumes "sane w"
  shows "sane (w\<lparr>wCalls := n\<rparr>) \<and> world_status (w\<lparr>wCalls := n\<rparr>) = world_status w \<and>
    world_waits view (w\<lparr>wCalls := n\<rparr>) = world_waits view w"
  by (rule out_step [OF assms]) (use assms in \<open>simp add: world_sane_def\<close>)

lemma services: "job_services (worker_main_deps E proc) world_status (world_waits view) sane"
proof (unfold_locales, goal_cases)
  case (1 w i name r w')
  then show ?case using assign_law by (simp add: worker_main_deps_def)
next
  case (2 w i h r w')
  then show ?case using finalize_law by (simp add: worker_main_deps_def)
next
  case (3 w i m st r w')
  then show ?case using record_law by (simp add: worker_main_deps_def)
next
  case (4 w j q w')
  then show ?case using ack_law by (simp add: worker_main_deps_def)
next
  case (5 w e p w')
  then show ?case using process_law by (simp add: worker_main_deps_def)
next
  case (6 w fin grp name c w')
  then show ?case using consume_law by (simp add: worker_main_deps_def)
next
  case (7 w f msg)
  then show ?case using send_law by (auto simp: worker_main_deps_def)
next
  case (8 w t)
  then show ?case using count_law neutral_commands(3) by (simp add: worker_main_deps_def)
next
  case (9 w t)
  then show ?case using count_law neutral_commands(4) by (simp add: worker_main_deps_def)
next
  case (10 w t dur)
  then show ?case using count_law neutral_commands(5) by (simp add: worker_main_deps_def)
next
  case (11 w name ttl pe w')
  then show ?case using ping_law by (simp add: worker_main_deps_def)
next
  case (12 w j q w')
  then show ?case using retry_law by (simp add: worker_main_deps_def)
next
  case (13 w i r w')
  then show ?case using update_law by (simp add: worker_main_deps_def)
next
  case (14 w u w')
  then show ?case using random_law by (auto simp: worker_main_deps_def)
qed

end

sublocale pipeline \<subseteq> job: job_services "worker_main_deps E proc" world_status "world_waits view" "world_sane ok"
  by (rule services)

section \<open>A concrete pipeline\<close>

text \<open>
  The commands beside the streams on the server of \<open>RedisModel\<close>: keys do not expire while no time
  passes. The collectors are outside it.
\<close>

definition mem_platform :: "'m mem_redis platform" where
  "mem_platform =
     \<lparr> Redis_Set = (\<lambda>k v ttl s. (None, s\<lparr>mr_keys := k # mr_keys s\<rparr>)),
       Redis_Exists = (\<lambda>k s. (Inr (if k \<in> set (mr_keys s) then 1 else 0), s)),
       Redis_Keys = (\<lambda>pat s. (Inr (remdups (mr_keys s)), s)),
       Redis_XLen = (\<lambda>k s. (Inr (int (length (ms_entries (mr_streams s k)))), s)),
       Redis_Publish = (\<lambda>ch m s. (None, s\<lparr>mr_published := mr_published s @ [(ch, m)]\<rparr>)),
       EventsReceived_Add = (\<lambda>t s. s), EventsProcessed_Add = (\<lambda>t s. s), EventsFailed_Add = (\<lambda>t s. s),
       Duration_Observe = (\<lambda>t dur s. s), QueueDepth_Set = (\<lambda>k n s. s), ActiveWorkers_Set = (\<lambda>n s. s) \<rparr>"

definition mem_env :: "(event, event mem_redis) env" where
  "mem_env =
     \<lparr> client = mem_client, plat = mem_platform, json_Marshal = Some, json_Unmarshal = Some,
       faults_at = (\<lambda>_. no_faults), now_at = (\<lambda>n. 1000000 + 1000 * int n), rand_at = (\<lambda>_. 1 / 2), scan_order = (\<lambda>_ r. r),
       jsonb_in = Some, uuid_Parse = (\<lambda>_. None), uuid_Text = (\<lambda>_. ''0f8fad5b-d9cb-469f-a165-70867728950e''),
       float_oor = (\<lambda>_. 0) \<rparr>"

text \<open>The same server holding bytes, written and read by the codec of \<open>EventCodec\<close>.\<close>

definition wire_env :: "(bytes, bytes mem_redis) env" where
  "wire_env =
     \<lparr> client = mem_client, plat = mem_platform, json_Marshal = encode_event canonical_text (\<lambda>_. 7200),
       json_Unmarshal = decode_event canonical_parse, faults_at = (\<lambda>_. no_faults), now_at = (\<lambda>n. 1000000 + 1000 * int n),
       rand_at = (\<lambda>_. 1 / 2), scan_order = (\<lambda>_ r. r), jsonb_in = Some, uuid_Parse = canonical_parse,
       uuid_Text = canonical_text, float_oor = (\<lambda>_. 0) \<rparr>"

lemma clock_ticks [simp]: "timestamptz (1000000 + 1000 * int n) = 1000000 + 1000 * int n"
proof -
  have "1000000 + 1000 * int n = (1000 + int n) * 1000" by simp
  then show ?thesis by (simp only: timestamptz_def) simp
qed

lemma mem_ok_fields [simp]:
  "mem_ok (s\<lparr>mr_keys := ks\<rparr>) = mem_ok s" "mem_ok (s\<lparr>mr_published := ps\<rparr>) = mem_ok s"
  "mem_view (s\<lparr>mr_keys := ks\<rparr>) = mem_view s" "mem_view (s\<lparr>mr_published := ps\<rparr>) = mem_view s"
  by (simp_all add: mem_ok_def mem_view_def fun_eq_iff split: option.split)

lemma mem_platform_neutral: "neutral_platform mem_ok mem_view mem_platform"
  by (simp add: neutral_platform_def neutral_def mem_platform_def)

lemma main_processor_neutral: "neutral_processor ok view main_processor"
proof -
  obtain r where r: "main_registry (\<lambda>_ _ w. w) = Some (r :: 'a world registry)"
      "\<And>t. r t = map_option (DummyProcessor_Process (\<lambda>_ _ w. w)) (map_of main_registrations t)"
    using main_registry_lookup [where slog_Info = "\<lambda>_ _ (w :: 'a world). w"] by blast
  then show ?thesis
    by (auto simp: neutral_processor_def main_processor_def Registry_Process_def DummyProcessor_Process_def
        split: option.split)
qed

interpretation mem_pipeline: pipeline mem_env mem_view mem_ok main_processor
  by (rule pipeline.intro)
    (simp_all add: mem_env_def mem.redis_streams_axioms mem_platform_neutral main_processor_neutral)

section \<open>Properties\<close>

lemma worker_reach_run:
  assumes "worker_reach d p st_of sn s w" and "\<forall>a \<in> set as. \<forall>v. a \<noteq> ActWorld v" and "run_acts d p as s w = (s', w')"
  shows "worker_reach d p st_of sn s' w'"
  using assms
proof (induction as arbitrary: s w)
  case (Cons a as)
  obtain s1 w1 where a: "act_step d p a s w = (s1, w1)" by fastforce
  have "worker_reach d p st_of sn s1 w1"
    using worker_reach.own [OF Cons.prems(1) _ a] Cons.prems(2) by auto
  with Cons.IH [OF this] Cons.prems a show ?case by simp
qed simp

lemma poll_streams_origin:
  assumes "redis_streams R view ok" and "ok s"
    and "consume_round R unmarshal fin grp name s = (Some (Inr j), s')"
  shows "jGroup j = grp \<and> (\<exists>m rest. undelivered (view s (jQueue j) grp) = (jReceipt j, m) # rest \<and> unmarshal m = Some (jEvent j))"
proof -
  have "poll_streams R unmarshal (\<lambda>_ t. t) grp name AllStreams s = (Some (Inr j), s')"
    using assms(3) by (simp add: consume_round_def split: if_splits)
  from redis_streams.poll_streams_job [OF assms(1,2) _ this] show ?thesis by auto
qed

text \<open>
  C5 At-least-once delivery on the side of the worker: in whatever order its goroutines and the rest of
  the system act, and whatever faults the database and the server have, the job loop takes no message
  from the pending entries but that of the job it has in hand, and does so only when the event of that
  job is completed or failed, or when its claim has just been refused, which happens only if its row was
  not queued at that moment. The event is the one the message says: at some earlier moment of the run the
  entry with the job's receipt was at the head of the job's stream, and decoded to an event with this id.
\<close>

theorem worker_gives_up_only_settled:
  assumes "redis_streams (client E) view ok" and "neutral_platform ok view (plat E)"
    and "neutral_processor ok view proc"
    and "worker_reach (worker_main_deps E proc) p world_status (world_sane ok) s w"
    and "loop_step (worker_main_deps E proc) p timer s w = Some (s', w')"
  shows "(\<forall>j'. world_waits view w j' \<and> \<not> world_waits view w' j' \<longrightarrow>
      (\<exists>j. job_at (loop s) = Some j \<and> same_message j' j \<and>
         (loop s = AtAckStale j \<or> world_status w (eID (jEvent j)) \<in> {Some StatusCompleted, Some StatusFailed}) \<and>
         (\<exists>s0 w0 m rest e. worker_reach (worker_main_deps E proc) p world_status (world_sane ok) s0 w0 \<and>
            undelivered (view (wOut w0) (jQueue j) (jGroup j)) = (jReceipt j, m) # rest \<and>
            json_Unmarshal E m = Some e \<and> eID e = eID (jEvent j)))) \<and>
    (\<forall>j. loop s' = AtAckStale j \<longrightarrow> job_at (loop s) = Some j \<and> world_status w (eID (jEvent j)) \<noteq> Some StatusQueued)"
proof -
  let ?d = "worker_main_deps E proc"
  have services: "job_services ?d world_status (world_waits view) (world_sane ok)"
    using assms(1-3) by (intro pipeline.services pipeline.intro)
  note reach = job_services.reach_ok [OF services assms(4)]
  have origin: "\<exists>s0 w0 m rest e. worker_reach ?d p world_status (world_sane ok) s0 w0 \<and>
      undelivered (view (wOut w0) (jQueue j) (jGroup j)) = (jReceipt j, m) # rest \<and>
      json_Unmarshal E m = Some e \<and> eID e = eID (jEvent j)"
    if "handed_out ?d p world_status (world_sane ok) j" for j
  proof -
    from that obtain s0 w0 w1 j0 where h: "worker_reach ?d p world_status (world_sane ok) s0 w0"
      "queue_Consume E (ctx_done s0) (w_group p) (w_id p) w0 = (Some (Inr j0), w1)"
      "same_message j0 j" "eID (jEvent j0) = eID (jEvent j)"
      by (auto simp: handed_out_def worker_main_deps_def)
    have "ok (wOut w0)" using job_services.reach_ok [OF services h(1)] by (simp add: world_sane_def)
    moreover obtain t where "consume_round (client E) (json_Unmarshal E) (ctx_done s0) (w_group p) (w_id p) (wOut w0) = (Some (Inr j0), t)"
      using h(2) by (auto simp: queue_Consume_def on_out_def split: prod.splits)
    ultimately have o: "jGroup j0 = w_group p \<and> (\<exists>m rest. undelivered (view (wOut w0) (jQueue j0) (w_group p)) =
        (jReceipt j0, m) # rest \<and> json_Unmarshal E m = Some (jEvent j0))"
      by (rule poll_streams_origin [OF assms(1)])
    have j: "jReceipt j0 = jReceipt j" "jQueue j0 = jQueue j" "jGroup j0 = jGroup j"
      using h(3) by (simp_all add: same_message_def)
    from o obtain m rest where "undelivered (view (wOut w0) (jQueue j) (jGroup j)) = (jReceipt j, m) # rest"
      "json_Unmarshal E m = Some (jEvent j0)" unfolding j [symmetric] by auto
    with h(1,4) show ?thesis by (intro exI conjI)
  qed
  have drop: "\<exists>j. job_at (loop s) = Some j \<and> same_message j' j \<and>
      (loop s = AtAckStale j \<or> world_status w (eID (jEvent j)) \<in> {Some StatusCompleted, Some StatusFailed}) \<and>
      (\<exists>s0 w0 m rest e. worker_reach ?d p world_status (world_sane ok) s0 w0 \<and>
         undelivered (view (wOut w0) (jQueue j) (jGroup j)) = (jReceipt j, m) # rest \<and>
         json_Unmarshal E m = Some e \<and> eID e = eID (jEvent j))"
    if "world_waits view w j'" "\<not> world_waits view w' j'" for j'
  proof -
    from job_services.reach_drop [OF services assms(4,5) that] obtain j where
      j: "job_at (loop s) = Some j" "same_message j' j" "handed_out ?d p world_status (world_sane ok) j"
      "loop s = AtAckStale j \<or> settled (world_status w (eID (jEvent j)))" by blast
    from j(4) have "loop s = AtAckStale j \<or> world_status w (eID (jEvent j)) \<in> {Some StatusCompleted, Some StatusFailed}"
      by (simp add: settled_def)
    with j(1,2) origin [OF j(3)] show ?thesis by (intro exI [of _ j] conjI)
  qed
  have stale: "\<forall>j. loop s' = AtAckStale j \<longrightarrow> world_status w (eID (jEvent j)) \<noteq> Some StatusQueued"
    using job_services.loop_step_safe [OF services _ _ assms(5)] reach
    unfolding job_services.safe_step_def [OF services] by blast
  moreover have "job_at (loop s) = Some j" if "loop s' = AtAckStale j" for j
    using assms(5) that by (cases "loop s") (auto simp: loop_step_def goto_def split: prod.splits option.splits sum.splits if_splits)
  ultimately show ?thesis
    by (intro conjI allI impI) (elim conjE, rule drop, assumption+, blast+)
qed

definition stale_world :: "event mem_redis world" where
  "stale_world = \<lparr>wDB = sample_db StatusReceived, wOut = mem_one, wCalls = 0\<rparr>"

definition stale_run :: "event mem_redis world act list" where
  "stale_run = [ActStart, ActLoop False, ActLoop False, ActLoop False, ActLoop False]"

lemma stale_run_state:
  "\<exists>s w. run_acts (worker_main_deps mem_env main_processor) (quiet_worker\<lparr>w_group := ''workers''\<rparr>) stale_run NewWorker stale_world = (s, w) \<and>
     loop s = AtAckStale job_one \<and> world_waits mem_view w job_one \<and>
     loop_step (worker_main_deps mem_env main_processor) (quiet_worker\<lparr>w_group := ''workers''\<rparr>) False s w \<noteq> None \<and>
     (\<forall>s' w'. loop_step (worker_main_deps mem_env main_processor) (quiet_worker\<lparr>w_group := ''workers''\<rparr>) False s w = Some (s', w') \<longrightarrow>
        \<not> world_waits mem_view w' job_one)"
  by (simp add: stale_run_def stale_world_def NewWorker_def Start_def Let_def Broadcast_def worker_main_deps_def
      RedisBroadcast_def on_out_def mem_env_def mem_platform_def apply_opt_def loop_step_def goto_def quiet_worker_def
      queue_Consume_def consume_round_def mem_one_eq mem_unfold repo_AssignEvent_def on_db_def AssignEvent_normal
      locked_event_def no_faults_def msg_event_def job_one_def world_waits_def queue_Ack_def)

theorem worker_gives_up_only_settled_witness:
  "\<exists>s w s' w'. loop_step (worker_main_deps mem_env main_processor) (quiet_worker\<lparr>w_group := ''workers''\<rparr>) False s w = Some (s', w') \<and>
     world_waits mem_view w job_one \<and> \<not> world_waits mem_view w' job_one \<and>
     (\<exists>j. job_at (loop s) = Some j \<and> same_message job_one j \<and>
       (loop s = AtAckStale j \<or> world_status w (eID (jEvent j)) \<in> {Some StatusCompleted, Some StatusFailed}))"
proof -
  let ?d = "worker_main_deps mem_env main_processor" and ?p = "quiet_worker\<lparr>w_group := ''workers''\<rparr>"
  from stale_run_state show ?thesis
  proof (elim exE conjE)
    fix s w
    assume r: "run_acts ?d ?p stale_run NewWorker stale_world = (s, w)"
      and waits: "world_waits mem_view w job_one"
      and step: "loop_step ?d ?p False s w \<noteq> None"
      and gone: "\<forall>s' w'. loop_step ?d ?p False s w = Some (s', w') \<longrightarrow> \<not> world_waits mem_view w' job_one"
    obtain s' w' where l: "loop_step ?d ?p False s w = Some (s', w')" using step by auto
    have "world_sane mem_ok stale_world"
      by (simp add: world_sane_def stale_world_def mem_one_ok)
    then have "worker_reach ?d ?p world_status (world_sane mem_ok) s w"
      by (intro worker_reach_run [OF worker_reach.new _ r]) (simp_all add: stale_run_def)
    from worker_gives_up_only_settled [OF _ _ _ this l, of mem_view] show ?thesis
      using waits gone l mem_pipeline.streams mem_pipeline.platform mem_pipeline.processing by blast
  qed
qed

end
