(* ===== verification/SchedulerProps.thy ===== *)
theory SchedulerProps
  imports Scheduler StoreProps Pipeline
begin

text \<open>
  What the sweep does: its single steps compose to the code read from top to bottom; with services that
  answer, exactly the stranded events are put back, each once; and an event whose owner is not recorded
  is never put back.
\<close>

section \<open>Steps and the whole\<close>

definition finishes :: "('m, 'r) env \<Rightarrow> sched_pc \<Rightarrow> 'r world \<Rightarrow> 'r world \<Rightarrow> bool" where
  "finishes E pc w v \<longleftrightarrow> (\<exists>n. run_sched E n pc w = Some v)"

declare run_sched.simps(2) [simp del]

lemma finishes_wait: "finishes E SchedWait w w"
  unfolding finishes_def by (rule exI [of _ "Suc 0"]) (simp add: run_sched.simps(2))

lemma finishes_step:
  assumes "sched_step E True False pc w = Some (pc', w')" and "pc \<noteq> SchedWait" and "finishes E pc' w' v"
  shows "finishes E pc w v"
proof -
  from assms(3) obtain n where "run_sched E n pc' w' = Some v" by (auto simp: finishes_def)
  with assms(1,2) have "run_sched E (Suc n) pc w = Some v" by (simp add: run_sched.simps(2))
  then show ?thesis by (auto simp: finishes_def)
qed

lemma finishes_depth: "finishes E (SchedDepth streams) w (fold (update_depth E) streams w)"
proof (induction streams arbitrary: w)
  case Nil
  show ?case by - (rule finishes_step [of _ _ _ SchedWait w], simp_all add: finishes_wait)
next
  case (Cons s ss)
  then show ?case by - (rule finishes_step [of _ _ _ "SchedDepth ss" "update_depth E s w"], simp_all)
qed

lemma finishes_active: "finishes E SchedActive w (updateMetrics E w)"
  by (rule finishes_step [of _ _ _ "SchedDepth AllStreams" "update_active E w"])
    (simp_all add: updateMetrics_def finishes_depth)

lemma finishes_list:
  assumes "\<And>u. finishes E (sched_after st) u (k u)"
  shows "finishes E (SchedNext st evs dead) w (k (recover_list E st evs dead w))"
proof (induction evs arbitrary: dead w)
  case Nil
  show ?case by - (rule finishes_step [of _ _ _ "sched_after st" w], simp_all add: assms)
next
  case (Cons e es)
  obtain rec dead' w' where n: "needs_recovery E st e dead w = (rec, dead', w')" by (metis surj_pair)
  show ?case
  proof (cases rec)
    case False
    with n Cons.IH show ?thesis by - (rule finishes_step [of _ _ _ "SchedNext st es dead'" w'], simp_all)
  next
    case True
    obtain r w1 where p: "recover_publish E e w' = (r, w1)" by fastforce
    have "finishes E (SchedPublish st e es dead') w' (k (recover_list E st es dead' (recover_event E st e w')))"
    proof (cases r)
      case None
      with p have rec: "recover_event E st e w' = snd (recover_reset E st e w1)" by (simp add: recover_event_def)
      have "finishes E (SchedReset st e es dead') w1 (k (recover_list E st es dead' (recover_event E st e w')))"
        using Cons.IH rec by - (rule finishes_step [of _ _ _ "SchedNext st es dead'" "snd (recover_reset E st e w1)"], simp_all)
      with p None show ?thesis by - (rule finishes_step [of _ _ _ "SchedReset st e es dead'" w1], simp_all)
    next
      case (Some err)
      with p have "recover_event E st e w' = w1" by (simp add: recover_event_def)
      with p Some Cons.IH show ?thesis by - (rule finishes_step [of _ _ _ "SchedNext st es dead'" w1], simp_all)
    qed
    with n True show ?thesis by - (rule finishes_step [of _ _ _ "SchedPublish st e es dead'" w'], simp_all)
  qed
qed

lemma finishes_query:
  assumes "\<And>u. finishes E (sched_after st) u (k u)"
  shows "finishes E (SchedQuery st age) w (k (recoverEvents E st age w))"
proof -
  obtain r w' where q: "query_stale E st age w = (r, w')" by fastforce
  show ?thesis
  proof (cases r)
    case (Inl err)
    with q assms show ?thesis by - (rule finishes_step [of _ _ _ "sched_after st" w'], simp_all add: recoverEvents_def)
  next
    case (Inr evs)
    show ?thesis
    proof (cases "evs = []")
      case True
      with q Inr assms show ?thesis by - (rule finishes_step [of _ _ _ "sched_after st" w'], simp_all add: recoverEvents_def)
    next
      case False
      with q Inr finishes_list [OF assms] show ?thesis
        by - (rule finishes_step [of _ _ _ "SchedNext st evs Map.empty" w'], simp_all add: recoverEvents_def)
    qed
  qed
qed

lemma finishes_sweep: "finishes E (SchedQuery StatusProcessing processing_age) w (sched_tick E w)"
proof -
  have "finishes E (sched_after StatusRetrying) u (updateMetrics E u)" for u
    by (simp add: sched_after_def finishes_active)
  from finishes_query [OF this]
  have "finishes E (sched_after StatusProcessing) u (updateMetrics E (recoverEvents E StatusRetrying retrying_age u))" for u
    by (simp add: sched_after_def)
  from finishes_query [OF this] show ?thesis
    by (simp add: sched_tick_def runSweep_def)
qed

section \<open>What a sweep recovers\<close>

text \<open>
  The services the scheduler relies on, when they answer: \<open>EXISTS\<close> tells whether the heartbeat key is
  there, \<open>XADD\<close> to one of the streams of the program adds one message to it, whatever the message is, the
  database has no fault and scans every row once per query. The codec is left open: an event that
  \<open>json.Marshal\<close> refuses is not published.
\<close>

locale recovery_services =
  fixes E :: "('m, 'r) env"
    and alive :: "'r \<Rightarrow> string \<Rightarrow> bool"
    and sent :: "'r \<Rightarrow> (string \<times> 'm) multiset"
  assumes heartbeat: "Redis_Exists (plat E) k s = (res, s') \<Longrightarrow>
      (\<exists>n. res = Inr n \<and> (n = 0 \<longleftrightarrow> \<not> alive s k)) \<and> alive s' = alive s \<and> sent s' = sent s"
    and xadd: "stream \<in> set AllStreams \<Longrightarrow> XAdd (client E) stream m s = (r, s') \<Longrightarrow>
      r = None \<and> alive s' = alive s \<and> sent s' = add_mset (stream, m) (sent s)"
    and calm: "faults_at E n = no_faults"
    and scan: "mset (scan_order E n rows) = mset rows"

definition owner_dead :: "('m, 'r) env \<Rightarrow> ('r \<Rightarrow> string \<Rightarrow> bool) \<Rightarrow> 'r \<Rightarrow> event \<Rightarrow> bool" where
  "owner_dead E alive s e =
     (case eWorkerID e of None \<Rightarrow> False | Some u \<Rightarrow> \<not> alive s (heartbeat_key (uuid_Text E u)))"

definition chosen :: "('m, 'r) env \<Rightarrow> ('r \<Rightarrow> string \<Rightarrow> bool) \<Rightarrow> event_status \<Rightarrow> 'r \<Rightarrow> event \<Rightarrow> bool" where
  "chosen E alive st s e \<longleftrightarrow> (st = StatusProcessing \<longrightarrow> owner_dead E alive s e)"

definition as_queued :: "event \<Rightarrow> event" where
  "as_queued e = e\<lparr>eStatus := StatusQueued\<rparr>"

text \<open>Events that can be written as a message, and the message with its stream.\<close>

definition writable :: "('m, 'r) env \<Rightarrow> event \<Rightarrow> bool" where
  "writable E e \<longleftrightarrow> json_Marshal E (as_queued e) \<noteq> None"

definition message_of :: "('m, 'r) env \<Rightarrow> event \<Rightarrow> string \<times> 'm" where
  "message_of E e = (stream_of (ePriority e), the (json_Marshal E (as_queued e)))"

definition put_back :: "('m, 'r) env \<Rightarrow> ('r \<Rightarrow> string \<Rightarrow> bool) \<Rightarrow> event_status \<Rightarrow> 'r \<Rightarrow> event \<Rightarrow> bool" where
  "put_back E alive st s e \<longleftrightarrow> chosen E alive st s e \<and> writable E e"

definition recovered :: "time \<Rightarrow> event \<Rightarrow> event" where
  "recovered now e = e\<lparr>eStatus := StatusQueued, eWorkerID := None, eUpdatedAt := timestamptz now\<rparr>"

lemma AssignEvent_recovers:
  assumes "wf_db d" and "event_row d i = Some e" and "eStatus e = st" and "IsValidTransition st StatusQueued"
    and "AssignEvent parse no_faults now i '''' st StatusQueued d = (r, d')"
  shows "wf_db d' \<and> event_row d' = (event_row d)(i \<mapsto> recovered now e)"
  using assms(1,5)
proof (cases rule: AssignEvent_cases)
  case (same err)
  with assms show ?thesis
    by (simp add: AssignEvent_normal locked_event_def no_faults_def apply_outcome_def)
next
  case (moved row)
  then show ?thesis using assms(2)
    by (simp add: row_moved_def recovered_def assigned_row_def parsed_worker_def)
qed

context recovery_services
begin

definition cache_ok :: "'r \<Rightarrow> dead_cache \<Rightarrow> bool" where
  "cache_ok s dead \<longleftrightarrow> (\<forall>wid b. dead wid = Some b \<longrightarrow> b = (\<not> alive s (heartbeat_key wid)))"

lemma cache_ok_cong: "alive s = alive s' \<Longrightarrow> cache_ok s dead = cache_ok s' dead"
  by (simp add: cache_ok_def)

lemma needs_recovery_exact:
  assumes "needs_recovery E st e dead w = (rec, dead', w')" and "cache_ok (wOut w) dead"
  shows "rec = chosen E alive st (wOut w) e \<and> cache_ok (wOut w') dead' \<and> alive (wOut w') = alive (wOut w) \<and>
    sent (wOut w') = sent (wOut w) \<and> wDB w' = wDB w"
proof (cases "st = StatusProcessing")
  case False
  with assms show ?thesis by (auto simp: needs_recovery_def chosen_def)
next
  case True
  show ?thesis
  proof (cases "eWorkerID e")
    case None
    with True assms show ?thesis by (auto simp: needs_recovery_def chosen_def owner_dead_def)
  next
    case (Some u)
    obtain res s where x: "Redis_Exists (plat E) (heartbeat_key (uuid_Text E u)) (wOut w) = (res, s)" by fastforce
    note h = heartbeat [OF x]
    show ?thesis
    proof (cases "dead (uuid_Text E u)")
      case None
      from h obtain n where n: "res = Inr n" "n = 0 \<longleftrightarrow> \<not> alive (wOut w) (heartbeat_key (uuid_Text E u))"
        "alive s = alive (wOut w)" "sent s = sent (wOut w)" by blast
      have e: "rec = (n = 0)" "dead' = dead(uuid_Text E u \<mapsto> n = 0)" "w' = w\<lparr>wOut := s, wCalls := Suc (wCalls w)\<rparr>"
        using assms(1) True Some None x n(1)
        by (auto simp: needs_recovery_def Exists_heartbeat_def on_out_def Let_def)
      with True Some assms(2) n show ?thesis
        by (simp add: chosen_def owner_dead_def cache_ok_def)
    next
      case cached: (Some b)
      with True Some assms show ?thesis
        by (auto simp: needs_recovery_def chosen_def owner_dead_def cache_ok_def Let_def)
    qed
  qed
qed

lemma recover_event_exact:
  assumes "wf_db (wDB w)" and "event_row (wDB w) (eID e) = Some e" and "eStatus e = st"
    and "IsValidTransition st StatusQueued" and "writable E e"
  shows "\<exists>now. wf_db (wDB (recover_event E st e w)) \<and> alive (wOut (recover_event E st e w)) = alive (wOut w) \<and>
    sent (wOut (recover_event E st e w)) = add_mset (message_of E e) (sent (wOut w)) \<and>
    event_row (wDB (recover_event E st e w)) = (event_row (wDB w))(eID e \<mapsto> recovered now e)"
proof -
  obtain m where m: "json_Marshal E (as_queued e) = Some m" using assms(5) by (auto simp: writable_def)
  obtain r s where x: "XAdd (client E) (stream_of (ePriority e)) m (wOut w) = (r, s)" by fastforce
  have "stream_of (ePriority e) \<in> set AllStreams" by (simp add: stream_of_def AllStreams_def)
  note q = xadd [OF this x]
  have p: "Publish (client E) (json_Marshal E) (as_queued e) (wOut w) = (None, s)"
    using m x q by (simp add: Publish_def as_queued_def)
  let ?n = "now_at E (Suc (wCalls w))"
  obtain r' d' where a: "AssignEvent (uuid_Parse E) no_faults ?n (eID e) '''' st StatusQueued (wDB w) = (r', d')" by fastforce
  have "recover_event E st e w = w\<lparr>wOut := s, wDB := d', wCalls := Suc (Suc (wCalls w))\<rparr>"
    using p a by (simp add: recover_event_def recover_publish_def recover_reset_def queue_Publish_def on_out_def
        repo_AssignEvent_def on_db_def calm as_queued_def)
  with AssignEvent_recovers [OF assms(1-4) a] q m show ?thesis by (intro exI [of _ ?n]) (simp add: message_of_def)
qed

lemma recover_event_unwritable:
  "\<not> writable E e \<Longrightarrow> wDB (recover_event E st e w) = wDB w \<and> wOut (recover_event E st e w) = wOut w"
  by (simp add: writable_def recover_event_def recover_publish_def queue_Publish_def on_out_def Publish_def as_queued_def)

lemma recover_list_exact:
  assumes "wf_db (wDB w)" and "distinct (map eID es)"
    and "\<forall>e \<in> set es. event_row (wDB w) (eID e) = Some e \<and> eStatus e = st"
    and "IsValidTransition st StatusQueued" and "cache_ok (wOut w) dead"
  shows "wf_db (wDB (recover_list E st es dead w)) \<and> alive (wOut (recover_list E st es dead w)) = alive (wOut w) \<and>
    sent (wOut (recover_list E st es dead w)) =
      sent (wOut w) + image_mset (message_of E) (filter_mset (put_back E alive st (wOut w)) (mset es)) \<and>
    (\<forall>i. if \<exists>e \<in> set es. eID e = i \<and> put_back E alive st (wOut w) e
         then \<exists>now. event_row (wDB (recover_list E st es dead w)) i = map_option (recovered now) (event_row (wDB w) i)
         else event_row (wDB (recover_list E st es dead w)) i = event_row (wDB w) i)"
  using assms(1-3,5)
proof (induction es arbitrary: dead w)
  case (Cons e es)
  obtain rec dead' w1 where n: "needs_recovery E st e dead w = (rec, dead', w1)" by (metis surj_pair)
  note x = needs_recovery_exact [OF n Cons.prems(4)]
  have same: "put_back E alive st (wOut v) = put_back E alive st (wOut w)" if "alive (wOut v) = alive (wOut w)" for v
    using that by (simp add: put_back_def chosen_def owner_dead_def fun_eq_iff split: option.split)
  show ?case
  proof (cases "rec \<and> writable E e")
    case False
    let ?w1 = "if rec then recover_event E st e w1 else w1"
    have r: "recover_list E st (e # es) dead w = recover_list E st es dead' ?w1" using n by simp
    have no: "\<not> put_back E alive st (wOut w) e" using x False by (auto simp: put_back_def)
    have "wDB ?w1 = wDB w1 \<and> wOut ?w1 = wOut w1" using False recover_event_unwritable [of e st w1] by auto
    then have eq: "wDB ?w1 = wDB w" "alive (wOut ?w1) = alive (wOut w)" "sent (wOut ?w1) = sent (wOut w)" "cache_ok (wOut ?w1) dead'"
      using x by simp_all
    note IH = Cons.IH [of ?w1 dead', unfolded eq same [OF eq(2)]]
    show ?thesis
    proof (unfold r, intro conjI allI)
      fix i
      show "if \<exists>e' \<in> set (e # es). eID e' = i \<and> put_back E alive st (wOut w) e'
         then \<exists>now. event_row (wDB (recover_list E st es dead' ?w1)) i = map_option (recovered now) (event_row (wDB w) i)
         else event_row (wDB (recover_list E st es dead' ?w1)) i = event_row (wDB w) i"
        using IH Cons.prems eq(4) no by simp
    qed (use IH Cons.prems eq(4) no in simp_all)
  next
    case True
    let ?w2 = "recover_event E st e w1"
    have r: "recover_list E st (e # es) dead w = recover_list E st es dead' ?w2" using n True by simp
    from recover_event_exact [of w1 e st] Cons.prems assms(4) x True obtain now where
      y: "wf_db (wDB ?w2)" "alive (wOut ?w2) = alive (wOut w)" "sent (wOut ?w2) = add_mset (message_of E e) (sent (wOut w))"
        "event_row (wDB ?w2) = (event_row (wDB w))(eID e \<mapsto> recovered now e)" by auto
    have cache: "cache_ok (wOut ?w2) dead'"
      using x y(2) cache_ok_cong [of "wOut ?w2" "wOut w1"] by simp
    have others: "\<forall>e' \<in> set es. event_row (wDB ?w2) (eID e') = Some e' \<and> eStatus e' = st"
    proof
      fix e'
      assume "e' \<in> set es"
      moreover from this have "eID e' \<noteq> eID e"
        using Cons.prems(2) by (metis distinct.simps(2) image_eqI list.set_map list.simps(9))
      ultimately show "event_row (wDB ?w2) (eID e') = Some e' \<and> eStatus e' = st"
        unfolding y(4) using Cons.prems(3) by simp
    qed
    have "distinct (map eID es)" using Cons.prems(2) by simp
    note IH = Cons.IH [OF y(1) this others cache, unfolded same [OF y(2)]]
    have e: "put_back E alive st (wOut w) e" "\<forall>e' \<in> set es. eID e' \<noteq> eID e" "event_row (wDB w) (eID e) = Some e"
    proof -
      show "put_back E alive st (wOut w) e" using x True by (simp add: put_back_def)
      show "\<forall>e' \<in> set es. eID e' \<noteq> eID e"
        using Cons.prems(2) by (metis distinct.simps(2) image_eqI list.set_map list.simps(9))
      show "event_row (wDB w) (eID e) = Some e" using Cons.prems(3) by simp
    qed
    show ?thesis
    proof (unfold r, intro conjI allI)
      fix i
      show "if \<exists>e' \<in> set (e # es). eID e' = i \<and> put_back E alive st (wOut w) e'
         then \<exists>now. event_row (wDB (recover_list E st es dead' ?w2)) i = map_option (recovered now) (event_row (wDB w) i)
         else event_row (wDB (recover_list E st es dead' ?w2)) i = event_row (wDB w) i"
        using IH e y(4) by (cases "i = eID e") (auto split: if_splits)
    qed (use IH y e in simp_all)
  qed
qed simp

end

lemma stale_rows:
  assumes "wf_db d" and "mset evs = filter_mset P (mset (events d))"
  shows "distinct (map eID evs)" and "\<forall>e \<in> set evs. event_row d (eID e) = Some e \<and> P e"
proof -
  have u: "distinct (map eID (events d))" using assms(1) by (simp add: wf_db_def unique_key_def)
  have "mset evs = mset (filter P (events d))" using assms(2) by simp
  then have "mset (map eID evs) = mset (map eID (filter P (events d)))" by (metis mset_map)
  moreover have "distinct (map eID (filter P (events d)))" using u by (simp add: distinct_map_filter)
  ultimately show "distinct (map eID evs)" using mset_eq_imp_distinct_iff by blast
  have "set evs = set (filter P (events d))" using assms(2) by (metis mset_filter set_mset_mset)
  with u show "\<forall>e \<in> set evs. event_row d (eID e) = Some e \<and> P e"
    by (auto simp: event_row_def row_select_def intro: find_distinct_key)
qed

definition sweep_set :: "('m, 'r) env \<Rightarrow> ('r \<Rightarrow> string \<Rightarrow> bool) \<Rightarrow> event_status \<Rightarrow> duration \<Rightarrow> 'r world \<Rightarrow> event \<Rightarrow> bool" where
  "sweep_set E alive st age w r \<longleftrightarrow>
     eStatus r = st \<and> eUpdatedAt r < timestamptz (now_at E (wCalls w) + sint (- age)) \<and> put_back E alive st (wOut w) r"

context recovery_services
begin

lemma query_exact:
  "\<exists>evs. query_stale E st age w = (Inr evs, w\<lparr>wCalls := Suc (wCalls w)\<rparr>) \<and>
     mset evs = filter_mset (\<lambda>r. eStatus r = st \<and> eUpdatedAt r < timestamptz (now_at E (wCalls w) + sint (- age))) (mset (events (wDB w)))"
  by (simp add: query_stale_def repo_GetStaleEvents_def on_db_def calm no_faults_def GetStaleEvents_def scan)

lemma recoverEvents_exact:
  assumes "wf_db (wDB w)" and "IsValidTransition st StatusQueued"
  shows "sent (wOut (recoverEvents E st age w)) =
      sent (wOut w) + image_mset (message_of E) (filter_mset (sweep_set E alive st age w) (mset (events (wDB w))))"
    and "event_row (wDB (recoverEvents E st age w)) i = event_row (wDB w) i \<or>
      (\<exists>r now. event_row (wDB w) i = Some r \<and> event_row (wDB (recoverEvents E st age w)) i = Some (recovered now r))"
    and "event_row (wDB w) i = Some r \<Longrightarrow>
      (if sweep_set E alive st age w r then \<exists>now. event_row (wDB (recoverEvents E st age w)) i = Some (recovered now r)
       else event_row (wDB (recoverEvents E st age w)) i = Some r)"
proof -
  obtain evs where q: "query_stale E st age w = (Inr evs, w\<lparr>wCalls := Suc (wCalls w)\<rparr>)"
    "mset evs = filter_mset (\<lambda>r. eStatus r = st \<and> eUpdatedAt r < timestamptz (now_at E (wCalls w) + sint (- age))) (mset (events (wDB w)))"
    using query_exact by blast
  let ?w = "w\<lparr>wCalls := Suc (wCalls w)\<rparr>" and ?v = "recoverEvents E st age w"
  note rows = stale_rows [OF assms(1) q(2)]
  have v: "?v = recover_list E st evs Map.empty ?w" using q(1) by (simp add: recoverEvents_def)
  have x: "sent (wOut ?v) = sent (wOut w) + image_mset (message_of E) (filter_mset (put_back E alive st (wOut w)) (mset evs))"
    "\<And>i. if \<exists>e \<in> set evs. eID e = i \<and> put_back E alive st (wOut w) e
         then \<exists>now. event_row (wDB ?v) i = map_option (recovered now) (event_row (wDB w) i)
         else event_row (wDB ?v) i = event_row (wDB w) i"
  proof -
    have R: "\<forall>e \<in> set evs. event_row (wDB ?w) (eID e) = Some e \<and> eStatus e = st" using rows(2) by simp
    have W: "wf_db (wDB ?w)" "cache_ok (wOut ?w) Map.empty" using assms(1) by (simp_all add: cache_ok_def)
    note L = recover_list_exact [OF W(1) rows(1) R assms(2) W(2), folded v]
    show "sent (wOut ?v) = sent (wOut w) + image_mset (message_of E) (filter_mset (put_back E alive st (wOut w)) (mset evs))"
      using L by simp
    show "if \<exists>e \<in> set evs. eID e = i \<and> put_back E alive st (wOut w) e
         then \<exists>now. event_row (wDB ?v) i = map_option (recovered now) (event_row (wDB w) i)
         else event_row (wDB ?v) i = event_row (wDB w) i" for i
    proof -
      have "wDB ?w = wDB w" "wOut ?w = wOut w" by simp_all
      from L [THEN conjunct2, THEN conjunct2, THEN conjunct2, THEN spec, of i, unfolded this] show ?thesis .
    qed
  qed
  have "filter_mset (put_back E alive st (wOut w)) (mset evs) = filter_mset (sweep_set E alive st age w) (mset (events (wDB w)))"
    by (simp only: q(2) filter_filter_mset) (rule filter_mset_cong, auto simp: sweep_set_def)
  then show "sent (wOut ?v) = sent (wOut w) + image_mset (message_of E) (filter_mset (sweep_set E alive st age w) (mset (events (wDB w))))"
    using x(1) by simp
  show "event_row (wDB ?v) i = event_row (wDB w) i \<or>
      (\<exists>r now. event_row (wDB w) i = Some r \<and> event_row (wDB ?v) i = Some (recovered now r))"
    using x(2) [of i] by (cases "event_row (wDB w) i") (auto split: if_splits)
  assume r: "event_row (wDB w) i = Some r"
  then have mem: "r \<in> set (events (wDB w))" "eID r = i"
    by (auto simp: event_row_def row_select_def dest: find_SomeD)
  have evs: "set evs = {r \<in> set (events (wDB w)). eStatus r = st \<and> eUpdatedAt r < timestamptz (now_at E (wCalls w) + sint (- age))}"
    using arg_cong [OF q(2), of set_mset] by simp
  have "e = r" if "e \<in> set evs" "eID e = i" for e
    using rows(2) r that by auto
  with mem evs have "(\<exists>e \<in> set evs. eID e = i \<and> put_back E alive st (wOut w) e) \<longleftrightarrow> sweep_set E alive st age w r"
    unfolding sweep_set_def by blast
  with x(2) [of i] r show "if sweep_set E alive st age w r then \<exists>now. event_row (wDB ?v) i = Some (recovered now r)
       else event_row (wDB ?v) i = Some r"
    by (cases "sweep_set E alive st age w r") simp_all
qed

end

section \<open>Events without a recorded owner\<close>

lemma needs_recovery_db: "wDB (snd (snd (needs_recovery E st e dead w))) = wDB w"
  by (auto simp: needs_recovery_def Exists_heartbeat_def on_out_def Let_def case_prod_beta split: option.split sum.split)

lemma recover_event_other:
  assumes "wf_db (wDB w)"
  shows "wf_db (wDB (recover_event E st e w)) \<and>
    (i \<noteq> eID e \<longrightarrow> event_row (wDB (recover_event E st e w)) i = event_row (wDB w) i)"
proof -
  obtain r w1 where p: "recover_publish E e w = (r, w1)" by fastforce
  then have 1: "wDB w1 = wDB w"
    by (auto simp: recover_publish_def queue_Publish_def on_out_def split: prod.splits)
  obtain q d' where a: "AssignEvent (uuid_Parse E) (faults_at E (wCalls w1)) (now_at E (wCalls w1)) (eID e) '''' st
      StatusQueued (wDB w) = (q, d')" by fastforce
  have "wf_db d' \<and> (i \<noteq> eID e \<longrightarrow> event_row d' i = event_row (wDB w) i)"
    using assms a by (cases rule: AssignEvent_cases) (auto simp: row_moved_def assms)
  with p 1 a assms show ?thesis
    by (cases r) (simp_all add: recover_event_def recover_reset_def repo_AssignEvent_def on_db_def)
qed

lemma recover_list_other:
  assumes "wf_db (wDB w)" and "\<forall>e \<in> set es. eID e = i \<longrightarrow> st = StatusProcessing \<and> eWorkerID e = None"
  shows "wf_db (wDB (recover_list E st es dead w)) \<and>
    event_row (wDB (recover_list E st es dead w)) i = event_row (wDB w) i"
  using assms
proof (induction es arbitrary: dead w)
  case (Cons e es)
  obtain rec dead' w1 where n: "needs_recovery E st e dead w = (rec, dead', w1)" by (metis surj_pair)
  have 1: "wDB w1 = wDB w" using needs_recovery_db [of E st e dead w] n by simp
  have prem: "\<forall>e \<in> set es. eID e = i \<longrightarrow> st = StatusProcessing \<and> eWorkerID e = None" using Cons.prems(2) by simp
  show ?case
  proof (cases rec)
    case False
    with Cons.IH [OF _ prem, of w1 dead'] Cons.prems(1) n 1 show ?thesis by simp
  next
    case True
    have "i \<noteq> eID e" using True Cons.prems(2) n by (auto simp: needs_recovery_def)
    with recover_event_other [of w1 E st e i] Cons.prems(1) 1
    have "wf_db (wDB (recover_event E st e w1)) \<and> event_row (wDB (recover_event E st e w1)) i = event_row (wDB w) i"
      by simp
    with Cons.IH [OF _ prem, of "recover_event E st e w1" dead'] n True show ?thesis by simp
  qed
qed simp

lemma recoverEvents_orphan:
  assumes "wf_db (wDB w)" and "\<forall>n rows. mset (scan_order E n rows) = mset rows"
    and "event_row (wDB w) i = Some r" and "eStatus r = StatusProcessing" and "eWorkerID r = None"
  shows "wf_db (wDB (recoverEvents E st age w)) \<and> event_row (wDB (recoverEvents E st age w)) i = Some r"
proof -
  obtain q w1 where q: "query_stale E st age w = (q, w1)" by fastforce
  then have 1: "wDB w1 = wDB w"
    by (auto simp: query_stale_def repo_GetStaleEvents_def on_db_def split: prod.splits)
  show ?thesis
  proof (cases q)
    case (Inl err)
    with q 1 assms show ?thesis by (simp add: recoverEvents_def)
  next
    case (Inr evs)
    have "GetStaleEvents (scan_order E (wCalls w)) (faults_at E (wCalls w)) st (now_at E (wCalls w) + sint (- age)) (wDB w) = Inr evs"
      using q Inr by (simp add: query_stale_def repo_GetStaleEvents_def on_db_def)
    from GetStaleEvents_exact(2) [OF this] assms(2)
    have evs: "mset evs = filter_mset (\<lambda>r. eStatus r = st \<and> eUpdatedAt r < timestamptz (now_at E (wCalls w) + sint (- age))) (mset (events (wDB w)))"
      by blast
    note rows = stale_rows(2) [OF assms(1) evs]
    have "\<forall>e \<in> set evs. eID e = i \<longrightarrow> st = StatusProcessing \<and> eWorkerID e = None"
      using rows assms(3-5) by auto
    from recover_list_other [OF _ this, of w1 E Map.empty] q Inr 1 assms show ?thesis by (simp add: recoverEvents_def)
  qed
qed

lemma out_only_db [simp]: "wDB (out_only f w) = wDB w"
  by (simp add: out_only_def)

lemma on_out_db [simp]: "wDB (snd (on_out f w)) = wDB w"
  by (simp add: on_out_def case_prod_beta)

lemma on_out_dbD: "on_out f w = (r, w') \<Longrightarrow> wDB w' = wDB w"
  using on_out_db [of f w] by simp

lemma updateMetrics_db: "wDB (updateMetrics E w) = wDB w"
proof -
  have a: "wDB (update_active E v) = wDB v" for v
    by (auto simp: update_active_def dest: on_out_dbD split: prod.split sum.split)
  have d: "wDB (update_depth E s v) = wDB v" for s v
    by (auto simp: update_depth_def dest: on_out_dbD split: prod.split sum.split)
  have "wDB (fold (update_depth E) ss v) = wDB v" for ss v
    by (induction ss arbitrary: v) (simp_all add: d)
  then show ?thesis by (simp add: updateMetrics_def a)
qed

lemma ticks_orphan:
  assumes "wf_db (wDB w)" and "\<forall>n rows. mset (scan_order E n rows) = mset rows"
    and "event_row (wDB w) i = Some r" and "eStatus r = StatusProcessing" and "eWorkerID r = None"
  shows "wf_db (wDB ((sched_tick E ^^ n) w)) \<and> event_row (wDB ((sched_tick E ^^ n) w)) i = Some r"
proof (induction n)
  case (Suc n)
  let ?w = "(sched_tick E ^^ n) w"
  have "wf_db (wDB ?w)" "event_row (wDB ?w) i = Some r" using Suc by simp_all
  from recoverEvents_orphan [OF this(1) assms(2) this(2) assms(4,5), of StatusProcessing processing_age]
  have "wf_db (wDB (recoverEvents E StatusProcessing processing_age ?w))"
    "event_row (wDB (recoverEvents E StatusProcessing processing_age ?w)) i = Some r" by simp_all
  from recoverEvents_orphan [OF this(1) assms(2) this(2) assms(4,5), of StatusRetrying retrying_age]
  moreover have "wDB (sched_tick E v) =
      wDB (recoverEvents E StatusRetrying retrying_age (recoverEvents E StatusProcessing processing_age v))" for v
    by (simp add: sched_tick_def runSweep_def updateMetrics_db)
  ultimately show ?case by simp
qed (use assms in simp)

section \<open>The services on the concrete server\<close>

definition mem_alive :: "'m mem_redis \<Rightarrow> string \<Rightarrow> bool" where
  "mem_alive s k \<longleftrightarrow> k \<in> set (mr_keys s)"

definition mem_sent :: "'m mem_redis \<Rightarrow> (string \<times> 'm) multiset" where
  "mem_sent s = \<Sum>\<^sub># (image_mset (\<lambda>st. image_mset (Pair st) (mset (map snd (ms_entries (mr_streams s st))))) (mset AllStreams))"

lemma mem_sent_xadd:
  assumes "stream \<in> set AllStreams"
  shows "mem_sent (snd (mem_xadd stream m s)) = add_mset (stream, m) (mem_sent s)"
  using assms by (auto simp: mem_sent_def mem_xadd_def upd_stream_def AllStreams_def)

lemma mem_recovery_with:
  assumes "client E = mem_client" and "plat E = mem_platform" and "\<And>n. faults_at E n = no_faults"
    and "\<And>n rows. mset (scan_order E n rows) = mset rows"
  shows "recovery_services E mem_alive mem_sent"
proof (unfold_locales, goal_cases)
  case (1 k s res s')
  then show ?case by (auto simp: assms mem_platform_def mem_alive_def mem_sent_def)
next
  case (2 stream m s r s')
  then have "r = None" "s' = snd (mem_xadd stream m s)" by (auto simp: assms mem_client_def mem_xadd_def)
  with mem_sent_xadd [OF 2(1), of m s] show ?case by (simp add: mem_alive_def fun_eq_iff mem_xadd_def upd_stream_def)
qed (use assms in simp_all)

interpretation mem_recovery: recovery_services mem_env mem_alive mem_sent
  by (rule mem_recovery_with) (simp_all add: mem_env_def)

interpretation wire_recovery: recovery_services wire_env mem_alive mem_sent
  by (rule mem_recovery_with) (simp_all add: wire_env_def)

section \<open>Properties\<close>

text \<open>
  The single steps of the scheduler between two ticks, taken without interruption, end, and do exactly
  what the sweep over the two statuses and the update of the metrics do read from top to bottom: the same
  calls in the same order on every branch.
\<close>

lemma sched_steps_sweep:
  "\<exists>n. run_sched E n (SchedQuery StatusProcessing processing_age) w = Some (updateMetrics E (runSweep E w))"
  using finishes_sweep [of E w] by (simp add: finishes_def sched_tick_def)

text \<open>
  C11 When database and server answer, a pass of the sweep recovers exactly the rows of its status not
  written for the given age, for \<open>PROCESSING\<close> only those whose recorded owner has no heartbeat, that
  \<open>json.Marshal\<close> can write: the message of each, with status \<open>QUEUED\<close>, is added once, to the stream of its
  priority, and nothing else is. Exactly these rows become \<open>QUEUED\<close> without an owner; all other columns and
  rows stay as they are, an event that cannot be written with them. The server takes any message; nothing is
  assumed of the encoding, and the services are shown for the codec of \<open>EventCodec\<close>.
\<close>

theorem sweep_recovers_stranded:
  assumes "recovery_services E alive sent" and "wf_db (wDB w)"
    and "st = StatusProcessing \<or> st = StatusRetrying"
    and "\<forall>r. stranded r \<longleftrightarrow> eStatus r = st \<and> eUpdatedAt r < timestamptz (now_at E (wCalls w) + sint (- age)) \<and>
      (st = StatusProcessing \<longrightarrow> owner_dead E alive (wOut w) r) \<and> json_Marshal E (r\<lparr>eStatus := StatusQueued\<rparr>) \<noteq> None"
  shows "sent (wOut (recoverEvents E st age w)) =
      sent (wOut w) + image_mset (\<lambda>r. (stream_of (ePriority r), the (json_Marshal E (r\<lparr>eStatus := StatusQueued\<rparr>))))
        (filter_mset stranded (mset (events (wDB w)))) \<and>
    (\<forall>i. case event_row (wDB w) i of
       None \<Rightarrow> event_row (wDB (recoverEvents E st age w)) i = None
     | Some r \<Rightarrow>
         if stranded r
         then \<exists>now. event_row (wDB (recoverEvents E st age w)) i =
                Some (r\<lparr>eStatus := StatusQueued, eWorkerID := None, eUpdatedAt := timestamptz now\<rparr>)
         else event_row (wDB (recoverEvents E st age w)) i = Some r)"
proof -
  have v: "IsValidTransition st StatusQueued" using assms(3) by auto
  have "stranded = sweep_set E alive st age w"
    using assms(4) by (auto simp: sweep_set_def put_back_def chosen_def writable_def as_queued_def fun_eq_iff)
  then have s: "sweep_set E alive st age w = stranded" by simp
  have q: "message_of E = (\<lambda>r. (stream_of (ePriority r), the (json_Marshal E (r\<lparr>eStatus := StatusQueued\<rparr>))))"
    by (simp add: message_of_def as_queued_def fun_eq_iff)
  note x = recovery_services.recoverEvents_exact [OF assms(1,2) v, where age = age, unfolded s q recovered_def]
  show ?thesis
  proof (intro conjI allI)
    fix i
    show "case event_row (wDB w) i of
       None \<Rightarrow> event_row (wDB (recoverEvents E st age w)) i = None
     | Some r \<Rightarrow>
         if stranded r
         then \<exists>now. event_row (wDB (recoverEvents E st age w)) i =
                Some (r\<lparr>eStatus := StatusQueued, eWorkerID := None, eUpdatedAt := timestamptz now\<rparr>)
         else event_row (wDB (recoverEvents E st age w)) i = Some r"
      using x(2) [where i = i] x(3) [where i = i] by (cases "event_row (wDB w) i") auto
  qed (rule x(1))
qed

definition orphan_world :: "uuid option \<Rightarrow> 'm mem_redis world" where
  "orphan_world u =
     \<lparr>wDB = empty_db\<lparr>events := [(sample_event StatusProcessing)\<lparr>eWorkerID := u\<rparr>]\<rparr>, wOut = mem_empty, wCalls = 0\<rparr>"

lemma orphan_world_row:
  "wf_db (wDB (orphan_world u))"
  "event_row (wDB (orphan_world u)) i = (if i = 7 then Some ((sample_event StatusProcessing)\<lparr>eWorkerID := u\<rparr>) else None)"
  by (simp_all add: orphan_world_def empty_db_def wf_db_def unique_key_def event_row_def row_select_def sample_event_def)

lemma orphan_writable: "json_Marshal wire_env ((sample_event StatusProcessing)\<lparr>eWorkerID := u, eStatus := st\<rparr>) \<noteq> None"
proof -
  have "json_Valid ''{}''" by (simp add: json_Valid_def scan_eof_def scan_unfold)
  moreover have "time_text (\<lambda>_. 7200) 100000 \<noteq> None" by (simp add: early_time)
  ultimately have "encode_event canonical_text (\<lambda>_. 7200) ((sample_event StatusProcessing)\<lparr>eWorkerID := u, eStatus := st\<rparr>) \<noteq> None"
    unfolding encode_event_succeeds by (simp add: sample_event_def)
  then show ?thesis by (simp add: wire_env_def)
qed

theorem sweep_recovers_stranded_witness:
  "\<exists>now m. event_row (wDB (recoverEvents wire_env StatusProcessing 0 (orphan_world (Some 9)))) 7 =
     Some ((sample_event StatusProcessing)\<lparr>eStatus := StatusQueued, eWorkerID := None, eUpdatedAt := timestamptz now\<rparr>) \<and>
     encode_event canonical_text (\<lambda>_. 7200) ((sample_event StatusQueued)\<lparr>eWorkerID := Some 9\<rparr>) = Some m \<and>
     mem_sent (wOut (recoverEvents wire_env StatusProcessing 0 (orphan_world (Some 9)))) = {#(StreamNormal, m)#}"
proof -
  let ?w = "orphan_world (Some 9) :: bytes mem_redis world" and ?r = "(sample_event StatusProcessing)\<lparr>eWorkerID := Some 9\<rparr>"
  define P where "P = (\<lambda>r :: event. eStatus r = StatusProcessing \<and>
      eUpdatedAt r < timestamptz (now_at wire_env (wCalls ?w) + sint (- 0 :: duration)) \<and>
      (StatusProcessing = StatusProcessing \<longrightarrow> owner_dead wire_env mem_alive (wOut ?w) r) \<and>
      json_Marshal wire_env (r\<lparr>eStatus := StatusQueued\<rparr>) \<noteq> None)"
  have P: "P ?r"
    using orphan_writable [of StatusQueued "Some 9"]
    by (simp add: P_def orphan_world_def wire_env_def owner_dead_def mem_alive_def mem_empty_def sample_event_def)
  have d: "\<forall>r. P r \<longleftrightarrow> eStatus r = StatusProcessing \<and>
      eUpdatedAt r < timestamptz (now_at wire_env (wCalls ?w) + sint (- 0 :: duration)) \<and>
      (StatusProcessing = StatusProcessing \<longrightarrow> owner_dead wire_env mem_alive (wOut ?w) r) \<and>
      json_Marshal wire_env (r\<lparr>eStatus := StatusQueued\<rparr>) \<noteq> None"
    unfolding P_def by (rule allI) (rule refl)
  note y = sweep_recovers_stranded [OF wire_recovery.recovery_services_axioms orphan_world_row(1) disjI1 [OF refl] d]
  have rows: "events (wDB ?w) = [?r]" "mem_sent (wOut ?w) = {#}"
    by (simp_all add: orphan_world_def empty_db_def mem_sent_def mem_empty_def AllStreams_def)
  have r: "event_row (wDB ?w) 7 = Some ?r" by (simp add: orphan_world_row)
  have stranded: "filter_mset P (mset (events (wDB ?w))) = {#?r#}" by (simp add: rows(1) P)
  have x: "mem_sent (wOut (recoverEvents wire_env StatusProcessing 0 ?w)) =
      {#(stream_of (ePriority ?r), the (json_Marshal wire_env (?r\<lparr>eStatus := StatusQueued\<rparr>)))#}"
    "\<exists>now. event_row (wDB (recoverEvents wire_env StatusProcessing 0 ?w)) 7 =
       Some (?r\<lparr>eStatus := StatusQueued, eWorkerID := None, eUpdatedAt := timestamptz now\<rparr>)"
    using y [THEN conjunct1] y [THEN conjunct2, THEN spec, of 7] stranded rows(2) P r
    by simp_all
  obtain m where m: "json_Marshal wire_env (?r\<lparr>eStatus := StatusQueued\<rparr>) = Some m"
    using orphan_writable [of StatusQueued "Some 9"] by auto
  have "mem_sent (wOut (recoverEvents wire_env StatusProcessing 0 ?w)) = {#(StreamNormal, m)#}"
    using x(1) m by (simp add: sample_event_def stream_of_def priority_defs)
  moreover have "\<exists>now. event_row (wDB (recoverEvents wire_env StatusProcessing 0 ?w)) 7 =
     Some ((sample_event StatusProcessing)\<lparr>eStatus := StatusQueued, eWorkerID := None, eUpdatedAt := timestamptz now\<rparr>)"
    using x(2) by simp
  ultimately show ?thesis using m by (auto simp: wire_env_def sample_event_def)
qed

text \<open>
  C25 An event claimed by a worker whose name is not the text of a UUID, as the names the pool gives are
  not, is never put back when that worker dies: no number of sweeps changes its row, whatever the server
  answers and however old the row is.
\<close>

theorem orphan_never_recovered:
  assumes "wf_db (wDB w)" and "\<forall>n rows. mset (scan_order E n rows) = mset rows"
    and "uuid_Parse E wid = None"
    and "AssignEvent (uuid_Parse E) flt now i wid StatusQueued StatusProcessing (wDB w) = (None, d)"
  shows "\<exists>r. eStatus r = StatusProcessing \<and> eWorkerID r = None \<and>
    (\<forall>n. event_row (wDB ((sched_tick E ^^ n) (w\<lparr>wDB := d\<rparr>))) i = Some r)"
  using assms(1,4)
proof (cases rule: AssignEvent_cases)
  case (moved row)
  let ?r = "assigned_row now (parsed_worker (uuid_Parse E) wid) StatusProcessing row"
  have "wf_db d" "event_row d i = Some ?r" using moved by (simp_all add: row_moved_def)
  moreover have r: "eStatus ?r = StatusProcessing" "eWorkerID ?r = None"
    using assms(3) by (simp_all add: assigned_row_def parsed_worker_def)
  ultimately have "event_row (wDB ((sched_tick E ^^ n) (w\<lparr>wDB := d\<rparr>))) i = Some ?r" for n
    using ticks_orphan [OF _ assms(2) _ r, of "w\<lparr>wDB := d\<rparr>" i n] by simp
  with r show ?thesis by blast
qed simp

theorem orphan_never_recovered_witness:
  "\<exists>r. eStatus r = StatusProcessing \<and> eWorkerID r = None \<and>
    (\<forall>n. event_row (wDB ((sched_tick mem_env ^^ n)
       (stale_world\<lparr>wDB := snd (AssignEvent (\<lambda>_. None) no_faults 5 7 ''worker-1'' StatusQueued StatusProcessing
          (sample_db StatusQueued))\<rparr>))) 7 = Some r)"
proof -
  obtain r d where a: "AssignEvent (\<lambda>_. None) no_faults 5 7 ''worker-1'' StatusQueued StatusProcessing
      (sample_db StatusQueued) = (r, d)" by fastforce
  have "r = None" using a by (auto simp: AssignEvent_normal locked_event_def no_faults_def apply_outcome_def)
  with orphan_never_recovered [of "stale_world\<lparr>wDB := sample_db StatusQueued\<rparr>" mem_env "''worker-1''" no_faults 5 7 d] a
  show ?thesis by (simp add: mem_env_def)
qed

end
