(* ===== verification/Hub.thy ===== *)
theory Hub
  imports Prelude "HOL-Library.Multiset"
begin

text \<open>
  \<open>internal/websocket\<close>: the hub of the dashboards and the two goroutines of every client. A select branch
  of \<open>Hub.Run\<close>, a turn of \<open>ReadPump\<close> and a turn of \<open>WritePump\<close> are single steps, taken in any order. A
  panic of the code (a send on a closed channel, a second close) is the value \<open>None\<close>.
\<close>

section \<open>Clients\<close>

datatype read_pc = ReadLoop | ReadLeave | ReadGone

datatype write_pc = WriteLoop | WriteGone

datatype frame = TextFrame bytes | CloseFrame | PingFrame

text \<open>
  \<open>sendBuf\<close> and \<open>sendClosed\<close> are the channel \<open>send\<close>; \<open>frames\<close> is what was written to the connection;
  \<open>accepted\<close> is a history of what the hub has put into the channel.
\<close>

record ws_client =
  sendBuf :: "bytes list"
  sendClosed :: bool
  connOpen :: bool
  reader :: read_pc
  writer :: write_pc
  frames :: "frame list"
  accepted :: "bytes list"

definition sendCap :: nat where
  "sendCap = 256"

definition NewClient :: ws_client where
  "NewClient =
     \<lparr>sendBuf = [], sendClosed = False, connOpen = True, reader = ReadLoop, writer = WriteLoop, frames = [],
      accepted = []\<rparr>"

section \<open>The hub\<close>

text \<open>\<open>clients\<close> is the set of keys of the code's map, \<open>peers\<close> every client that was ever made.\<close>

record hub =
  clients :: "nat list"
  peers :: "nat \<rightharpoonup> ws_client"
  hub_done :: bool
  gauge :: int

definition NewHub :: hub where
  "NewHub = \<lparr>clients = [], peers = Map.empty, hub_done = False, gauge = 0\<rparr>"

definition set_gauge :: "hub \<Rightarrow> hub" where
  "set_gauge h = h\<lparr>gauge := int (length (clients h))\<rparr>"

definition map_peer :: "nat \<Rightarrow> (ws_client \<Rightarrow> ws_client) \<Rightarrow> hub \<Rightarrow> hub" where
  "map_peer c f h = h\<lparr>peers := (peers h)(c := map_option f (peers h c))\<rparr>"

definition close_send :: "nat \<Rightarrow> hub \<Rightarrow> hub option" where
  "close_send c h =
     (case peers h c of
        None \<Rightarrow> None
      | Some cl \<Rightarrow> if sendClosed cl then None else Some (map_peer c (\<lambda>cl. cl\<lparr>sendClosed := True\<rparr>) h))"

definition hub_register :: "nat \<Rightarrow> hub \<Rightarrow> hub" where
  "hub_register c h = set_gauge (h\<lparr>clients := List.insert c (clients h)\<rparr>)"

definition hub_remove :: "nat \<Rightarrow> hub \<Rightarrow> hub option" where
  "hub_remove c h = map_option set_gauge (close_send c (h\<lparr>clients := removeAll c (clients h)\<rparr>))"

definition hub_unregister :: "nat \<Rightarrow> hub \<Rightarrow> hub option" where
  "hub_unregister c h = (if c \<in> set (clients h) then hub_remove c h else Some h)"

text \<open>The inner \<open>select\<close> for one client: a full channel means a slow client, which is dropped.\<close>

definition hub_send :: "bytes \<Rightarrow> nat \<Rightarrow> hub \<Rightarrow> hub option" where
  "hub_send msg c h =
     (case peers h c of
        None \<Rightarrow> None
      | Some cl \<Rightarrow>
          if sendClosed cl then None
          else if length (sendBuf cl) < sendCap
          then Some (map_peer c (\<lambda>cl. cl\<lparr>sendBuf := sendBuf cl @ [msg], accepted := accepted cl @ [msg]\<rparr>) h)
          else hub_remove c h)"

fun hub_broadcast :: "bytes \<Rightarrow> nat list \<Rightarrow> hub \<Rightarrow> hub option" where
  "hub_broadcast msg [] h = Some h"
| "hub_broadcast msg (c # cs) h =
     (case hub_send msg c h of None \<Rightarrow> None | Some h' \<Rightarrow> hub_broadcast msg cs h')"

fun hub_close_all :: "nat list \<Rightarrow> hub \<Rightarrow> hub option" where
  "hub_close_all [] h = Some h"
| "hub_close_all (c # cs) h =
     (case close_send c h of
        None \<Rightarrow> None
      | Some h' \<Rightarrow> hub_close_all cs (h'\<lparr>clients := removeAll c (clients h')\<rparr>))"

section \<open>The pumps\<close>

text \<open>A frame holds one message or, when more were waiting, several with newlines between.\<close>

fun join_lines :: "bytes list \<Rightarrow> bytes" where
  "join_lines [] = []"
| "join_lines [m] = m"
| "join_lines (m # ms) = m @ CHR 0x0A # join_lines ms"

definition leave_write :: "ws_client \<Rightarrow> ws_client" where
  "leave_write cl = cl\<lparr>writer := WriteGone, connOpen := False\<rparr>"

text \<open>
  A turn of \<open>WritePump\<close> on its channel. \<open>next_ok\<close> and \<open>close_ok\<close> say whether \<open>NextWriter\<close> and \<open>w.Close\<close>
  succeed; a closed connection makes them fail.
\<close>

definition write_turn :: "bool \<Rightarrow> bool \<Rightarrow> ws_client \<Rightarrow> ws_client" where
  "write_turn next_ok close_ok cl =
     (if writer cl \<noteq> WriteLoop then cl
      else case sendBuf cl of
        message # queued \<Rightarrow>
          if \<not> (next_ok \<and> connOpen cl) then leave_write (cl\<lparr>sendBuf := queued\<rparr>)
          else if close_ok
          then cl\<lparr>sendBuf := [], frames := frames cl @ [TextFrame (join_lines (message # queued))]\<rparr>
          else leave_write (cl\<lparr>sendBuf := []\<rparr>)
      | [] \<Rightarrow>
          if sendClosed cl then leave_write (cl\<lparr>frames := frames cl @ [CloseFrame]\<rparr>) else cl)"

definition ping_turn :: "bool \<Rightarrow> ws_client \<Rightarrow> ws_client" where
  "ping_turn ok cl =
     (if writer cl \<noteq> WriteLoop then cl
      else if ok \<and> connOpen cl then cl\<lparr>frames := frames cl @ [PingFrame]\<rparr>
      else leave_write cl)"

text \<open>A turn of \<open>ReadPump\<close>: the messages of the peer are dropped, an error ends the loop.\<close>

definition read_turn :: "bool \<Rightarrow> ws_client \<Rightarrow> ws_client" where
  "read_turn ok cl =
     (if reader cl \<noteq> ReadLoop then cl
      else if ok \<and> connOpen cl then cl
      else cl\<lparr>reader := ReadLeave\<rparr>)"

section \<open>Steps\<close>

text \<open>\<open>api/handler.go\<close>: a request that cannot be upgraded to a websocket never becomes a client.\<close>

definition ServeWs :: "bool \<Rightarrow> nat \<Rightarrow> hub \<Rightarrow> hub" where
  "ServeWs upgraded c h = (if \<not> upgraded then h else hub_register c (h\<lparr>peers := (peers h)(c \<mapsto> NewClient)\<rparr>))"

datatype ws_act =
    WsServe nat bool
  | WsBroadcast bytes "nat list"
  | WsUnregister nat
  | WsDone
  | WsRead nat bool
  | WsWrite nat bool bool
  | WsPing nat bool

text \<open>
  \<open>ServeWs\<close> makes a client and hands it to the hub before its pumps run; the deferred call of \<open>ReadPump\<close>
  hands it back and closes the connection. A hub that has returned takes nothing any more, so both wait
  forever. \<open>WsBroadcast\<close> carries the order in which the map is iterated; a step that is not enabled does
  nothing.
\<close>

fun ws_step :: "ws_act \<Rightarrow> hub \<Rightarrow> hub option" where
  "ws_step (WsServe c upgraded) h = Some (if hub_done h \<or> peers h c \<noteq> None then h else ServeWs upgraded c h)"
| "ws_step (WsBroadcast msg order) h =
     (if hub_done h \<or> mset order \<noteq> mset (clients h) then Some h else hub_broadcast msg order h)"
| "ws_step (WsUnregister c) h =
     (if hub_done h \<or> map_option reader (peers h c) \<noteq> Some ReadLeave then Some h
      else map_option (map_peer c (\<lambda>cl. cl\<lparr>reader := ReadGone, connOpen := False\<rparr>)) (hub_unregister c h))"
| "ws_step WsDone h =
     (if hub_done h then Some h
      else map_option (\<lambda>h. h\<lparr>hub_done := True\<rparr>) (hub_close_all (clients h) h))"
| "ws_step (WsRead c ok) h = Some (map_peer c (read_turn ok) h)"
| "ws_step (WsWrite c next_ok close_ok) h = Some (map_peer c (write_turn next_ok close_ok) h)"
| "ws_step (WsPing c ok) h = Some (map_peer c (ping_turn ok) h)"

fun run_ws :: "ws_act list \<Rightarrow> hub \<Rightarrow> hub option" where
  "run_ws [] h = Some h"
| "run_ws (a # as) h = (case ws_step a h of None \<Rightarrow> None | Some h' \<Rightarrow> run_ws as h')"

end
