(* ===== verification/HubProps.thy ===== *)
theory HubProps
  imports Hub
begin

text \<open>
  The hub never panics and never waits for a client; a client that stays connected gets every broadcast
  in order, however they are batched into frames.
\<close>

section \<open>Batches\<close>

fun split_lines :: "bytes \<Rightarrow> bytes list" where
  "split_lines [] = [[]]"
| "split_lines (x # xs) =
     (if x = CHR 0x0A then [] # split_lines xs
      else case split_lines xs of [] \<Rightarrow> [[x]] | l # ls \<Rightarrow> (x # l) # ls)"

definition one_line :: "bytes \<Rightarrow> bool" where
  "one_line m \<longleftrightarrow> CHR 0x0A \<notin> set m"

lemma split_lines_nonempty [simp]: "split_lines xs \<noteq> []"
  by (induction xs) (auto split: list.split)

lemma split_one_line: "one_line m \<Longrightarrow> split_lines m = [m]"
  by (induction m) (auto simp: one_line_def)

lemma split_first_line: "one_line m \<Longrightarrow> split_lines (m @ CHR 0x0A # xs) = m # split_lines xs"
  by (induction m) (auto simp: one_line_def)

lemma split_join_lines: "ms \<noteq> [] \<Longrightarrow> list_all one_line ms \<Longrightarrow> split_lines (join_lines ms) = ms"
  by (induction ms rule: join_lines.induct) (auto simp: split_one_line split_first_line)

fun frame_messages :: "frame \<Rightarrow> bytes list" where
  "frame_messages (TextFrame b) = split_lines b"
| "frame_messages _ = []"

definition delivered :: "ws_client \<Rightarrow> bytes list" where
  "delivered cl = concat (map frame_messages (frames cl))"

section \<open>The state of a client\<close>

text \<open>
  What has been delivered and what waits is what was accepted, in order, as long as the pump writes; a
  pump that failed may have lost its last batch, and delivers nothing more.
\<close>

definition client_ok :: "ws_client \<Rightarrow> bool" where
  "client_ok cl \<longleftrightarrow> length (sendBuf cl) \<le> sendCap \<and>
     (list_all one_line (accepted cl) \<longrightarrow>
       (\<exists>lost. accepted cl = delivered cl @ lost @ sendBuf cl \<and> (writer cl = WriteLoop \<longrightarrow> lost = [])))"

lemma client_ok_new: "client_ok NewClient"
  by (simp add: client_ok_def NewClient_def delivered_def)

lemma client_ok_write:
  assumes "client_ok cl"
  shows "client_ok (write_turn next_ok close_ok cl)"
proof (cases "list_all one_line (accepted cl)")
  case False
  with assms show ?thesis
    by (auto simp: client_ok_def write_turn_def leave_write_def split: list.split)
next
  case True
  with assms obtain lost where a: "length (sendBuf cl) \<le> sendCap" "list_all one_line (accepted cl)"
    "accepted cl = delivered cl @ lost @ sendBuf cl" "writer cl = WriteLoop \<longrightarrow> lost = []"
    by (auto simp: client_ok_def)
  show ?thesis
  proof (cases "writer cl")
    case WriteGone
    with assms show ?thesis by (simp add: write_turn_def)
  next
    case WriteLoop
    then have l: "lost = []" using a(4) by simp
    show ?thesis
    proof (cases "sendBuf cl")
      case Nil
      with WriteLoop a l show ?thesis
        by (auto simp: client_ok_def write_turn_def leave_write_def delivered_def)
    next
      case (Cons message queued)
      have "split_lines (join_lines (message # queued)) = message # queued"
        using a(2,3) Cons by (intro split_join_lines) simp_all
      with WriteLoop Cons a l show ?thesis
        by (auto simp: client_ok_def write_turn_def leave_write_def delivered_def)
    qed
  qed
qed

lemma client_ok_ping: "client_ok cl \<Longrightarrow> client_ok (ping_turn ok cl)"
  by (auto simp: client_ok_def ping_turn_def leave_write_def delivered_def)

lemma client_ok_read: "client_ok cl \<Longrightarrow> client_ok (read_turn ok cl)"
  by (auto simp: client_ok_def read_turn_def delivered_def)

lemma client_ok_accept:
  "client_ok cl \<Longrightarrow> length (sendBuf cl) < sendCap \<Longrightarrow>
   client_ok (cl\<lparr>sendBuf := sendBuf cl @ [msg], accepted := accepted cl @ [msg]\<rparr>)"
  by (auto simp: client_ok_def delivered_def)

lemma client_ok_fields [simp]:
  "client_ok (cl\<lparr>sendClosed := b\<rparr>) = client_ok cl" "client_ok (cl\<lparr>reader := r, connOpen := x\<rparr>) = client_ok cl"
  by (simp_all add: client_ok_def delivered_def)

lemma turn_closed [simp]:
  "sendClosed (write_turn next_ok close_ok cl) = sendClosed cl" "sendClosed (ping_turn ok cl) = sendClosed cl"
  "sendClosed (read_turn ok cl) = sendClosed cl"
  by (simp_all add: write_turn_def ping_turn_def read_turn_def leave_write_def split: list.split)

section \<open>The state of the hub\<close>

text \<open>
  A client's channel is open exactly as long as the client is in the map; the gauge counts the map until
  the hub is done.
\<close>

definition hub_ok :: "hub \<Rightarrow> bool" where
  "hub_ok h \<longleftrightarrow> distinct (clients h) \<and> (\<not> hub_done h \<longrightarrow> gauge h = int (length (clients h))) \<and>
     (hub_done h \<longrightarrow> clients h = []) \<and>
     (\<forall>c \<in> set (clients h). peers h c \<noteq> None) \<and>
     (\<forall>c cl. peers h c = Some cl \<longrightarrow> client_ok cl \<and> (sendClosed cl \<longleftrightarrow> c \<notin> set (clients h)))"

lemma hub_ok_new: "hub_ok NewHub"
  by (simp add: hub_ok_def NewHub_def)

lemma hub_okD:
  assumes "hub_ok h" and "c \<in> set (clients h)"
  obtains cl where "peers h c = Some cl" "client_ok cl" "\<not> sendClosed cl"
  using assms by (auto simp: hub_ok_def)

lemma hub_ok_peer:
  assumes "hub_ok h" and "\<And>cl. client_ok cl \<Longrightarrow> client_ok (f cl) \<and> sendClosed (f cl) = sendClosed cl"
  shows "hub_ok (map_peer c f h)"
  using assms by (auto simp: hub_ok_def map_peer_def split: if_splits)

lemma hub_ok_serve:
  assumes "hub_ok h" and "peers h c = None" and "\<not> hub_done h"
  shows "hub_ok (hub_register c (h\<lparr>peers := (peers h)(c \<mapsto> NewClient)\<rparr>))"
proof -
  have "c \<notin> set (clients h)" using assms(1,2) by (auto simp: hub_ok_def)
  with assms show ?thesis
    by (auto simp: hub_ok_def hub_register_def set_gauge_def client_ok_new, auto simp: NewClient_def)
qed

text \<open>Removing a client of the map closes its channel once and touches no other client.\<close>

lemma hub_remove_ok:
  assumes "hub_ok h" and "c \<in> set (clients h)" and "\<not> hub_done h"
  obtains h' where "hub_remove c h = Some h'" "hub_ok h'" "hub_done h' = hub_done h"
    "clients h' = removeAll c (clients h)"
    "peers h' = (peers h)(c := map_option (\<lambda>cl. cl\<lparr>sendClosed := True\<rparr>) (peers h c))"
proof -
  obtain cl where cl: "peers h c = Some cl" "client_ok cl" "\<not> sendClosed cl" using hub_okD [OF assms(1,2)] .
  let ?h = "set_gauge (map_peer c (\<lambda>cl. cl\<lparr>sendClosed := True\<rparr>) (h\<lparr>clients := removeAll c (clients h)\<rparr>))"
  have "hub_remove c h = Some ?h" using cl by (simp add: hub_remove_def close_send_def)
  moreover have "hub_ok ?h"
    using assms cl by (auto simp: hub_ok_def set_gauge_def map_peer_def distinct_removeAll)
  ultimately show thesis by (intro that [of ?h]) (simp_all add: set_gauge_def map_peer_def)
qed

text \<open>One client of a broadcast.\<close>

definition offered :: "bytes \<Rightarrow> ws_client \<Rightarrow> ws_client" where
  "offered msg cl =
     (if length (sendBuf cl) < sendCap then cl\<lparr>sendBuf := sendBuf cl @ [msg], accepted := accepted cl @ [msg]\<rparr>
      else cl\<lparr>sendClosed := True\<rparr>)"

lemma hub_send_ok:
  assumes "hub_ok h" and "c \<in> set (clients h)" and "\<not> hub_done h"
  obtains h' where "hub_send msg c h = Some h'" "hub_ok h'" "hub_done h' = hub_done h"
    "set (clients h') \<union> {c} = set (clients h)" "peers h' = (peers h)(c := map_option (offered msg) (peers h c))"
proof -
  obtain cl where cl: "peers h c = Some cl" "client_ok cl" "\<not> sendClosed cl" using hub_okD [OF assms(1,2)] .
  show thesis
  proof (cases "length (sendBuf cl) < sendCap")
    case True
    let ?h = "map_peer c (\<lambda>cl. cl\<lparr>sendBuf := sendBuf cl @ [msg], accepted := accepted cl @ [msg]\<rparr>) h"
    have "hub_send msg c h = Some ?h" using cl True by (simp add: hub_send_def)
    moreover have "hub_ok ?h"
      using assms cl client_ok_accept [OF cl(2) True] by (auto simp: hub_ok_def map_peer_def)
    ultimately show thesis
      using assms(2) cl(1) True by (intro that [of ?h]) (auto simp: map_peer_def offered_def)
  next
    case False
    from hub_remove_ok [OF assms(1-3)] obtain h' where h':
      "hub_remove c h = Some h'" "hub_ok h'" "hub_done h' = hub_done h" "clients h' = removeAll c (clients h)"
      "peers h' = (peers h)(c := map_option (\<lambda>cl. cl\<lparr>sendClosed := True\<rparr>) (peers h c))" .
    then show thesis
      using assms(2) cl False by (intro that [of h']) (auto simp: hub_send_def offered_def)
  qed
qed

lemma hub_broadcast_ok:
  assumes "hub_ok h" and "set order \<subseteq> set (clients h)" and "distinct order" and "\<not> hub_done h"
  shows "\<exists>h'. hub_broadcast msg order h = Some h' \<and> hub_ok h' \<and> \<not> hub_done h' \<and>
    peers h' = (\<lambda>c. if c \<in> set order then map_option (offered msg) (peers h c) else peers h c)"
  using assms
proof (induction order arbitrary: h)
  case (Cons c cs)
  have c: "c \<in> set (clients h)" using Cons.prems(2) by simp
  from hub_send_ok [OF Cons.prems(1) c Cons.prems(4)] obtain h1 where h1:
    "hub_send msg c h = Some h1" "hub_ok h1" "hub_done h1 = hub_done h" "set (clients h1) \<union> {c} = set (clients h)"
    "peers h1 = (peers h)(c := map_option (offered msg) (peers h c))" .
  have "set cs \<subseteq> set (clients h1)" using h1(4) Cons.prems(2,3) by auto
  with Cons.IH [OF h1(2)] Cons.prems(3,4) h1(3) obtain h' where
    "hub_broadcast msg cs h1 = Some h' \<and> hub_ok h' \<and> \<not> hub_done h' \<and>
     peers h' = (\<lambda>c. if c \<in> set cs then map_option (offered msg) (peers h1 c) else peers h1 c)" by auto
  with h1(1,5) Cons.prems(3) show ?case by (intro exI [of _ h']) (auto simp: fun_eq_iff)
qed simp

text \<open>The end of \<open>Hub.Run\<close>, which leaves the gauge as it is.\<close>

definition hub_core :: "hub \<Rightarrow> bool" where
  "hub_core h \<longleftrightarrow> (\<forall>c \<in> set (clients h). peers h c \<noteq> None) \<and>
     (\<forall>c cl. peers h c = Some cl \<longrightarrow> client_ok cl \<and> (sendClosed cl \<longleftrightarrow> c \<notin> set (clients h)))"

lemma hub_close_all_ok:
  assumes "hub_core h" and "distinct order" and "set order = set (clients h)"
  shows "\<exists>h'. hub_close_all order h = Some h' \<and> hub_core h' \<and> clients h' = []"
  using assms
proof (induction order arbitrary: h)
  case (Cons c cs)
  have "c \<in> set (clients h)" using Cons.prems(3) by auto
  with Cons.prems(1) obtain cl where cl: "peers h c = Some cl" "\<not> sendClosed cl" by (auto simp: hub_core_def)
  let ?h = "(map_peer c (\<lambda>cl. cl\<lparr>sendClosed := True\<rparr>) h)\<lparr>clients := removeAll c (clients h)\<rparr>"
  have "hub_core ?h" using Cons.prems(1) cl by (auto simp: hub_core_def map_peer_def)
  moreover have "set cs = set (clients ?h)" using Cons.prems(2,3) by auto
  ultimately obtain h' where "hub_close_all cs ?h = Some h' \<and> hub_core h' \<and> clients h' = []"
    using Cons.IH [of ?h] Cons.prems(2) by auto
  with cl show ?case by (auto simp: close_send_def map_peer_def)
qed simp

lemma ws_step_ok:
  assumes "hub_ok h"
  shows "\<exists>h'. ws_step a h = Some h' \<and> hub_ok h'"
proof (cases a)
  case (WsServe c upgraded)
  with assms hub_ok_serve [OF assms, of c] show ?thesis by (auto simp: ServeWs_def)
next
  case (WsBroadcast msg order)
  show ?thesis
  proof (cases "hub_done h \<or> mset order \<noteq> mset (clients h)")
    case True
    with assms WsBroadcast show ?thesis by auto
  next
    case False
    then have "set order = set (clients h)" by (metis set_mset_mset)
    moreover have "distinct order" using False assms by (metis hub_ok_def mset_eq_imp_distinct_iff)
    ultimately show ?thesis using hub_broadcast_ok [OF assms, of order msg] False WsBroadcast by auto
  qed
next
  case (WsUnregister c)
  have reader: "hub_ok (map_peer c (\<lambda>cl. cl\<lparr>reader := ReadGone, connOpen := False\<rparr>) g)" if "hub_ok g" for g
    by (rule hub_ok_peer [OF that]) simp
  show ?thesis
  proof (cases "c \<in> set (clients h) \<and> \<not> hub_done h")
    case True
    from hub_remove_ok [OF assms, of c] True obtain h' where "hub_remove c h = Some h'" "hub_ok h'" by blast
    with True WsUnregister reader [of h'] assms show ?thesis by (simp add: hub_unregister_def)
  next
    case False
    with WsUnregister reader [OF assms] assms show ?thesis by (auto simp: hub_unregister_def)
  qed
next
  case WsDone
  have "hub_core h" "distinct (clients h)" using assms by (auto simp: hub_core_def hub_ok_def)
  from hub_close_all_ok [OF this refl] obtain h' where "hub_close_all (clients h) h = Some h'" "hub_core h'" "clients h' = []"
    by blast
  with WsDone assms show ?thesis by (auto simp: hub_ok_def hub_core_def)
next
  case (WsRead c ok)
  with hub_ok_peer [OF assms, of "read_turn ok" c] show ?thesis by (simp add: client_ok_read)
next
  case (WsWrite c next_ok close_ok)
  with hub_ok_peer [OF assms, of "write_turn next_ok close_ok" c] show ?thesis by (simp add: client_ok_write)
next
  case (WsPing c ok)
  with hub_ok_peer [OF assms, of "ping_turn ok" c] show ?thesis by (simp add: client_ok_ping)
qed

lemma run_ws_ok: "hub_ok h \<Longrightarrow> \<exists>h'. run_ws as h = Some h' \<and> hub_ok h'"
proof (induction as arbitrary: h)
  case (Cons a as)
  from ws_step_ok [OF Cons.prems, of a] obtain h1 where "ws_step a h = Some h1" "hub_ok h1" by blast
  with Cons.IH show ?case by auto
qed simp

section \<open>Properties\<close>

text \<open>
  C29 However registrations, broadcasts, disconnects, the two goroutines of every client and the end of the
  hub interleave, the hub never panics: it never sends on a closed channel and closes none twice. No
  channel ever holds more than 256 messages, a client's channel is open exactly while the client is
  registered, and the gauge of connections counts the registered clients while the hub runs.
\<close>

theorem hub_never_panics:
  "\<exists>h. run_ws as NewHub = Some h \<and>
     (\<forall>c cl. peers h c = Some cl \<longrightarrow> length (sendBuf cl) \<le> 256 \<and> (sendClosed cl \<longleftrightarrow> c \<notin> set (clients h))) \<and>
     (if hub_done h then clients h = [] else gauge h = int (length (clients h)))"
proof -
  from run_ws_ok [OF hub_ok_new, of as] obtain h where "run_ws as NewHub = Some h" "hub_ok h" by blast
  then show ?thesis by (intro exI [of _ h]) (auto simp: hub_ok_def client_ok_def sendCap_def)
qed

theorem hub_never_panics_witness:
  "\<exists>h. run_ws [WsServe 1 True, WsServe 2 True, WsBroadcast ''a'' [1, 2], WsRead 1 False, WsUnregister 1, WsUnregister 1, WsDone]
     NewHub = Some h \<and> (\<forall>cl. peers h 2 = Some cl \<longrightarrow> length (sendBuf cl) \<le> 256)"
  using hub_never_panics [of "[WsServe 1 True, WsServe 2 True, WsBroadcast ''a'' [1, 2], WsRead 1 False, WsUnregister 1, WsUnregister 1, WsDone]"]
  by blast

text \<open>
  C30 What a dashboard finds when it splits the frames it was sent at their newlines, followed by what waits
  in its channel, is exactly what the hub accepted for it, in order and without loss or repetition, while
  its write pump runs; a pump that failed has lost nothing but what it took last. A broadcast adds its
  message for every registered client with room, and disconnects every one without, whatever the order in
  which the map is iterated.
\<close>

theorem dashboard_delivery:
  assumes "run_ws as NewHub = Some h" and "peers h c = Some cl" and "\<forall>m \<in> set (accepted cl). CHR 0x0A \<notin> set m"
  shows "(\<exists>lost. accepted cl = concat (map frame_messages (frames cl)) @ lost @ sendBuf cl \<and>
      (writer cl = WriteLoop \<longrightarrow> lost = [])) \<and>
    (\<not> hub_done h \<and> mset order = mset (clients h) \<longrightarrow>
      (\<exists>h'. ws_step (WsBroadcast msg order) h = Some h' \<and>
         peers h' c = Some (if c \<notin> set (clients h) then cl
           else if length (sendBuf cl) < 256 then cl\<lparr>sendBuf := sendBuf cl @ [msg], accepted := accepted cl @ [msg]\<rparr>
           else cl\<lparr>sendClosed := True\<rparr>)))"
proof -
  have ok: "hub_ok h" using run_ws_ok [OF hub_ok_new, of as] assms(1) by auto
  have "client_ok cl" using ok assms(2) by (simp add: hub_ok_def)
  moreover have "list_all one_line (accepted cl)" using assms(3) by (simp add: list_all_iff one_line_def)
  ultimately have "\<exists>lost. accepted cl = concat (map frame_messages (frames cl)) @ lost @ sendBuf cl \<and>
      (writer cl = WriteLoop \<longrightarrow> lost = [])" by (simp add: client_ok_def delivered_def)
  moreover have "\<exists>h'. ws_step (WsBroadcast msg order) h = Some h' \<and>
         peers h' c = Some (if c \<notin> set (clients h) then cl
           else if length (sendBuf cl) < 256 then cl\<lparr>sendBuf := sendBuf cl @ [msg], accepted := accepted cl @ [msg]\<rparr>
           else cl\<lparr>sendClosed := True\<rparr>)" if run: "\<not> hub_done h" "mset order = mset (clients h)"
  proof -
    have s: "set order = set (clients h)" using run(2) by (metis set_mset_mset)
    have "distinct order" using run(2) ok by (metis hub_ok_def mset_eq_imp_distinct_iff)
    from hub_broadcast_ok [OF ok _ this run(1), of msg] s obtain h' where
      "hub_broadcast msg order h = Some h'"
      "peers h' = (\<lambda>c. if c \<in> set (clients h) then map_option (offered msg) (peers h c) else peers h c)" by auto
    with run assms(2) show ?thesis by (simp add: offered_def sendCap_def)
  qed
  ultimately show ?thesis by blast
qed

theorem dashboard_delivery_witness:
  "\<exists>h cl. run_ws [WsServe 1 True, WsBroadcast ''a'' [1], WsBroadcast ''b'' [1], WsWrite 1 True True, WsBroadcast ''c'' [1]] NewHub = Some h \<and>
     peers h 1 = Some cl \<and> accepted cl = [''a'', ''b'', ''c''] \<and>
     concat (map frame_messages (frames cl)) @ sendBuf cl = [''a'', ''b'', ''c'']"
proof -
  let ?as = "[WsServe 1 True, WsBroadcast ''a'' [1], WsBroadcast ''b'' [1], WsWrite 1 True True, WsBroadcast ''c'' [1]]"
  let ?cl = "NewClient\<lparr>sendBuf := [''c''], frames := [TextFrame (''a'' @ CHR 0x0A # ''b'')], accepted := [''a'', ''b'', ''c'']\<rparr>"
  have "\<exists>h. run_ws ?as NewHub = Some h \<and> peers h 1 = Some ?cl"
    by (simp add: NewHub_def ServeWs_def NewClient_def hub_register_def set_gauge_def hub_send_def map_peer_def sendCap_def write_turn_def)
  then obtain h where h: "run_ws ?as NewHub = Some h" "peers h 1 = Some ?cl" by blast
  from dashboard_delivery [OF h] h show ?thesis
    by (intro exI [of _ h] exI [of _ ?cl]) (simp add: NewClient_def)
qed

end
