(* ===== verification/Relay.thy ===== *)
theory Relay
  imports HubProps "HOL-Library.Sublist"
begin

text \<open>
  \<open>Hub.listenRedis\<close> of \<open>internal/websocket/hub.go\<close>, the only sender on the channel \<open>broadcast\<close>: it subscribes
  to the channel of Redis and forwards every message to the hub. Its steps, those of the hub and the
  clients, and what the server does to the subscription interleave.
\<close>

section \<open>The listener\<close>

datatype listen_pc = ListenTop | ListenRange | ListenHold bytes | ListenClosed | ListenSleep | ListenReturned

text \<open>
  \<open>rChan\<close> is the Go channel of the subscription and \<open>rOpen\<close> whether it is open; \<open>rArrived\<close> and \<open>rSent\<close>
  are histories of the messages that reached it and of those the hub has taken. \<open>rCtx\<close> is the end of the
  context that \<open>Run\<close> and \<open>listenRedis\<close> share.
\<close>

record relay =
  rHub :: hub
  rCtx :: bool
  rPc :: listen_pc
  rChan :: "bytes list"
  rOpen :: bool
  rArrived :: "bytes list"
  rSent :: "bytes list"

definition NewRelay :: relay where
  "NewRelay = \<lparr>rHub = NewHub, rCtx = False, rPc = ListenTop, rChan = [], rOpen = False, rArrived = [], rSent = []\<rparr>"

definition unsubscribe :: "relay \<Rightarrow> relay" where
  "unsubscribe R = R\<lparr>rChan := [], rOpen := False\<rparr>"

text \<open>
  One step of \<open>listenRedis\<close>. A range over a closed channel drains it first. \<open>fin\<close> is the choice of the
  \<open>select\<close> when both of its branches are ready, \<open>order\<close> the order in which the hub iterates its map; a
  step that blocks changes nothing.
\<close>

definition listenRedis :: "nat list \<Rightarrow> bool \<Rightarrow> relay \<Rightarrow> relay option" where
  "listenRedis order fin R =
     (case rPc R of
        ListenTop \<Rightarrow>
          if rCtx R then Some (R\<lparr>rPc := ListenReturned\<rparr>)
          else Some (R\<lparr>rPc := ListenRange, rChan := [], rOpen := True\<rparr>)
      | ListenRange \<Rightarrow>
          (case rChan R of
             msg # rest \<Rightarrow> Some (R\<lparr>rPc := ListenHold msg, rChan := rest\<rparr>)
           | [] \<Rightarrow> if rOpen R then Some R else Some (R\<lparr>rPc := ListenClosed\<rparr>))
      | ListenHold msg \<Rightarrow>
          if rCtx R \<and> (fin \<or> hub_done (rHub R)) then Some (unsubscribe (R\<lparr>rPc := ListenReturned\<rparr>))
          else if hub_done (rHub R) \<or> mset order \<noteq> mset (clients (rHub R)) then Some R
          else map_option (\<lambda>h. R\<lparr>rPc := ListenRange, rHub := h, rSent := rSent R @ [msg]\<rparr>)
                 (ws_step (WsBroadcast msg order) (rHub R))
      | ListenClosed \<Rightarrow>
          if rCtx R then Some (unsubscribe (R\<lparr>rPc := ListenReturned\<rparr>))
          else Some (unsubscribe (R\<lparr>rPc := ListenSleep\<rparr>))
      | ListenSleep \<Rightarrow> Some (R\<lparr>rPc := ListenTop\<rparr>)
      | ListenReturned \<Rightarrow> Some R)"

section \<open>Steps\<close>

datatype relay_act =
    RelayListen "nat list" bool
  | RelayHub ws_act
  | RelayArrive bytes
  | RelayLost
  | RelayCancel

text \<open>The hub takes its branch of the context only when that has ended, and broadcasts only what it is sent.\<close>

fun relay_step :: "relay_act \<Rightarrow> relay \<Rightarrow> relay option" where
  "relay_step (RelayListen order fin) R = listenRedis order fin R"
| "relay_step (RelayHub a) R =
     (case a of
        WsBroadcast msg order \<Rightarrow> Some R
      | WsDone \<Rightarrow> if rCtx R then map_option (\<lambda>h. R\<lparr>rHub := h\<rparr>) (ws_step WsDone (rHub R)) else Some R
      | _ \<Rightarrow> map_option (\<lambda>h. R\<lparr>rHub := h\<rparr>) (ws_step a (rHub R)))"
| "relay_step (RelayArrive msg) R =
     (if rOpen R then Some (R\<lparr>rChan := rChan R @ [msg], rArrived := rArrived R @ [msg]\<rparr>) else Some R)"
| "relay_step RelayLost R = Some (R\<lparr>rOpen := False\<rparr>)"
| "relay_step RelayCancel R = Some (R\<lparr>rCtx := True\<rparr>)"

fun run_relay :: "relay_act list \<Rightarrow> relay \<Rightarrow> relay option" where
  "run_relay [] R = Some R"
| "run_relay (a # as) R = (case relay_step a R of None \<Rightarrow> None | Some R' \<Rightarrow> run_relay as R')"

section \<open>What the clients were sent\<close>

text \<open>
  Every client has accepted a contiguous part of the messages the hub was sent, up to the last one as long
  as it is registered.
\<close>

definition tracks :: "bytes list \<Rightarrow> hub \<Rightarrow> bool" where
  "tracks sent h \<longleftrightarrow> (\<forall>c cl. peers h c = Some cl \<longrightarrow>
     sublist (accepted cl) sent \<and> (c \<in> set (clients h) \<longrightarrow> suffix (accepted cl) sent))"

lemma suffix_sublist: "suffix xs ys \<Longrightarrow> sublist xs ys"
  by (auto simp: suffix_def sublist_def) (metis append_Nil2)

text \<open>What the other steps of the hub leave alone: nobody else accepts anything, and new clients have nothing yet.\<close>

definition quiet_change :: "hub \<Rightarrow> hub \<Rightarrow> bool" where
  "quiet_change h h' \<longleftrightarrow> (\<forall>c cl'. peers h' c = Some cl' \<longrightarrow> accepted cl' = [] \<or>
     (\<exists>cl. peers h c = Some cl \<and> accepted cl' = accepted cl \<and> (c \<in> set (clients h') \<longrightarrow> c \<in> set (clients h))))"

lemma tracks_quiet: "tracks sent h \<Longrightarrow> quiet_change h h' \<Longrightarrow> tracks sent h'"
  unfolding tracks_def quiet_change_def by (metis Nil_suffix sublist_Nil_left)

lemma quiet_trans: "quiet_change h h1 \<Longrightarrow> quiet_change h1 h2 \<Longrightarrow> quiet_change h h2"
  unfolding quiet_change_def by metis

lemma quiet_map_peer:
  "(\<And>cl. accepted (f cl) = accepted cl) \<Longrightarrow> quiet_change h (map_peer c f h)"
  by (auto simp: quiet_change_def map_peer_def split: if_splits)

lemma quiet_close_send: "close_send c h = Some h' \<Longrightarrow> quiet_change h h' \<and> clients h' = clients h"
  by (auto simp: close_send_def map_peer_def quiet_change_def split: option.splits if_splits)

lemma quiet_fewer: "set cs \<subseteq> set (clients h) \<Longrightarrow> quiet_change h (h\<lparr>clients := cs\<rparr>)"
  by (auto simp: quiet_change_def)

lemma quiet_remove: "hub_remove c h = Some h' \<Longrightarrow> quiet_change h h'"
  by (auto simp: hub_remove_def close_send_def map_peer_def set_gauge_def quiet_change_def split: option.splits if_splits)

lemma quiet_close_all: "hub_close_all cs h = Some h' \<Longrightarrow> quiet_change h h'"
proof (induction cs arbitrary: h)
  case Nil
  then show ?case by (auto simp: quiet_change_def)
next
  case (Cons c cs)
  then obtain h1 where h1: "close_send c h = Some h1"
      "hub_close_all cs (h1\<lparr>clients := removeAll c (clients h1)\<rparr>) = Some h'"
    by (auto split: option.splits)
  have "quiet_change h h1" using quiet_close_send [OF h1(1)] by simp
  also have "quiet_change h1 (h1\<lparr>clients := removeAll c (clients h1)\<rparr>)" by (intro quiet_fewer) auto
  note quiet_trans [OF calculation this]
  from quiet_trans [OF this Cons.IH [OF h1(2)]] show ?case .
qed

lemma quiet_step:
  assumes "ws_step a h = Some h'" and "\<And>msg order. a \<noteq> WsBroadcast msg order"
  shows "quiet_change h h'"
proof (cases a)
  case (WsServe c upgraded)
  with assms(1) show ?thesis
    by (auto simp: ServeWs_def hub_register_def set_gauge_def quiet_change_def NewClient_def split: if_splits)
next
  case (WsUnregister c)
  have gone: "quiet_change g (map_peer c (\<lambda>cl. cl\<lparr>reader := ReadGone, connOpen := False\<rparr>) g)" for g
    by (rule quiet_map_peer) simp
  show ?thesis
  proof (cases "hub_done h \<or> map_option reader (peers h c) \<noteq> Some ReadLeave")
    case True
    with WsUnregister assms(1) show ?thesis by (auto simp: quiet_change_def)
  next
    case False
    with WsUnregister assms(1) obtain g where g: "hub_unregister c h = Some g"
      and h': "h' = map_peer c (\<lambda>cl. cl\<lparr>reader := ReadGone, connOpen := False\<rparr>) g" by auto
    have "quiet_change h g"
      using g quiet_remove by (auto simp: hub_unregister_def quiet_change_def split: if_splits)
    from quiet_trans [OF this gone] show ?thesis by (simp add: h')
  qed
next
  case WsDone
  show ?thesis
  proof (cases "hub_done h")
    case True
    with WsDone assms(1) show ?thesis by (auto simp: quiet_change_def)
  next
    case False
    with WsDone assms(1) obtain g where g: "hub_close_all (clients h) h = Some g" "h' = g\<lparr>hub_done := True\<rparr>" by auto
    from quiet_close_all [OF g(1)] show ?thesis by (simp add: g(2) quiet_change_def)
  qed
next
  case (WsRead c ok)
  have "accepted (read_turn ok cl) = accepted cl" for cl by (simp add: read_turn_def)
  with WsRead assms(1) quiet_map_peer show ?thesis by auto
next
  case (WsWrite c next_ok close_ok)
  have "accepted (write_turn next_ok close_ok cl) = accepted cl" for cl
    by (simp add: write_turn_def leave_write_def split: list.split)
  with WsWrite assms(1) quiet_map_peer show ?thesis by auto
next
  case (WsPing c ok)
  have "accepted (ping_turn ok cl) = accepted cl" for cl by (simp add: ping_turn_def leave_write_def)
  with WsPing assms(1) quiet_map_peer show ?thesis by auto
qed (use assms in blast)

text \<open>A broadcast adds its message for every registered client with room.\<close>

lemma tracks_broadcast:
  assumes "hub_ok h" and "\<not> hub_done h" and "mset order = mset (clients h)" and "tracks sent h"
    and "ws_step (WsBroadcast msg order) h = Some h'"
  shows "tracks (sent @ [msg]) h'"
proof -
  have set: "set order = set (clients h)" using assms(3) by (metis set_mset_mset)
  have "distinct order" using assms(1,3) by (metis hub_ok_def mset_eq_imp_distinct_iff)
  from hub_broadcast_ok [OF assms(1) _ this assms(2), of msg] set obtain h1 where
    "hub_broadcast msg order h = Some h1" and h1: "hub_ok h1"
    "peers h1 = (\<lambda>c. if c \<in> set (clients h) then map_option (offered msg) (peers h c) else peers h c)" by auto
  then have h': "h' = h1" using assms(2,3,5) by simp
  have "sublist (accepted cl') (sent @ [msg]) \<and> (c \<in> set (clients h1) \<longrightarrow> suffix (accepted cl') (sent @ [msg]))"
    if p: "peers h1 c = Some cl'" for c cl'
  proof -
    have reg: "sendClosed cl' \<longleftrightarrow> c \<notin> set (clients h1)" using h1(1) p by (simp add: hub_ok_def)
    obtain cl where cl: "peers h c = Some cl" "cl' = (if c \<in> set (clients h) then offered msg cl else cl)"
      using p by (auto simp: h1(2) split: if_splits)
    have old: "sublist (accepted cl) sent" "c \<in> set (clients h) \<Longrightarrow> suffix (accepted cl) sent"
      "sendClosed cl \<longleftrightarrow> c \<notin> set (clients h)"
      using assms(1,4) cl(1) by (auto simp: tracks_def hub_ok_def)
    have more: "sublist (accepted cl) (sent @ [msg])" using old(1) by (simp add: sublist_append)
    show ?thesis
    proof (cases "c \<in> set (clients h) \<and> length (sendBuf cl) < sendCap")
      case True
      then have "accepted cl' = accepted cl @ [msg]" by (simp add: cl(2) offered_def)
      then have "suffix (accepted cl') (sent @ [msg])" using old(2) True by (auto simp: suffix_def)
      then show ?thesis using suffix_sublist by blast
    next
      case False
      then have "accepted cl' = accepted cl \<and> sendClosed cl'" using old(3) by (auto simp: cl(2) offered_def)
      with more reg show ?thesis by simp
    qed
  qed
  then show ?thesis by (simp add: h' tracks_def)
qed

section \<open>The invariant\<close>

fun held :: "listen_pc \<Rightarrow> bytes list" where
  "held (ListenHold msg) = [msg]"
| "held _ = []"

definition relay_ok :: "relay \<Rightarrow> bool" where
  "relay_ok R \<longleftrightarrow> hub_ok (rHub R) \<and> (hub_done (rHub R) \<longrightarrow> rCtx R) \<and> tracks (rSent R) (rHub R) \<and>
     prefix (rSent R) (rArrived R) \<and> (rPc R \<noteq> ListenReturned \<longrightarrow> rArrived R = rSent R @ held (rPc R) @ rChan R) \<and>
     (rPc R = ListenTop \<or> rPc R = ListenClosed \<or> rPc R = ListenSleep \<or> rPc R = ListenReturned \<longrightarrow> \<not> rOpen R \<and> rChan R = [])"

lemma relay_ok_new: "relay_ok NewRelay"
  by (simp add: relay_ok_def NewRelay_def hub_ok_new) (simp add: tracks_def NewHub_def)

lemma hub_done_remove: "hub_remove c h = Some h' \<Longrightarrow> hub_done h' = hub_done h"
  by (auto simp: hub_remove_def close_send_def map_peer_def set_gauge_def split: option.splits if_splits)

lemma hub_done_broadcast: "hub_broadcast msg cs h = Some h' \<Longrightarrow> hub_done h' = hub_done h"
proof (induction cs arbitrary: h)
  case (Cons c cs)
  then obtain h1 where h1: "hub_send msg c h = Some h1" "hub_broadcast msg cs h1 = Some h'" by (auto split: option.splits)
  then have "hub_done h1 = hub_done h"
    using hub_done_remove by (auto simp: hub_send_def map_peer_def split: option.splits if_splits)
  with Cons.IH [OF h1(2)] show ?case by simp
qed simp

lemma hub_done_step: "ws_step a h = Some h' \<Longrightarrow> a \<noteq> WsDone \<Longrightarrow> hub_done h' = hub_done h"
  using hub_done_remove hub_done_broadcast
  by (cases a) (auto simp: ServeWs_def hub_register_def hub_unregister_def set_gauge_def map_peer_def split: if_splits)

text \<open>A step of the hub that is no broadcast.\<close>

lemma relay_hub_ok:
  assumes "relay_ok R" and "\<And>msg order. a \<noteq> WsBroadcast msg order" and "a = WsDone \<longrightarrow> rCtx R"
  shows "\<exists>h. ws_step a (rHub R) = Some h \<and> relay_ok (R\<lparr>rHub := h\<rparr>)"
proof -
  have ok: "hub_ok (rHub R)" using assms(1) by (simp add: relay_ok_def)
  from ws_step_ok [OF this, of a] obtain h where h: "ws_step a (rHub R) = Some h" "hub_ok h" by blast
  have "hub_done h \<longrightarrow> rCtx R"
    using hub_done_step [OF h(1)] assms(1,3) by (cases "a = WsDone") (auto simp: relay_ok_def)
  moreover have "tracks (rSent R) h"
    using tracks_quiet quiet_step [OF h(1) assms(2)] assms(1) by (auto simp: relay_ok_def)
  ultimately show ?thesis using h assms(1) by (auto simp: relay_ok_def)
qed

lemma listenRedis_ok:
  assumes "relay_ok R"
  shows "\<exists>R'. listenRedis order fin R = Some R' \<and> relay_ok R'"
proof (cases "rPc R")
  case (ListenHold msg)
  show ?thesis
  proof (cases "rCtx R \<and> (fin \<or> hub_done (rHub R)) \<or> hub_done (rHub R) \<or> mset order \<noteq> mset (clients (rHub R))")
    case True
    with assms ListenHold show ?thesis
      by (auto simp: listenRedis_def relay_ok_def unsubscribe_def)
  next
    case False
    have ok: "hub_ok (rHub R)" "tracks (rSent R) (rHub R)" using assms by (simp_all add: relay_ok_def)
    from ws_step_ok [OF ok(1)] obtain h where h: "ws_step (WsBroadcast msg order) (rHub R) = Some h" "hub_ok h" by blast
    have "tracks (rSent R @ [msg]) h" using tracks_broadcast [OF ok(1) _ _ ok(2) h(1)] False by blast
    with h hub_done_step [OF h(1)] False ListenHold assms show ?thesis
      by (auto simp: listenRedis_def relay_ok_def)
  qed
next
  case ListenRange
  with assms show ?thesis
    by (cases "rChan R") (auto simp: listenRedis_def relay_ok_def)
qed (use assms in \<open>auto simp: listenRedis_def relay_ok_def unsubscribe_def\<close>)

lemma relay_step_ok:
  assumes "relay_ok R"
  shows "\<exists>R'. relay_step a R = Some R' \<and> relay_ok R'"
proof (cases a)
  case (RelayListen order fin)
  with listenRedis_ok [OF assms] show ?thesis by simp
next
  case (RelayHub b)
  show ?thesis
  proof (cases "(\<exists>msg order. b = WsBroadcast msg order) \<or> b = WsDone \<and> \<not> rCtx R")
    case True
    with RelayHub assms show ?thesis by auto
  next
    case False
    with relay_hub_ok [OF assms, of b] RelayHub show ?thesis by (cases b) auto
  qed
qed (use assms in \<open>auto simp: relay_ok_def prefix_def\<close>)

lemma run_relay_ok: "relay_ok R \<Longrightarrow> \<exists>R'. run_relay as R = Some R' \<and> relay_ok R'"
proof (induction as arbitrary: R)
  case (Cons a as)
  from relay_step_ok [OF Cons.prems, of a] obtain R1 where "relay_step a R = Some R1" "relay_ok R1" by blast
  with Cons.IH show ?case by auto
qed simp

section \<open>The property\<close>

text \<open>
  C32 The relay from Redis to the dashboards, in every interleaving of the listener, the hub, the clients
  and the server, also across lost subscriptions: nothing panics; the hub is sent the messages that
  arrived, in their order, without a gap and without repetition, and until the listener returns those not
  sent yet are the one in its hand and those in the channel; and what a client has accepted is a
  contiguous part of it, up to the last message as long as the client is registered.
\<close>

theorem relay_in_order:
  "\<exists>R. run_relay as NewRelay = Some R \<and> prefix (rSent R) (rArrived R) \<and>
     (rPc R = ListenReturned \<or>
      rArrived R = rSent R @ (case rPc R of ListenHold msg \<Rightarrow> [msg] | _ \<Rightarrow> []) @ rChan R) \<and>
     (\<forall>c cl. peers (rHub R) c = Some cl \<longrightarrow>
        sublist (accepted cl) (rSent R) \<and> (c \<in> set (clients (rHub R)) \<longrightarrow> suffix (accepted cl) (rSent R)))"
proof -
  obtain R where R: "run_relay as NewRelay = Some R" "relay_ok R" using run_relay_ok [OF relay_ok_new] by blast
  have "held (rPc R) = (case rPc R of ListenHold msg \<Rightarrow> [msg] | _ \<Rightarrow> [])" by (cases "rPc R") simp_all
  with R show ?thesis unfolding relay_ok_def tracks_def by auto
qed

text \<open>Two messages arrive, one dashboard is there for both and one for the second only.\<close>

theorem relay_in_order_witness:
  "\<exists>R. run_relay [RelayListen [] False, RelayHub (WsServe 1 True), RelayArrive ''a'', RelayListen [] False, RelayListen [1] False,
      RelayArrive ''b'', RelayLost, RelayHub (WsServe 2 True), RelayListen [] False, RelayListen [1, 2] False] NewRelay = Some R \<and>
     rSent R = [''a'', ''b''] \<and> map_option accepted (peers (rHub R) 1) = Some [''a'', ''b''] \<and>
     map_option accepted (peers (rHub R) 2) = Some [''b''] \<and> suffix [''b''] (rSent R)"
proof -
  let ?as = "[RelayListen [] False, RelayHub (WsServe 1 True), RelayArrive ''a'', RelayListen [] False, RelayListen [1] False,
      RelayArrive ''b'', RelayLost, RelayHub (WsServe 2 True), RelayListen [] False, RelayListen [1, 2] False]"
  obtain R where R: "run_relay ?as NewRelay = Some R"
    "\<forall>c cl. peers (rHub R) c = Some cl \<longrightarrow>
        sublist (accepted cl) (rSent R) \<and> (c \<in> set (clients (rHub R)) \<longrightarrow> suffix (accepted cl) (rSent R))"
    using relay_in_order [of ?as] by blast
  from R(1) have "rSent R = [''a'', ''b''] \<and> map_option accepted (peers (rHub R) 1) = Some [''a'', ''b''] \<and>
     map_option accepted (peers (rHub R) 2) = Some [''b''] \<and> 2 \<in> set (clients (rHub R))"
    by (auto simp: NewRelay_def NewHub_def ServeWs_def NewClient_def listenRedis_def hub_register_def set_gauge_def hub_send_def
        map_peer_def sendCap_def)
  moreover from this R(2) have "suffix [''b''] (rSent R)" by (auto dest!: spec [of _ 2])
  ultimately show ?thesis using R(1) by blast
qed

end
