(* ===== verification/Messages.thy ===== *)
theory Messages
  imports JsonEncode
begin

text \<open>
  The messages for the dashboards as \<open>internal/websocket/types.go\<close> declares them, each with what
  \<open>json.Marshal\<close> makes of it: the members in the order of the fields, under the names of the tags. A
  \<open>MessageType\<close> is a string, a UUID is written as its text, which is an argument.
\<close>

section \<open>Message types\<close>

type_synonym message_type = string

definition TypeEventReceived :: message_type where "TypeEventReceived = ''EVENT_RECEIVED''"
definition TypeEventProcessing :: message_type where "TypeEventProcessing = ''EVENT_PROCESSING''"
definition TypeEventCompleted :: message_type where "TypeEventCompleted = ''EVENT_COMPLETED''"
definition TypeEventFailed :: message_type where "TypeEventFailed = ''EVENT_FAILED''"
definition TypeWorkerOnline :: message_type where "TypeWorkerOnline = ''WORKER_ONLINE''"
definition TypeWorkerOffline :: message_type where "TypeWorkerOffline = ''WORKER_OFFLINE''"
definition TypePing :: message_type where "TypePing = ''PING''"

lemmas message_type_defs = TypeEventReceived_def TypeEventProcessing_def TypeEventCompleted_def TypeEventFailed_def
  TypeWorkerOnline_def TypeWorkerOffline_def TypePing_def

section \<open>Messages\<close>

record BaseMessage =
  bmType :: message_type

record EventReceivedMsg =
  erType :: message_type
  erEventID :: uuid

record EventProcessingMsg =
  epType :: message_type
  epEventID :: uuid
  epWorkerID :: string

record EventCompletedMsg =
  ecType :: message_type
  ecEventID :: uuid
  ecProcessingTimeMs :: int

record EventFailedMsg =
  efType :: message_type
  efEventID :: uuid
  efAttempt :: int

record WorkerOnlineMsg =
  woType :: message_type
  woWorkerID :: string

record WorkerOfflineMsg =
  wfType :: message_type
  wfWorkerID :: string

record PingMessage =
  pmType :: message_type

section \<open>Marshalling\<close>

definition marshal_BaseMessage :: "BaseMessage \<Rightarrow> bytes" where
  "marshal_BaseMessage m = object_text [(''type'', encode_string (bmType m))]"

definition marshal_EventReceivedMsg :: "(uuid \<Rightarrow> bytes) \<Rightarrow> EventReceivedMsg \<Rightarrow> bytes" where
  "marshal_EventReceivedMsg utext m =
     object_text [(''type'', encode_string (erType m)), (''event_id'', encode_string (utext (erEventID m)))]"

definition marshal_EventProcessingMsg :: "(uuid \<Rightarrow> bytes) \<Rightarrow> EventProcessingMsg \<Rightarrow> bytes" where
  "marshal_EventProcessingMsg utext m =
     object_text [(''type'', encode_string (epType m)), (''event_id'', encode_string (utext (epEventID m))),
       (''worker_id'', encode_string (epWorkerID m))]"

definition marshal_EventCompletedMsg :: "(uuid \<Rightarrow> bytes) \<Rightarrow> EventCompletedMsg \<Rightarrow> bytes" where
  "marshal_EventCompletedMsg utext m =
     object_text [(''type'', encode_string (ecType m)), (''event_id'', encode_string (utext (ecEventID m))),
       (''processing_time_ms'', Itoa (ecProcessingTimeMs m))]"

definition marshal_EventFailedMsg :: "(uuid \<Rightarrow> bytes) \<Rightarrow> EventFailedMsg \<Rightarrow> bytes" where
  "marshal_EventFailedMsg utext m =
     object_text [(''type'', encode_string (efType m)), (''event_id'', encode_string (utext (efEventID m))),
       (''attempt'', Itoa (efAttempt m))]"

definition marshal_WorkerOnlineMsg :: "WorkerOnlineMsg \<Rightarrow> bytes" where
  "marshal_WorkerOnlineMsg m =
     object_text [(''type'', encode_string (woType m)), (''worker_id'', encode_string (woWorkerID m))]"

definition marshal_WorkerOfflineMsg :: "WorkerOfflineMsg \<Rightarrow> bytes" where
  "marshal_WorkerOfflineMsg m =
     object_text [(''type'', encode_string (wfType m)), (''worker_id'', encode_string (wfWorkerID m))]"

definition marshal_PingMessage :: "PingMessage \<Rightarrow> bytes" where
  "marshal_PingMessage m = object_text [(''type'', encode_string (pmType m))]"

lemmas marshal_defs = marshal_BaseMessage_def marshal_EventReceivedMsg_def marshal_EventProcessingMsg_def
  marshal_EventCompletedMsg_def marshal_EventFailedMsg_def marshal_WorkerOnlineMsg_def marshal_WorkerOfflineMsg_def
  marshal_PingMessage_def

lemma message_names:
  "ascii_text ''type''" "ascii_text ''event_id''" "ascii_text ''worker_id''" "ascii_text ''processing_time_ms''" "ascii_text ''attempt''"
  by (simp_all add: ascii_text_def plain_char_def ord_def)

text \<open>Whatever the texts and numbers are, a marshalled message is JSON.\<close>

lemma marshalled_json:
  "json_Valid (marshal_BaseMessage m1)" "json_Valid (marshal_EventReceivedMsg utext m2)"
  "json_Valid (marshal_EventProcessingMsg utext m3)" "json_Valid (marshal_EventCompletedMsg utext m4)"
  "json_Valid (marshal_EventFailedMsg utext m5)" "json_Valid (marshal_WorkerOnlineMsg m6)"
  "json_Valid (marshal_WorkerOfflineMsg m7)" "json_Valid (marshal_PingMessage m8)"
  unfolding marshal_defs by (rule object_text_json; simp add: written_member_def message_names)+

text \<open>No message has a newline in it, which is what the dashboards' frames are split at.\<close>

definition dashboard_line :: "bytes \<Rightarrow> bool" where
  "dashboard_line m \<longleftrightarrow> json_Valid m \<and> CHR 0x0A \<notin> set m"

lemma encode_turn_line: "CHR 0x0A \<notin> set (fst (encode_turn s))"
proof (cases s)
  case (Cons c cs)
  have "128 \<le> ord x" if "x \<in> set (take (rune_bytes s) s)" for x
    using rune_high [of s] that by (auto simp: list_all_iff)
  then have "CHR 0x0A \<notin> set (take (rune_bytes s) s)" by (force simp: ord_def)
  moreover have "CHR 0x0A \<notin> set (escape_00 c)" "CHR 0x0A \<notin> set (escape_202 s)"
    using escape_no_space(1) [of c] escape_no_space(2) [of s] by (auto simp: list_all_iff isSpace_def)
  moreover have "\<not> safe_char (CHR 0x0A)" by (simp add: safe_char_def ord_def)
  ultimately show ?thesis
    by (auto simp: encode_turn_def Cons dest: short_escape_char split: option.splits)
qed (simp add: encode_turn_def)

lemma escape_line: "CHR 0x0A \<notin> set (escape s)"
proof (induction s rule: escape.induct)
  case (1 s)
  show ?case
  proof (cases "s = []")
    case False
    obtain w n where t: "encode_turn s = (w, n)" by fastforce
    with 1 [OF False t [symmetric]] encode_turn_line [of s] False show ?thesis
      by (subst escape.simps) simp
  qed (simp add: escape.simps)
qed

lemma Itoa_line: "CHR 0x0A \<notin> set (Itoa p)"
  using Itoa_chars [of "CHR 0x0A" p] by (auto simp: isSpace_def)

lemma marshalled_line:
  "dashboard_line (marshal_EventReceivedMsg utext m2)"
  "dashboard_line (marshal_EventProcessingMsg utext m3)" "dashboard_line (marshal_EventCompletedMsg utext m4)"
  "dashboard_line (marshal_EventFailedMsg utext m5)" "dashboard_line (marshal_WorkerOnlineMsg m6)"
  "dashboard_line (marshal_WorkerOfflineMsg m7)"
  unfolding dashboard_line_def by (intro conjI marshalled_json;
    simp add: marshal_defs object_text_def member_text_def encode_string_def escape_line Itoa_line)+

text \<open>Escaping never shortens a text, so two texts around the same bytes survive it only one by one.\<close>

lemma rune_bytes_length: "rune_bytes s \<le> length s"
  by (cases s rule: rune_bytes_cases) simp_all

lemma encode_turn_length: "s \<noteq> [] \<Longrightarrow> Suc (snd (encode_turn s)) \<le> length (fst (encode_turn s))"
  using rune_bytes_length [of s]
  by (auto simp: neq_Nil_conv encode_turn_def escape_00_def escape_202_def simp del: One_nat_def split: option.split)

lemma escape_length: "length s \<le> length (escape s)"
proof (induction s rule: escape.induct)
  case (1 s)
  show ?case
  proof (cases "s = []")
    case False
    obtain w n where t: "encode_turn s = (w, n)" by fastforce
    with 1 [OF False t [symmetric]] encode_turn_length [OF False] False show ?thesis
      by (subst escape.simps) simp
  qed (simp add: escape.simps)
qed

lemma escape_twice: "escape x @ sep @ escape y = x @ sep @ y \<longleftrightarrow> escape x = x \<and> escape y = y"
proof
  assume a: "escape x @ sep @ escape y = x @ sep @ y"
  from arg_cong [OF this, of length] escape_length [of x] escape_length [of y]
  have "length (escape x) = length x" by simp
  with a show "escape x = x \<and> escape y = y" by simp
qed simp

end
