(* ===== verification/Api.thy ===== *)
theory Api
  imports World Messages
begin

text \<open>
  \<open>internal/api\<close> and the probes of \<open>cmd/api/main.go\<close>: the handlers of the HTTP server over the shared
  world. A request is what the handler reads from it; a response is its code, its content type and what
  is written as its body. The decoder of request bodies is an argument (\<open>Decode\<close> gives Go's), \<open>encoding/json\<close> renders the Go
  values of the successful responses. Creating an event is given twice: \<open>HandleCreateEvent\<close> is the code
  read from top to bottom, \<open>create_step\<close> the same calls one by one.
\<close>

section \<open>Requests and responses\<close>

record CreateEventRequest =
  rType :: event_type
  rPriority :: int
  rPayload :: bytes

record CreateEventResponse =
  pID :: uuid
  pStatus :: event_status

text \<open>The body is text, or the Go value given to \<open>json.NewEncoder(w).Encode\<close>.\<close>

datatype body =
    TextBody bytes
  | CreatedBody CreateEventResponse
  | EventBody event
  | EventsBody "event list"
  | MapBody "(string \<times> string) list"

record response =
  rsCode :: int
  rsType :: string
  rsBody :: body

definition json_response :: "int \<Rightarrow> body \<Rightarrow> response" where
  "json_response code b = \<lparr>rsCode = code, rsType = ''application/json'', rsBody = b\<rparr>"

text \<open>\<open>http.Error\<close> writes the text with a newline and declares it plain text.\<close>

definition http_Error :: "bytes \<Rightarrow> int \<Rightarrow> response" where
  "http_Error msg code =
     \<lparr>rsCode = code, rsType = ''text/plain; charset=utf-8'', rsBody = TextBody (msg @ [CHR 0x0A])\<rparr>"

definition StatusOK :: int where "StatusOK = 200"
definition StatusAccepted :: int where "StatusAccepted = 202"
definition StatusBadRequest :: int where "StatusBadRequest = 400"
definition StatusNotFound :: int where "StatusNotFound = 404"
definition StatusInternalServerError :: int where "StatusInternalServerError = 500"

lemmas code_defs = StatusOK_def StatusAccepted_def StatusBadRequest_def StatusNotFound_def StatusInternalServerError_def

definition server_error :: response where
  "server_error = http_Error ''{\"error\":\"internal server error\"}'' StatusInternalServerError"

section \<open>Creating an event\<close>

text \<open>What the handler draws itself: the random id and two readings of the clock.\<close>

record draw =
  dID :: uuid
  dCreated :: time
  dUpdated :: time

definition new_event :: "draw \<Rightarrow> CreateEventRequest \<Rightarrow> event" where
  "new_event dr req =
     \<lparr> eID = dID dr, eType = rType req, ePayload = rPayload req, ePriority = rPriority req,
       eStatus = StatusReceived, eAttempt = 0, eWorkerID = None, eCreatedAt = dCreated dr,
       eUpdatedAt = dUpdated dr, eCompletedAt = None \<rparr>"

definition validation_body :: "validation_error \<Rightarrow> bytes" where
  "validation_body err = ''{\"error\":\"'' @ validation_message err @ ''\"}''"

text \<open>Up to the first call: a response, or the event to store.\<close>

definition accept_request ::
  "(bytes \<Rightarrow> CreateEventRequest option) \<Rightarrow> draw \<Rightarrow> bytes \<Rightarrow> response + event" where
  "accept_request decode dr text =
     (case decode text of
        None \<Rightarrow> Inl (http_Error ''{\"error\":\"malformed JSON request\"}'' StatusBadRequest)
      | Some req \<Rightarrow>
          let e = new_event dr req in
          (case Validate e of
             Some err \<Rightarrow> Inl (http_Error (validation_body err) StatusBadRequest)
           | None \<Rightarrow> Inr e))"

text \<open>The goroutine that tells the dashboards.\<close>

definition received_msg :: "(uuid \<Rightarrow> string) \<Rightarrow> uuid \<Rightarrow> bytes" where
  "received_msg utext i = marshal_EventReceivedMsg utext \<lparr>erType = TypeEventReceived, erEventID = i\<rparr>"

definition announce_received :: "('m, 'r) env \<Rightarrow> event \<Rightarrow> 'r world \<Rightarrow> 'r world" where
  "announce_received E e = RedisBroadcast E (received_msg (uuid_Text E) (eID e))"

definition created_response :: "event \<Rightarrow> response" where
  "created_response e = json_response StatusAccepted (CreatedBody \<lparr>pID = eID e, pStatus = eStatus e\<rparr>)"

definition HandleCreateEvent ::
  "('m, 'r) env \<Rightarrow> (bytes \<Rightarrow> CreateEventRequest option) \<Rightarrow> draw \<Rightarrow> bytes \<Rightarrow> 'r world \<Rightarrow> response \<times> 'r world" where
  "HandleCreateEvent E decode dr text w =
     (case accept_request decode dr text of
        Inl rs \<Rightarrow> (rs, w)
      | Inr e \<Rightarrow>
          (case repo_Create E e w of
             (Some err, w) \<Rightarrow> (server_error, w)
           | (None, w) \<Rightarrow>
               (case queue_Publish E e w of
                  (Some err, w) \<Rightarrow> (server_error, w)
                | (None, w) \<Rightarrow>
                    let w = snd (repo_UpdateStatus E (eID e) StatusReceived StatusQueued w);
                        w = announce_received E e w;
                        w = out_only (EventsReceived_Add (plat E) (eType e)) w
                    in (created_response e, w))))"

text \<open>The same as steps, between which the workers and the other requests act.\<close>

datatype create_pc =
    CreateStore event
  | CreatePublish event
  | CreateQueue event
  | CreateAnnounce event
  | CreateCount event
  | CreateDone response

definition create_begin :: "(bytes \<Rightarrow> CreateEventRequest option) \<Rightarrow> draw \<Rightarrow> bytes \<Rightarrow> create_pc" where
  "create_begin decode dr text =
     (case accept_request decode dr text of Inl rs \<Rightarrow> CreateDone rs | Inr e \<Rightarrow> CreateStore e)"

fun create_step :: "('m, 'r) env \<Rightarrow> create_pc \<Rightarrow> 'r world \<Rightarrow> create_pc \<times> 'r world" where
  "create_step E (CreateStore e) w =
     (case repo_Create E e w of
        (Some err, w) \<Rightarrow> (CreateDone server_error, w)
      | (None, w) \<Rightarrow> (CreatePublish e, w))"
| "create_step E (CreatePublish e) w =
     (case queue_Publish E e w of
        (Some err, w) \<Rightarrow> (CreateDone server_error, w)
      | (None, w) \<Rightarrow> (CreateQueue e, w))"
| "create_step E (CreateQueue e) w =
     (CreateAnnounce e, snd (repo_UpdateStatus E (eID e) StatusReceived StatusQueued w))"
| "create_step E (CreateAnnounce e) w = (CreateCount e, announce_received E e w)"
| "create_step E (CreateCount e) w =
     (CreateDone (created_response e), out_only (EventsReceived_Add (plat E) (eType e)) w)"
| "create_step E (CreateDone rs) w = (CreateDone rs, w)"

section \<open>Reading events\<close>

definition HandleGetEventByID :: "('m, 'r) env \<Rightarrow> string \<Rightarrow> 'r world \<Rightarrow> response \<times> 'r world" where
  "HandleGetEventByID E idStr w =
     (case uuid_Parse E idStr of
        None \<Rightarrow> (http_Error ''{\"error\":\"invalid event ID format\"}'' StatusBadRequest, w)
      | Some i \<Rightarrow>
          (case repo_GetByID E i w of
             (Inl err, w) \<Rightarrow>
               if err = ErrEventNotFound
               then (http_Error ''{\"error\":\"event not found\"}'' StatusNotFound, w)
               else (server_error, w)
           | (Inr e, w) \<Rightarrow> (json_response StatusOK (EventBody e), w)))"

text \<open>
  \<open>Query().Get(k)\<close> is the first value of the parameter, or the empty text. A parameter that is not given
  leaves its default.
\<close>

definition list_limit :: "string \<Rightarrow> int option" where
  "list_limit l =
     (if l \<noteq> '''' then
        (case Atoi l of
           None \<Rightarrow> None
         | Some parsed \<Rightarrow> if parsed < 1 \<or> parsed > 100 then None else Some parsed)
      else Some 50)"

definition list_offset :: "string \<Rightarrow> int option" where
  "list_offset off =
     (if off \<noteq> '''' then
        (case Atoi off of
           None \<Rightarrow> None
         | Some parsed \<Rightarrow> if parsed < 0 then None else Some parsed)
      else Some 0)"

definition HandleListEvents :: "('m, 'r) env \<Rightarrow> (string \<Rightarrow> string) \<Rightarrow> 'r world \<Rightarrow> response \<times> 'r world" where
  "HandleListEvents E query w =
     (case list_limit (query ''limit'') of
        None \<Rightarrow> (http_Error ''{\"error\":\"invalid limit parameter\"}'' StatusBadRequest, w)
      | Some limit \<Rightarrow>
          (case list_offset (query ''offset'') of
             None \<Rightarrow> (http_Error ''{\"error\":\"invalid offset parameter\"}'' StatusBadRequest, w)
           | Some offset \<Rightarrow>
               (case repo_List E limit offset w of
                  (Inl err, w) \<Rightarrow> (server_error, w)
                | (Inr evs, w) \<Rightarrow> (json_response StatusOK (EventsBody evs), w))))"

section \<open>Probes\<close>

definition writeJSON :: "int \<Rightarrow> (string \<times> string) list \<Rightarrow> response" where
  "writeJSON code v = json_response code (MapBody v)"

definition handleHealth :: response where
  "handleHealth = writeJSON StatusOK [(''status'', ''ok'')]"

definition handleReady :: response where
  "handleReady = writeJSON StatusOK [(''status'', ''ready'')]"

end
