(* ===== verification/Decode.thy ===== *)
theory Decode
  imports Api JsonEncode
begin

text \<open>
  \<open>json.NewDecoder(r.Body).Decode(&req)\<close> for the request of \<open>internal/api/types.go\<close>: the decoder of Go's
  \<open>encoding/json\<close> on bytes. It takes the first JSON value of the body with the scanner of \<open>Json\<close>, leaves
  what follows unread, and stores the members of an object (\<open>JsonText\<close>) into the fields of the struct: names
  are compared without regard to case, a later member replaces an earlier one, unknown members are skipped,
  \<open>null\<close> leaves a string or a number as it is, and any other mismatch of types is an error. A
  \<open>json.RawMessage\<close> takes the bytes of its value as they are.
\<close>

section \<open>The struct\<close>

definition zero_request :: CreateEventRequest where
  "zero_request = \<lparr>rType = '''', rPriority = 0, rPayload = ''''\<rparr>"

definition set_field :: "bytes \<Rightarrow> bytes \<Rightarrow> CreateEventRequest \<Rightarrow> CreateEventRequest option" where
  "set_field key v r =
     (if names_field key ''type'' then map_option (\<lambda>x. r\<lparr>rType := x\<rparr>) (set_string (rType r) v)
      else if names_field key ''priority'' then map_option (\<lambda>x. r\<lparr>rPriority := x\<rparr>) (set_int (rPriority r) v)
      else if names_field key ''payload'' then Some (r\<lparr>rPayload := v\<rparr>)
      else Some r)"

definition decode_members :: "bytes \<Rightarrow> CreateEventRequest \<Rightarrow> CreateEventRequest option" where
  "decode_members = decode_fields set_field"

definition decode_request :: "bytes \<Rightarrow> CreateEventRequest option" where
  "decode_request text =
     (case skip_space text of
        [] \<Rightarrow> None
      | c # cs \<Rightarrow>
          if c = CHR ''{'' then
            (case object_prefix (BeginValue, []) (c # cs) of
               None \<Rightarrow> None
             | Some obj \<Rightarrow> decode_members (tl obj) zero_request)
          else if take 4 (c # cs) = ''null'' \<and> list_all isSpace (take 1 (drop 4 (c # cs))) then Some zero_request
          else None)"

section \<open>Reading back what a client writes\<close>

definition quoted :: "bytes \<Rightarrow> bytes" where
  "quoted t = [CHR 0x22] @ t @ [CHR 0x22]"

definition request_text :: "event_type \<Rightarrow> int \<Rightarrow> bytes \<Rightarrow> bytes" where
  "request_text t p pl = object_text [(''type'', quoted t), (''priority'', Itoa p), (''payload'', pl)]"

lemma quoted_member: "ascii_text t \<Longrightarrow> member_value (quoted t)"
  using scan_plain [of t "[]"] scan_plain [of t "[ParseObjectValue]"]
  by (simp add: ascii_text_def list_all_iff quoted_def member_value_def json_Valid_def scan_unfold scan_eof_def)

lemma set_quoted: "ascii_text t \<Longrightarrow> set_string old (quoted t) = Some t"
  by (simp add: set_string_def quoted_def unquote_ascii)

lemma ascii_names: "ascii_text ''type''" "ascii_text ''priority''" "ascii_text ''payload''"
  by (simp_all add: ascii_text_def plain_char_def ord_def)

lemma request_names:
  "names_field ''type'' ''type''" "names_field ''priority'' ''priority''" "names_field ''payload'' ''payload''"
  "\<not> names_field ''priority'' ''type''" "\<not> names_field ''payload'' ''type''" "\<not> names_field ''payload'' ''priority''"
  by (simp_all add: names_field_ascii ord_def upper_code_def)

lemma request_members:
  assumes "ascii_text t" and "member_value pl"
  shows "list_all written_member [(''type'', quoted t), (''priority'', Itoa p), (''payload'', pl)]"
  using assms ascii_names quoted_member by (simp add: written_member_def)

lemma decode_written:
  assumes t: "ascii_text t" and p: "- (2 ^ 63) \<le> p" "p < 2 ^ 63" and pl: "member_value pl" and pre: "list_all isSpace pre"
  shows "decode_request (pre @ request_text t p pl @ junk) = Some \<lparr>rType = t, rPriority = p, rPayload = pl\<rparr>"
proof -
  let ?kvs = "[(''type'', quoted t), (''priority'', Itoa p), (''payload'', pl)]"
  note w = request_members [OF t pl, of p]
  have "decode_members (members_text ?kvs @ ''}'') zero_request = Some \<lparr>rType = t, rPriority = p, rPayload = pl\<rparr>"
    unfolding decode_members_def decode_members_text [OF w]
    by (simp add: set_field_def request_names set_quoted [OF t] set_int_Itoa [OF p] zero_request_def)
  moreover have "skip_space (pre @ request_text t p pl @ junk) = request_text t p pl @ junk"
    using pre by (induction pre) (simp_all add: skip_space_def request_text_def object_text_def isSpace_def)
  moreover have "object_prefix (BeginValue, []) (request_text t p pl @ junk) = Some (request_text t p pl)"
    unfolding request_text_def by (rule object_text_prefix(1) [OF w]) simp
  ultimately show ?thesis by (simp add: decode_request_def request_text_def object_text_def)
qed

section \<open>The property\<close>

lemma ascii_types: "known_type t \<Longrightarrow> ascii_text t"
  by (auto simp: known_type_def type_defs ascii_text_def plain_char_def ord_def)

lemma ascii_utf8: "ascii_text t \<Longrightarrow> utf8 t"
  by (rule utf8_ascii) (auto simp: ascii_text_def list_all_iff)

text \<open>
  The body a client writes for an event, with any type of plain ASCII, any priority of 64 bits and any
  JSON payload that leaves room for one more level of nesting, is decoded to exactly these three values,
  the payload byte for byte, whatever space comes before it and whatever bytes follow it.
\<close>

theorem request_decoded:
  assumes "list_all (\<lambda>c. plain_char c \<and> ord c < 128) t" and "- (2 ^ 63) \<le> p" and "p < 2 ^ 63"
    and "json_Valid pl" and "\<not> isSpace (hd pl)" and "\<not> isSpace (last pl)"
    and "fst (scan (BeginValue, [ParseObjectValue]) pl) \<noteq> ScanError" and "list_all isSpace pre"
  shows "decode_request (pre @ request_text t p pl @ junk) = Some \<lparr>rType = t, rPriority = p, rPayload = pl\<rparr>"
  using decode_written [of t p pl pre junk] assms by (simp add: ascii_text_def member_value_def)

theorem request_decoded_witness:
  "decode_request ('' '' @ request_text TypeUserRegistered 5 ''{\"a\":[1]}'' @ ''xyz'') =
     Some \<lparr>rType = TypeUserRegistered, rPriority = 5, rPayload = ''{\"a\":[1]}''\<rparr>"
  by (rule request_decoded)
    (simp_all add: type_defs plain_char_def ord_def isSpace_def json_Valid_def scan_eof_def scan_unfold isDigit_def state0_def)

end
