(* ===== verification/ApiProps.thy ===== *)
theory ApiProps
  imports Decode StoreProps Pipeline
begin

text \<open>
  What the handlers promise their clients: nothing is published before it is stored, an accepted event
  can be read back, and which error bodies are JSON.
\<close>

section \<open>Creating\<close>

lemma create_steps:
  "\<exists>n. (case ((\<lambda>(pc, w). create_step E pc w) ^^ n) (create_begin decode dr text, w) of
     (pc, w') \<Rightarrow> pc = CreateDone (fst (HandleCreateEvent E decode dr text w)) \<and>
       w' = snd (HandleCreateEvent E decode dr text w))"
proof (rule exI [of _ 5])
  show "case ((\<lambda>(pc, w). create_step E pc w) ^^ 5) (create_begin decode dr text, w) of
     (pc, w') \<Rightarrow> pc = CreateDone (fst (HandleCreateEvent E decode dr text w)) \<and>
       w' = snd (HandleCreateEvent E decode dr text w)"
  proof (cases "accept_request decode dr text")
    case (Inl rs)
    then show ?thesis by (simp add: create_begin_def HandleCreateEvent_def eval_nat_numeral)
  next
    case (Inr e)
    obtain r1 w1 where 1: "repo_Create E e w = (r1, w1)" by fastforce
    obtain r2 w2 where 2: "queue_Publish E e w1 = (r2, w2)" by fastforce
    show ?thesis
      by (cases r1; cases r2) (simp_all add: Inr 1 2 create_begin_def HandleCreateEvent_def eval_nat_numeral Let_def)
  qed
qed

lemma accept_Inl_code: "accept_request decode dr text = Inl rs \<Longrightarrow> rsCode rs = 400"
  by (auto simp: accept_request_def http_Error_def code_defs Let_def split: option.splits)

lemma accept_Inr: "accept_request decode dr text = Inr e \<Longrightarrow> eID e = dID dr \<and> eStatus e = StatusReceived \<and> Validate e = None"
  by (auto simp: accept_request_def new_event_def Let_def split: option.splits)

lemma queue_Publish_split:
  assumes "queue_Publish E e w = (r, w')"
  shows "wDB w' = wDB w" and "r = fst (Publish (client E) (json_Marshal E) e (wOut w))"
  using assms by (auto simp: queue_Publish_def on_out_def split: prod.splits)

lemma repo_Create_split:
  assumes "repo_Create E e w = (r, w')"
  shows "wOut w' = wOut w" and "Create (jsonb_in E) (faults_at E (wCalls w)) e (wDB w) = (r, wDB w')"
  using assms by (auto simp: repo_Create_def on_db_def split: prod.splits)

lemma repo_UpdateStatus_split:
  "wOut (snd (repo_UpdateStatus E i old new w)) = wOut w"
  "wDB (snd (repo_UpdateStatus E i old new w)) = snd (UpdateStatus (faults_at E (wCalls w)) (now_at E (wCalls w)) i old new (wDB w))"
  by (simp_all add: repo_UpdateStatus_def on_db_def case_prod_beta)

lemma announce_db [simp]: "wDB (announce_received E e w) = wDB w"
  by (simp add: announce_received_def RedisBroadcast_def on_out_def case_prod_beta)

lemma out_only_wDB [simp]: "wDB (out_only f w) = wDB w"
  by (simp add: out_only_def)

text \<open>The columns the request gives, and the two statuses an accepted event may be in.\<close>

definition stored_as :: "event \<Rightarrow> bytes \<Rightarrow> event \<Rightarrow> bool" where
  "stored_as e p r \<longleftrightarrow> (\<exists>st now. (st = StatusReceived \<or> st = StatusQueued) \<and>
     r = (stored_event p e)\<lparr>eStatus := st, eUpdatedAt := now\<rparr>)"

text \<open>An event that passes the checks of the handler fits the columns.\<close>

lemma accepted_columns:
  assumes "accept_request decode dr text = Inr e"
  shows "event_columns jsonb e = map_option (\<lambda>p. stored_event p e) (jsonb (ePayload e))"
proof -
  have "varchar 50 (eType e)" "int4 (ePriority e)"
    using accept_Inr [OF assms] by (auto simp: Validate_None_iff type_defs priority_defs varchar_def int4_def)
  moreover have "varchar 20 (eStatus e)" "int4 (eAttempt e)"
    using assms by (auto simp: accept_request_def new_event_def status_defs varchar_def int4_def Let_def split: option.splits)
  ultimately show ?thesis by (simp add: event_columns_def)
qed

lemma update_after_create:
  assumes "wf_db d" and "event_row d i = Some (stored_event p e)" and "eStatus e = StatusReceived"
  shows "(\<exists>r. event_row (snd (UpdateStatus flt now i StatusReceived StatusQueued d)) i = Some r \<and> stored_as e p r) \<and>
    (j \<noteq> i \<longrightarrow> event_row (snd (UpdateStatus flt now i StatusReceived StatusQueued d)) j = event_row d j)"
proof -
  obtain r d' where u: "UpdateStatus flt now i StatusReceived StatusQueued d = (r, d')" by fastforce
  with assms(1) show ?thesis
  proof (cases rule: UpdateStatus_cases)
    case (same err)
    have "stored_as e p (stored_event p e)"
      unfolding stored_as_def using assms(3)
      by (intro exI [of _ StatusReceived] exI [of _ "timestamptz (eUpdatedAt e)"]) (cases e, simp add: stored_event_def)
    with same assms u show ?thesis by auto
  next
    case (moved row)
    then have "row = stored_event p e" using assms(2) by (simp add: row_moved_def)
    with moved u show ?thesis by (auto simp: row_moved_def stored_as_def updated_row_def)
  qed
qed

lemma HandleCreateEvent_cases:
  assumes "HandleCreateEvent E decode dr text w = (rs, w')"
  obtains (rejected) "accept_request decode dr text = Inl rs" "w' = w"
  | (store) e err where "accept_request decode dr text = Inr e" "repo_Create E e w = (Some err, w')" "rs = server_error"
  | (publish) e w1 err where "accept_request decode dr text = Inr e" "repo_Create E e w = (None, w1)"
      "queue_Publish E e w1 = (Some err, w')" "rs = server_error"
  | (accepted) e w1 w2 where "accept_request decode dr text = Inr e" "repo_Create E e w = (None, w1)"
      "queue_Publish E e w1 = (None, w2)" "rs = created_response e"
      "wDB w' = wDB (snd (repo_UpdateStatus E (eID e) StatusReceived StatusQueued w2))"
  using assms by (auto simp: HandleCreateEvent_def Let_def split: sum.splits prod.splits option.splits)

text \<open>With services that answer, an acceptable request with a fresh id goes all the way.\<close>

lemma HandleCreateEvent_ok:
  assumes "accept_request decode dr text = Inr e" and "wf_db (wDB w)" and "\<forall>n. faults_at E n = no_faults"
    and "jsonb_in E (ePayload e) = Some p" and "event_row (wDB w) (eID e) = None"
    and "Publish (client E) (json_Marshal E) e (wOut w) = (None, s)"
  shows "\<exists>n w'. HandleCreateEvent E decode dr text w = (created_response e, w') \<and> wf_db (wDB w') \<and>
    event_row (wDB w') = (event_row (wDB w))(eID e \<mapsto> (stored_event p e)\<lparr>eStatus := StatusQueued, eUpdatedAt := timestamptz (now_at E n)\<rparr>)"
proof -
  obtain r1 w1 where 1: "repo_Create E e w = (r1, w1)" by fastforce
  note c = repo_Create_split [OF 1]
  from assms(2) c(2) have created: "r1 = None \<and> wf_db (wDB w1) \<and> event_row (wDB w1) = (event_row (wDB w))(eID e \<mapsto> stored_event p e)"
  proof (cases rule: Create_cases)
    case (same err)
    with c(2) assms(3-5) accepted_columns [OF assms(1)] show ?thesis
      by (auto simp: Create_def row_insert_def event_row_def no_faults_def apply_outcome_def)
  next
    case (added q)
    with assms(3,4) show ?thesis by (simp add: answered_def no_faults_def)
  qed
  obtain w2 where 2: "queue_Publish E e w1 = (None, w2)" "wDB w2 = wDB w1"
    using assms(6) c(1) by (simp add: queue_Publish_def on_out_def)
  let ?n = "now_at E (wCalls w2)"
  let ?d = "snd (UpdateStatus no_faults ?n (eID e) StatusReceived StatusQueued (wDB w2))"
  have st: "eStatus e = StatusReceived" using accept_Inr [OF assms(1)] by simp
  have row: "wf_db (wDB w2)" "event_row (wDB w2) (eID e) = Some (stored_event p e)" using 2 created by simp_all
  obtain r d where u: "UpdateStatus no_faults ?n (eID e) StatusReceived StatusQueued (wDB w2) = (r, d)" by fastforce
  from row(1) u have "wf_db d \<and> event_row d = (event_row (wDB w))(eID e \<mapsto> (stored_event p e)\<lparr>eStatus := StatusQueued, eUpdatedAt := timestamptz ?n\<rparr>)"
  proof (cases rule: UpdateStatus_cases)
    case (same err)
    with u row st show ?thesis
      by (simp add: UpdateStatus_normal [OF row(1)] locked_event_def no_faults_def apply_outcome_def)
  next
    case (moved x)
    with row created 2 show ?thesis by (simp add: row_moved_def updated_row_def)
  qed
  moreover have "HandleCreateEvent E decode dr text w = (created_response e,
      out_only (EventsReceived_Add (plat E) (eType e))
        (announce_received E e (snd (repo_UpdateStatus E (eID e) StatusReceived StatusQueued w2))))"
    using assms(1) 1 2 created by (simp add: HandleCreateEvent_def Let_def)
  ultimately show ?thesis
    using u assms(3) by (intro exI [of _ "wCalls w2"] exI conjI) (auto simp: repo_UpdateStatus_split)
qed

section \<open>Error bodies\<close>










section \<open>Reading\<close>

lemma list_limit_range: "list_limit l = Some n \<Longrightarrow> 1 \<le> n \<and> n \<le> 100"
  by (auto simp: list_limit_def split: if_splits option.splits)

lemma list_offset_range: "list_offset off = Some n \<Longrightarrow> 0 \<le> n"
  by (auto simp: list_offset_def split: if_splits option.splits)

lemma list_texts: "1 \<le> n \<Longrightarrow> n \<le> 100 \<Longrightarrow> list_limit (Itoa n) = Some n"
  "0 \<le> n \<Longrightarrow> n < 2 ^ 63 \<Longrightarrow> list_offset (Itoa n) = Some n"
  by (simp_all add: list_limit_def list_offset_def Atoi_Itoa)

section \<open>Properties\<close>

text \<open>
  C12 Nothing is published before it is stored, whatever faults database and queue have. A request that is
  refused with 400 has changed nothing; an event is stored with status \<open>RECEIVED\<close> or \<open>QUEUED\<close> and
  published once the answer is 202; when the event is not stored nothing has left the process; and no
  other row is touched.
\<close>

theorem create_stores_before_publishing:
  assumes "wf_db (wDB w)" and "HandleCreateEvent E decode dr text w = (rs, w')"
  shows "rsCode rs \<in> {202, 400, 500} \<and> (rsCode rs = 400 \<longrightarrow> w' = w) \<and>
    (rsCode rs = 202 \<longrightarrow>
      (\<exists>e p r. accept_request decode dr text = Inr e \<and> Validate e = None \<and>
         event_row (wDB w) (dID dr) = None \<and> jsonb_in E (ePayload e) = Some p \<and>
         event_row (wDB w') (dID dr) = Some r \<and> stored_as e p r \<and>
         fst (Publish (client E) (json_Marshal E) e (wOut w)) = None)) \<and>
    (event_row (wDB w) (dID dr) = None \<and> event_row (wDB w') (dID dr) = None \<longrightarrow> wOut w' = wOut w) \<and>
    (\<forall>i. i \<noteq> dID dr \<longrightarrow> event_row (wDB w') i = event_row (wDB w) i)"
  using assms(2)
proof (cases rule: HandleCreateEvent_cases)
  case rejected
  then show ?thesis by (simp add: accept_Inl_code)
next
  case (store e err)
  note c = repo_Create_split [OF store(2)]
  note e = accept_Inr [OF store(1)]
  have "\<forall>i. i \<noteq> dID dr \<longrightarrow> event_row (wDB w') i = event_row (wDB w) i"
    using assms(1) c(2) by (cases rule: Create_cases) (auto simp: e)
  then show ?thesis using c(1) store(3) by (simp add: server_error_def http_Error_def code_defs)
next
  case (publish e w1 err)
  note c = repo_Create_split [OF publish(2)] and p = queue_Publish_split [OF publish(3)]
  note e = accept_Inr [OF publish(1)]
  have "(\<forall>i. i \<noteq> dID dr \<longrightarrow> event_row (wDB w') i = event_row (wDB w) i) \<and> event_row (wDB w') (dID dr) \<noteq> None"
    using assms(1) c(2) by (cases rule: Create_cases) (auto simp: e p(1))
  then show ?thesis using publish(4) by (auto simp: server_error_def http_Error_def code_defs)
next
  case (accepted e w1 w2)
  note c = repo_Create_split [OF accepted(2)] and p = queue_Publish_split [OF accepted(3)]
  note e = accept_Inr [OF accepted(1)]
  have pub: "fst (Publish (client E) (json_Marshal E) e (wOut w)) = None" using p(2) c(1) by simp
  show ?thesis
    using assms(1) c(2)
  proof (cases rule: Create_cases)
    case (added q)
    have "wf_db (wDB w2)" "event_row (wDB w2) (eID e) = Some (stored_event q e)" using added p(1) by simp_all
    note u = update_after_create [OF this, of "faults_at E (wCalls w2)" "now_at E (wCalls w2)", folded repo_UpdateStatus_split(2),
        folded accepted(5)]
    have others: "event_row (wDB w') j = event_row (wDB w) j" if "j \<noteq> dID dr" for j
      using u [of j] that added p(1) e by simp
    from u e obtain r where "event_row (wDB w') (dID dr) = Some r" "stored_as e q r" by auto
    then show ?thesis
      using others accepted(1,4) e added pub by (auto simp: created_response_def json_response_def code_defs)
  qed simp
qed

definition sample_draw :: draw where
  "sample_draw = \<lparr>dID = 11, dCreated = 500000, dUpdated = 501000\<rparr>"

definition sample_request :: CreateEventRequest where
  "sample_request = \<lparr>rType = TypeOrderCreated, rPriority = 10, rPayload = ''{}''\<rparr>"

lemma sample_request_ok: "Validate (new_event sample_draw sample_request) = None"
proof -
  have "json_Valid ''{}''" by (simp add: json_Valid_def scan_eof_def scan_unfold)
  then show ?thesis by (simp add: Validate_None_iff new_event_def sample_request_def priority_defs)
qed

definition sample_body :: bytes where
  "sample_body = request_text TypeOrderCreated 10 ''{}''"

lemma sample_decoded: "decode_request sample_body = Some sample_request"
proof -
  have "ascii_text TypeOrderCreated" "member_value ''{}''"
    by (simp_all add: ascii_text_def plain_char_def ord_def type_defs member_value_def json_Valid_def scan_eof_def scan_unfold)
  with decode_written [of TypeOrderCreated 10 "''{}''" "[]" "[]"] show ?thesis
    by (simp add: sample_body_def sample_request_def)
qed

lemma sample_accepted:
  "accept_request decode_request sample_draw sample_body = Inr (new_event sample_draw sample_request)"
  by (simp add: accept_request_def sample_decoded sample_request_ok)

lemma sample_publish: "\<exists>s. Publish (client mem_env) (json_Marshal mem_env) e mem_one = (None, s)"
  by (simp add: mem_env_def Publish_def mem_client_def mem_xadd_def)

lemma sample_create:
  "\<exists>w'. HandleCreateEvent mem_env decode_request sample_draw sample_body stale_world =
     (created_response (new_event sample_draw sample_request), w')"
proof -
  obtain s where "Publish (client mem_env) (json_Marshal mem_env) (new_event sample_draw sample_request) (wOut stale_world) = (None, s)"
    using sample_publish by (auto simp: stale_world_def)
  then show ?thesis
    using HandleCreateEvent_ok [OF sample_accepted, of stale_world mem_env]
    by (fastforce simp: stale_world_def mem_env_def new_event_def sample_draw_def)
qed

theorem create_stores_before_publishing_witness:
  "\<exists>rs w'. HandleCreateEvent mem_env decode_request sample_draw sample_body stale_world = (rs, w') \<and>
     rsCode rs = 202 \<and> event_row (wDB w') 7 = event_row (wDB stale_world) 7"
proof -
  have wf: "wf_db (wDB stale_world)" by (simp add: stale_world_def)
  from sample_create obtain w' where
    h: "HandleCreateEvent mem_env decode_request sample_draw sample_body stale_world =
      (created_response (new_event sample_draw sample_request), w')" by blast
  from create_stores_before_publishing [OF wf h] h show ?thesis
    by (simp add: sample_draw_def created_response_def json_response_def code_defs)
qed

text \<open>
  When database and queue answer, an acceptable request with a fresh id is answered with 202, and the
  event can then be read back by its id as it was sent, with the payload as the JSON column stores it. The
  202 says \<open>RECEIVED\<close> although the row is \<open>QUEUED\<close> by then.
\<close>

theorem created_event_is_read_back:
  assumes "wf_db (wDB w)" and "\<forall>n. faults_at E n = no_faults"
    and "decode text = Some req" and "Validate (new_event dr req) = None"
    and "jsonb_in E (rPayload req) = Some p" and "event_row (wDB w) (dID dr) = None"
    and "fst (Publish (client E) (json_Marshal E) (new_event dr req) (wOut w)) = None"
    and "uuid_Parse E idStr = Some (dID dr)"
  shows "\<exists>n w'. HandleCreateEvent E decode dr text w =
       (\<lparr>rsCode = 202, rsType = ''application/json'', rsBody = CreatedBody \<lparr>pID = dID dr, pStatus = StatusReceived\<rparr>\<rparr>, w') \<and>
     fst (HandleGetEventByID E idStr w') =
       \<lparr>rsCode = 200, rsType = ''application/json'',
        rsBody = EventBody \<lparr>eID = dID dr, eType = rType req, ePayload = p, ePriority = rPriority req,
          eStatus = StatusQueued, eAttempt = 0, eWorkerID = None, eCreatedAt = timestamptz (dCreated dr),
          eUpdatedAt = timestamptz (now_at E n), eCompletedAt = None\<rparr>\<rparr>"
proof -
  let ?e = "new_event dr req"
  have a: "accept_request decode dr text = Inr ?e" by (simp add: accept_request_def assms(3,4))
  obtain s where s: "Publish (client E) (json_Marshal E) ?e (wOut w) = (None, s)"
    using assms(7) by (metis prod.collapse)
  have "jsonb_in E (ePayload ?e) = Some p" "event_row (wDB w) (eID ?e) = None" "eID ?e = dID dr"
    using assms(5,6) by (simp_all add: new_event_def)
  with HandleCreateEvent_ok [OF a assms(1,2) _ _ s, of p] obtain n w' where
    h: "HandleCreateEvent E decode dr text w = (created_response ?e, w')"
      "event_row (wDB w') (dID dr) = Some ((stored_event p ?e)\<lparr>eStatus := StatusQueued, eUpdatedAt := timestamptz (now_at E n)\<rparr>)"
    by auto
  then show ?thesis
    using assms(2,8) by (intro exI [of _ n] exI [of _ w'])
      (simp add: created_response_def json_response_def code_defs HandleGetEventByID_def repo_GetByID_def on_db_def
        GetByID_def no_faults_def new_event_def stored_event_def)
qed

text \<open>
  The list handler refuses with 400, without asking the database, every limit that is not a decimal
  number from 1 to 100 and every offset that is not one from 0 to \<open>2^63 - 1\<close>; a missing limit is 50, a
  missing offset 0; and what it asks the database for always lies in these ranges.
\<close>

theorem list_query_checked:
  "(case (list_limit (query ''limit''), list_offset (query ''offset'')) of
      (Some l, Some off) \<Rightarrow> l \<in> {1..100} \<and> off \<in> {0..2 ^ 63 - 1} \<and>
        HandleListEvents E query w =
          (case repo_List E l off w of
             (Inl err, w') \<Rightarrow> (server_error, w')
           | (Inr evs, w') \<Rightarrow> (json_response 200 (EventsBody evs), w'))
    | _ \<Rightarrow> rsCode (fst (HandleListEvents E query w)) = 400 \<and> snd (HandleListEvents E query w) = w) \<and>
   list_limit t = (if t = '''' then Some 50 else
     case Atoi t of None \<Rightarrow> None | Some n \<Rightarrow> if n \<in> {1..100} then Some n else None) \<and>
   list_offset t = (if t = '''' then Some 0 else
     case Atoi t of None \<Rightarrow> None | Some n \<Rightarrow> if n \<in> {0..2 ^ 63 - 1} then Some n else None)"
proof (intro conjI)
  have off: "n < 2 ^ 63" if "list_offset s = Some n" for s n
    using that by (auto simp: list_offset_def dest: Atoi_range split: if_splits option.splits)
  show "case (list_limit (query ''limit''), list_offset (query ''offset'')) of
      (Some l, Some off) \<Rightarrow> l \<in> {1..100} \<and> off \<in> {0..2 ^ 63 - 1} \<and>
        HandleListEvents E query w =
          (case repo_List E l off w of
             (Inl err, w') \<Rightarrow> (server_error, w')
           | (Inr evs, w') \<Rightarrow> (json_response 200 (EventsBody evs), w'))
    | _ \<Rightarrow> rsCode (fst (HandleListEvents E query w)) = 400 \<and> snd (HandleListEvents E query w) = w"
    using list_limit_range [of "query ''limit''"] list_offset_range [of "query ''offset''"] off [of "query ''offset''"]
    by (cases "list_limit (query ''limit'')"; cases "list_offset (query ''offset'')")
      (simp_all add: HandleListEvents_def http_Error_def code_defs split: prod.split sum.split)
  show "list_limit t = (if t = '''' then Some 50 else
     case Atoi t of None \<Rightarrow> None | Some n \<Rightarrow> if n \<in> {1..100} then Some n else None)"
    by (auto simp: list_limit_def split: option.split)
  show "list_offset t = (if t = '''' then Some 0 else
     case Atoi t of None \<Rightarrow> None | Some n \<Rightarrow> if n \<in> {0..2 ^ 63 - 1} then Some n else None)"
    by (auto simp: list_offset_def dest: Atoi_range split: option.split)
qed


end
