(* ===== verification/System.thy ===== *)
theory System
  imports SchedulerProps ApiProps
begin

text \<open>
  The whole program: one database and one Redis server, any number of workers, the scheduler and any
  number of requests in flight. A step of the system is one step of one of them, so a run is an
  interleaving of all processes.
\<close>

section \<open>The system\<close>

record 'r system =
  sysWorld :: "'r world"
  sysWorkers :: "(worker \<times> worker_state) list"
  sysSched :: sched_pc
  sysCreates :: "create_pc list"

text \<open>
  \<open>SysRequest\<close> is the arrival of a request to create an event, \<open>SysCreate\<close> a step of its handler;
  \<open>SysOutside\<close> is what time and other programs do to the Redis server, like the expiry of a key.
\<close>

datatype 'r sys_act =
    SysWorker nat "unit act"
  | SysSched bool bool
  | SysRequest draw bytes
  | SysCreate nat
  | SysGet string
  | SysList "string \<Rightarrow> string"
  | SysOutside "'r \<Rightarrow> 'r"

fun sys_step ::
  "('m, 'r) env \<Rightarrow> 'r world processor \<Rightarrow> (bytes \<Rightarrow> CreateEventRequest option) \<Rightarrow> 'r sys_act \<Rightarrow> 'r system \<Rightarrow> 'r system" where
  "sys_step E proc decode (SysWorker i a) S =
     (if i < length (sysWorkers S)
      then case sysWorkers S ! i of
        (p, s) \<Rightarrow>
          (case act_step (worker_main_deps E proc) p (map_act (\<lambda>_. sysWorld S) a) s (sysWorld S) of
             (s', w') \<Rightarrow> S\<lparr>sysWorld := w', sysWorkers := (sysWorkers S)[i := (p, s')]\<rparr>)
      else S)"
| "sys_step E proc decode (SysSched tick fin) S =
     (case sched_step E tick fin (sysSched S) (sysWorld S) of
        None \<Rightarrow> S
      | Some (pc, w') \<Rightarrow> S\<lparr>sysWorld := w', sysSched := pc\<rparr>)"
| "sys_step E proc decode (SysRequest dr text) S =
     S\<lparr>sysCreates := sysCreates S @ [create_begin decode dr text]\<rparr>"
| "sys_step E proc decode (SysCreate i) S =
     (if i < length (sysCreates S)
      then case create_step E (sysCreates S ! i) (sysWorld S) of
        (pc, w') \<Rightarrow> S\<lparr>sysWorld := w', sysCreates := (sysCreates S)[i := pc]\<rparr>
      else S)"
| "sys_step E proc decode (SysGet idStr) S = S\<lparr>sysWorld := snd (HandleGetEventByID E idStr (sysWorld S))\<rparr>"
| "sys_step E proc decode (SysList query) S = S\<lparr>sysWorld := snd (HandleListEvents E query (sysWorld S))\<rparr>"
| "sys_step E proc decode (SysOutside f) S = S\<lparr>sysWorld := out_only f (sysWorld S)\<rparr>"

fun run_sys ::
  "('m, 'r) env \<Rightarrow> 'r world processor \<Rightarrow> (bytes \<Rightarrow> CreateEventRequest option) \<Rightarrow> 'r sys_act list \<Rightarrow> 'r system \<Rightarrow> 'r system" where
  "run_sys E proc decode [] S = S"
| "run_sys E proc decode (a # as) S = run_sys E proc decode as (sys_step E proc decode a S)"

text \<open>The jobs its retries hold.\<close>

fun retry_job :: "retry_pc \<Rightarrow> job" where
  "retry_job (RetryWait j delay) = j"
| "retry_job (RetryRequeue j) = j"
| "retry_job (RetryUpdate j) = j"

section \<open>Invariants of the calls\<close>

text \<open>
  A predicate \<open>inv\<close> of the world that the calls of a worker keep as long as the events they are about
  are \<open>good\<close>, and that makes the queue hand out good events only.
\<close>

locale worker_calls =
  fixes d :: "'w worker_deps"
    and inv :: "'w \<Rightarrow> bool"
    and good :: "uuid \<Rightarrow> bool"
    and m :: int
  assumes assign: "inv w \<Longrightarrow> good i \<Longrightarrow> inv (snd (updater_AssignEvent d i name StatusQueued StatusProcessing w))"
    and finalize: "inv w \<Longrightarrow> good i \<Longrightarrow> inv (snd (updater_FinalizeEvent d i h w))"
    and recorded: "inv w \<Longrightarrow> good i \<Longrightarrow> inv (snd (recorder d i m w))"
    and requeued: "inv w \<Longrightarrow> good i \<Longrightarrow> inv (snd (updater_UpdateStatus d i StatusRetrying StatusQueued w))"
    and ack: "inv w \<Longrightarrow> inv (snd (acker d j w))"
    and retry: "inv w \<Longrightarrow> good (eID (jEvent j)) \<Longrightarrow> inv (snd (retrier d j w))"
    and consume: "inv w \<Longrightarrow> consumer d fin grp name w = (c, w') \<Longrightarrow>
      inv w' \<and> (\<forall>j. c = Some (Inr j) \<longrightarrow> good (eID (jEvent j)))"
    and process: "inv w \<Longrightarrow> inv (snd (processor d e w))"
    and send: "inv w \<Longrightarrow> broadcaster d = Some f \<Longrightarrow> inv (f msg w)"
    and ping: "inv w \<Longrightarrow> inv (snd (heartbeater d name ttl w))"
    and count_processed: "inv w \<Longrightarrow> inv (EventsProcessed_Inc d t w)"
    and count_failed: "inv w \<Longrightarrow> inv (EventsFailed_Inc d t w)"
    and observe: "inv w \<Longrightarrow> inv (ProcessingDuration_Observe d t dur w)"
    and random: "inv w \<Longrightarrow> inv (snd (rand_Float64 d w))"
begin

definition jobs_good :: "worker_state \<Rightarrow> bool" where
  "jobs_good s \<longleftrightarrow> (\<forall>j. job_at (loop s) = Some j \<longrightarrow> good (eID (jEvent j))) \<and>
     (\<forall>r \<in> set (retries s). good (eID (jEvent (retry_job r))))"

lemma Broadcast_inv: "inv w \<Longrightarrow> inv (Broadcast d msg w)"
  using send by (auto simp: Broadcast_def split: option.split)

lemma pair_inv: "inv (snd x) \<Longrightarrow> x = (r, w') \<Longrightarrow> inv w'"
  by simp

lemma loop_step_inv:
  assumes "inv w" and "jobs_good s" and "w_maxAttempts p = m" and "loop_step d p timer s w = Some (s', w')"
  shows "inv w' \<and> jobs_good s'"
proof (cases "loop s")
  case AtConsume
  obtain r v where c: "consumer d (ctx_done s) (w_group p) (w_id p) w = (r, v)" by fastforce
  with AtConsume assms(2,4) consume [OF assms(1) c] show ?thesis
    by (cases r) (auto simp: loop_step_def goto_def jobs_good_def split: sum.splits if_splits)
next
  case (AtAssign j)
  obtain r v where c: "updater_AssignEvent d (eID (jEvent j)) (w_id p) StatusQueued StatusProcessing w = (r, v)" by fastforce
  have "inv v" using assign [OF assms(1), of "eID (jEvent j)" "w_id p"] c AtAssign assms(2) by (simp add: jobs_good_def)
  with c AtAssign assms(2,4) show ?thesis
    by (cases r) (auto simp: loop_step_def goto_def jobs_good_def split: if_splits)
next
  case (AtProcess j t)
  obtain r v where c: "processor d (jEvent j) w = (r, v)" by fastforce
  with process [OF assms(1), of "jEvent j"] AtProcess assms(2,4) show ?thesis
    by (cases r) (auto simp: loop_step_def goto_def jobs_good_def)
next
  case (AtFinalize j t)
  obtain r v where c: "updater_FinalizeEvent d (eID (jEvent j)) resultHash w = (r, v)" by fastforce
  have "inv v" using finalize [OF assms(1), of "eID (jEvent j)" resultHash] c AtFinalize assms(2) by (simp add: jobs_good_def)
  with c AtFinalize assms(2,4) show ?thesis
    by (cases r) (auto simp: loop_step_def goto_def jobs_good_def split: if_splits)
next
  case (AtRecordFailure j)
  obtain st r v where c: "recorder d (eID (jEvent j)) (w_maxAttempts p) w = ((st, r), v)" by (metis surj_pair)
  have "inv v" using recorded [OF assms(1), of "eID (jEvent j)"] c AtRecordFailure assms(2,3) by (simp add: jobs_good_def)
  with c AtRecordFailure assms(2,4) show ?thesis
    by (cases r) (auto simp: loop_step_def goto_def jobs_good_def split: if_splits)
next
  case (AtSchedule j)
  obtain u v where c: "rand_Float64 d w = (u, v)" by fastforce
  with random [OF assms(1)] AtSchedule assms(2,4) show ?thesis
    by (auto simp: loop_step_def goto_def jobs_good_def schedule_retry_def)
next
  case (AtReportDone j t)
  with assms show ?thesis
    by (auto simp: loop_step_def goto_def jobs_good_def report_done_def Let_def
        intro: Broadcast_inv observe count_processed)
qed (use assms in \<open>auto simp: loop_step_def goto_def jobs_good_def report_failed_def intro: Broadcast_inv ack count_failed
  split: if_splits\<close>)

lemma remove_nth_subset: "set (remove_nth i xs) \<subseteq> set xs"
  by (auto simp: remove_nth_def dest: in_set_takeD in_set_dropD)

lemma retry_step_inv:
  assumes "inv w" and "jobs_good s" and "retry_step d timer i s w = Some (s', w')"
  shows "inv w' \<and> jobs_good s'"
proof -
  have i: "i < length (retries s)" using assms(3) by (simp add: retry_step_def split: if_splits)
  then have g: "good (eID (jEvent (retry_job (retries s ! i))))" using assms(2) by (auto simp: jobs_good_def)
  have exit: "jobs_good (retry_exit i s)"
    using assms(2) remove_nth_subset [of i "retries s"] by (auto simp: jobs_good_def retry_exit_def)
  have upd: "jobs_good (s\<lparr>retries := (retries s)[i := r]\<rparr>)" if "good (eID (jEvent (retry_job r)))" for r
    using assms(2) that by (auto simp: jobs_good_def dest: set_update_subset_insert [THEN subsetD])
  show ?thesis
  proof (cases "retries s ! i")
    case (RetryWait j delay)
    with assms i g exit upd show ?thesis by (auto simp: retry_step_def split: if_splits)
  next
    case (RetryRequeue j)
    obtain q v where c: "retrier d j w = (q, v)" by fastforce
    with retry [OF assms(1), of j] RetryRequeue g have "inv v" by simp
    with c RetryRequeue assms i g exit upd show ?thesis by (cases q) (auto simp: retry_step_def)
  next
    case (RetryUpdate j)
    with assms i g exit requeued [OF assms(1), of "eID (jEvent j)"] show ?thesis by (auto simp: retry_step_def)
  qed
qed

lemma heart_step_inv:
  assumes "inv w" and "jobs_good s" and "heart_step d p tick s w = Some (s', w')"
  shows "inv w' \<and> jobs_good s'"
  using assms ping [OF assms(1), of "w_id p" "w_ttl p"]
  by (cases "heart s") (auto simp: heart_step_def jobs_good_def split: if_splits)

lemma act_step_inv:
  assumes "inv w" and "jobs_good s" and "w_maxAttempts p = m" and "act_step d p (map_act (\<lambda>_. w) a) s w = (s', w')"
  shows "inv w' \<and> jobs_good s'"
proof (cases a)
  case (ActLoop timer)
  with assms show ?thesis
    by (cases "loop_step d p timer s w") (auto simp: apply_opt_def dest: loop_step_inv [OF assms(1-3)])
next
  case (ActHeart tick)
  with assms show ?thesis
    by (cases "heart_step d p tick s w") (auto simp: apply_opt_def dest: heart_step_inv [OF assms(1,2)])
next
  case (ActRetry i timer)
  with assms show ?thesis
    by (cases "retry_step d timer i s w") (auto simp: apply_opt_def dest: retry_step_inv [OF assms(1,2)])
qed (use assms in \<open>auto simp: Start_def Let_def jobs_good_def stop_begin_def stop_wake_def stop_finish_def apply_opt_def
  intro: Broadcast_inv split: if_splits option.splits\<close>)

end

end
