(* ===== verification/SystemProps.thy ===== *)
theory SystemProps
  imports System
begin

text \<open>
  Invariants of the whole system. What every call keeps, every interleaving of the processes keeps; the
  first instance says that all processes together only make the operations \<open>program_op\<close> of the
  repository, so its theorems hold for the system.
\<close>

section \<open>Invariants of every interleaving\<close>

locale system_calls = worker_calls "worker_main_deps E proc" inv good m
  for E :: "('m, 'r) env" and proc :: "'r world processor" and inv :: "'r world \<Rightarrow> bool"
    and good :: "uuid \<Rightarrow> bool" and m :: int +
  assumes query: "inv w \<Longrightarrow> st = StatusProcessing \<or> st = StatusRetrying \<Longrightarrow> query_stale E st age w = (q, w') \<Longrightarrow>
      inv w' \<and> (\<forall>evs. q = Inr evs \<longrightarrow> (\<forall>e \<in> set evs. good (eID e)))"
    and check: "inv w \<Longrightarrow> inv (snd (Exists_heartbeat E wid w))"
    and publish: "inv w \<Longrightarrow> good (eID e) \<Longrightarrow> inv (snd (queue_Publish E e w))"
    and reset: "inv w \<Longrightarrow> good (eID e) \<Longrightarrow> st = StatusProcessing \<or> st = StatusRetrying \<Longrightarrow> inv (snd (recover_reset E st e w))"
    and active: "inv w \<Longrightarrow> inv (update_active E w)"
    and depth: "inv w \<Longrightarrow> inv (update_depth E stream w)"
    and store: "inv w \<Longrightarrow> good (eID e) \<Longrightarrow> eStatus e = StatusReceived \<Longrightarrow> eAttempt e = 0 \<Longrightarrow> inv (snd (repo_Create E e w))"
    and queued: "inv w \<Longrightarrow> good i \<Longrightarrow> inv (snd (repo_UpdateStatus E i StatusReceived StatusQueued w))"
    and announce: "inv w \<Longrightarrow> inv (announce_received E e w)"
    and count_received: "inv w \<Longrightarrow> inv (out_only (EventsReceived_Add (plat E) t) w)"
    and lookup: "inv w \<Longrightarrow> inv (snd (repo_GetByID E i w))"
    and page: "inv w \<Longrightarrow> inv (snd (repo_List E l off w))"
begin

text \<open>What the scheduler and the handlers have in hand is good too.\<close>

fun sched_good :: "sched_pc \<Rightarrow> bool" where
  "sched_good (SchedQuery st age) \<longleftrightarrow> st = StatusProcessing \<or> st = StatusRetrying"
| "sched_good (SchedNext st es dead) \<longleftrightarrow>
     (st = StatusProcessing \<or> st = StatusRetrying) \<and> (\<forall>e \<in> set es. good (eID e))"
| "sched_good (SchedPublish st e es dead) \<longleftrightarrow>
     (st = StatusProcessing \<or> st = StatusRetrying) \<and> (\<forall>e \<in> set (e # es). good (eID e))"
| "sched_good (SchedReset st e es dead) \<longleftrightarrow>
     (st = StatusProcessing \<or> st = StatusRetrying) \<and> (\<forall>e \<in> set (e # es). good (eID e))"
| "sched_good _ \<longleftrightarrow> True"

fun create_good :: "create_pc \<Rightarrow> bool" where
  "create_good (CreateStore e) \<longleftrightarrow> good (eID e) \<and> eStatus e = StatusReceived \<and> eAttempt e = 0"
| "create_good (CreatePublish e) \<longleftrightarrow> good (eID e)"
| "create_good (CreateQueue e) \<longleftrightarrow> good (eID e)"
| "create_good _ \<longleftrightarrow> True"

definition sys_inv :: "'r system \<Rightarrow> bool" where
  "sys_inv S \<longleftrightarrow> inv (sysWorld S) \<and> list_all (\<lambda>(p, s). w_maxAttempts p = m \<and> jobs_good s) (sysWorkers S) \<and>
     sched_good (sysSched S) \<and> list_all create_good (sysCreates S)"

lemma needs_recovery_inv: "inv w \<Longrightarrow> needs_recovery E st e dead w = (rec, dead', w') \<Longrightarrow> inv w'"
  using check [of w] by (auto simp: needs_recovery_def Let_def split: if_splits option.splits prod.splits sum.splits)
    (metis snd_conv)+

lemma sched_step_inv:
  assumes "inv w" and "sched_good pc" and "sched_step E tick fin pc w = Some (pc', w')"
  shows "inv w' \<and> sched_good pc'"
proof (cases pc)
  case (SchedQuery st age)
  obtain q v where q: "query_stale E st age w = (q, v)" by fastforce
  have "st = StatusProcessing \<or> st = StatusRetrying" using assms(2) SchedQuery by simp
  from query [OF assms(1) this q] q SchedQuery assms(2,3) show ?thesis
    by (cases q) (auto simp: sched_after_def split: if_splits)
next
  case (SchedNext st es dead)
  show ?thesis
  proof (cases es)
    case Nil
    with SchedNext assms show ?thesis by (auto simp: sched_after_def)
  next
    case (Cons e rest)
    obtain rec dead' v where n: "needs_recovery E st e dead w = (rec, dead', v)" by (metis surj_pair)
    from needs_recovery_inv [OF assms(1) n] n Cons SchedNext assms(2,3) show ?thesis by (auto split: if_splits)
  qed
next
  case (SchedPublish st e es dead)
  obtain r v where p: "recover_publish E e w = (r, v)" by fastforce
  have "inv v" using publish [OF assms(1), of "e\<lparr>eStatus := StatusQueued\<rparr>"] p SchedPublish assms(2)
    by (simp add: recover_publish_def)
  with p SchedPublish assms(2,3) show ?thesis by (cases r) auto
next
  case (SchedReset st e es dead)
  with assms reset [OF assms(1), of e st] show ?thesis by auto
next
  case (SchedDepth streams)
  with assms show ?thesis by (cases streams) (auto intro: depth)
qed (use assms in \<open>auto intro: active split: if_splits\<close>)

lemma create_step_inv:
  assumes "inv w" and "create_good pc" and "create_step E pc w = (pc', w')"
  shows "inv w' \<and> create_good pc'"
proof (cases pc)
  case (CreateStore e)
  obtain r v where c: "repo_Create E e w = (r, v)" by fastforce
  with store [OF assms(1), of e] CreateStore assms(2,3) show ?thesis by (cases r) auto
next
  case (CreatePublish e)
  obtain r v where c: "queue_Publish E e w = (r, v)" by fastforce
  with publish [OF assms(1), of e] CreatePublish assms(2,3) show ?thesis by (cases r) auto
next
  case (CreateQueue e)
  with queued [OF assms(1), of "eID e"] assms(2,3) show ?thesis by auto
qed (use assms in \<open>auto intro: announce count_received\<close>)

lemma create_begin_good: "good (dID dr) \<Longrightarrow> create_good (create_begin decode dr text)"
  by (auto simp: create_begin_def accept_request_def new_event_def Let_def split: sum.split option.splits)

lemma reads_inv:
  assumes "inv w"
  shows "inv (snd (HandleGetEventByID E idStr w))" and "inv (snd (HandleListEvents E q w))"
proof -
  have g: "inv w'" if "repo_GetByID E i w = (r, w')" for i r w' using lookup [OF assms, of i] that by simp
  have p: "inv w'" if "repo_List E l off w = (r, w')" for l off r w' using page [OF assms, of l off] that by simp
  show "inv (snd (HandleGetEventByID E idStr w))"
    using assms by (auto simp: HandleGetEventByID_def dest: g split: option.split prod.split sum.split)
  show "inv (snd (HandleListEvents E q w))"
    using assms by (auto simp: HandleListEvents_def dest: p split: option.split prod.split sum.split)
qed

text \<open>What an action must not do: reuse the id of a bad event, or break the invariant from outside.\<close>

fun act_good :: "'r sys_act \<Rightarrow> bool" where
  "act_good (SysRequest dr text) \<longleftrightarrow> good (dID dr)"
| "act_good (SysOutside f) \<longleftrightarrow> (\<forall>w. inv w \<longrightarrow> inv (out_only f w))"
| "act_good _ \<longleftrightarrow> True"

lemma sys_step_inv:
  assumes "sys_inv S" and "act_good a"
  shows "sys_inv (sys_step E proc decode a S)"
proof (cases a)
  case (SysWorker i x)
  show ?thesis
  proof (cases "i < length (sysWorkers S)")
    case True
    obtain p s where ps: "sysWorkers S ! i = (p, s)" by fastforce
    with True assms(1) have ok: "w_maxAttempts p = m" "jobs_good s" "inv (sysWorld S)"
      by (auto simp: sys_inv_def list_all_length)
    obtain s' w' where st: "act_step (worker_main_deps E proc) p (map_act (\<lambda>_. sysWorld S) x) s (sysWorld S) = (s', w')"
      by fastforce
    from act_step_inv [OF ok(3,2,1) st] ps True SysWorker st assms(1) ok(1) show ?thesis
      by (auto simp: sys_inv_def list_all_length nth_list_update)
  qed (use SysWorker assms in simp)
next
  case (SysSched tick fin)
  with assms sched_step_inv [of "sysWorld S" "sysSched S" tick fin] show ?thesis
    by (auto simp: sys_inv_def split: option.split)
next
  case (SysRequest dr b)
  with assms create_begin_good [of dr decode b] show ?thesis by (simp add: sys_inv_def)
next
  case (SysCreate i)
  show ?thesis
  proof (cases "i < length (sysCreates S)")
    case True
    obtain pc w' where c: "create_step E (sysCreates S ! i) (sysWorld S) = (pc, w')" by fastforce
    have "inv (sysWorld S)" "create_good (sysCreates S ! i)" using assms(1) True by (auto simp: sys_inv_def list_all_length)
    from create_step_inv [OF this c] True c SysCreate assms(1) show ?thesis
      by (auto simp: sys_inv_def list_all_length nth_list_update)
  qed (use SysCreate assms in simp)
qed (use assms reads_inv in \<open>auto simp: sys_inv_def\<close>)

lemma run_sys_inv: "sys_inv S \<Longrightarrow> list_all act_good as \<Longrightarrow> sys_inv (run_sys E proc decode as S)"
  by (induction as arbitrary: S) (auto intro: sys_step_inv)

end

section \<open>All processes together are a run of the repository\<close>

definition reached :: "('m, 'r) env \<Rightarrow> int \<Rightarrow> db \<Rightarrow> 'r world \<Rightarrow> bool" where
  "reached E m d w \<longleftrightarrow>
     (\<exists>xs. list_all (program_op m) xs \<and> wDB w = exec_ops (jsonb_in E) (uuid_Parse E) xs d)"

lemma reached_same: "reached E m d w \<Longrightarrow> wDB w' = wDB w \<Longrightarrow> reached E m d w'"
  by (simp add: reached_def)

lemma reached_op:
  assumes "reached E m d w" and "program_op m x" and "wDB w' = exec_op (jsonb_in E) (uuid_Parse E) x (wDB w)"
  shows "reached E m d w'"
proof -
  from assms(1) obtain xs where "list_all (program_op m) xs" "wDB w = exec_ops (jsonb_in E) (uuid_Parse E) xs d"
    by (auto simp: reached_def)
  with assms(2,3) show ?thesis
    unfolding reached_def by (intro exI [of _ "xs @ [x]"]) (simp add: exec_ops_def)
qed

lemma reached_db:
  assumes "reached E m d w" and "program_op m x"
    and "snd (f (faults_at E (wCalls w)) (now_at E (wCalls w)) (wDB w)) = exec_op (jsonb_in E) (uuid_Parse E) x (wDB w)"
  shows "reached E m d (snd (on_db E f w))"
  by (rule reached_op [OF assms(1,2)]) (simp add: on_db_db assms(3))

lemma reached_read:
  assumes "reached E m d w" and "\<And>flt now x. snd (f flt now x) = x"
  shows "reached E m d (snd (on_db E f w))"
  by (rule reached_same [OF assms(1)]) (simp add: on_db_db assms(2))

lemma reached_out: "reached E m d w \<Longrightarrow> reached E m d (snd (on_out f w))"
  by (erule reached_same) simp

lemma reached_repo:
  assumes "reached E m d w"
  shows "reached E m d (snd (repo_AssignEvent E i name StatusQueued StatusProcessing w))"
    and "reached E m d (snd (recover_reset E st e w))"
    and "reached E m d (snd (repo_FinalizeEvent E i h w))"
    and "reached E m d (snd (repo_RecordFailure E i m w))"
    and "reached E m d (snd (repo_UpdateStatus E i old StatusQueued w))"
    and "eStatus e = StatusReceived \<Longrightarrow> eAttempt e = 0 \<Longrightarrow> reached E m d (snd (repo_Create E e w))"
  unfolding repo_AssignEvent_def recover_reset_def repo_FinalizeEvent_def repo_RecordFailure_def repo_UpdateStatus_def
    repo_Create_def
  by (rule reached_db [OF assms, of "OpAssignEvent (faults_at E (wCalls w)) (now_at E (wCalls w)) i name StatusQueued StatusProcessing"],
      simp, simp,
      rule reached_db [OF assms, of "OpAssignEvent (faults_at E (wCalls w)) (now_at E (wCalls w)) (eID e) '''' st StatusQueued"],
      simp, simp,
      rule reached_db [OF assms, of "OpFinalizeEvent (faults_at E (wCalls w)) (now_at E (wCalls w)) i h"], simp, simp,
      rule reached_db [OF assms, of "OpRecordFailure (faults_at E (wCalls w)) (now_at E (wCalls w)) i m"], simp, simp,
      rule reached_db [OF assms, of "OpUpdateStatus (faults_at E (wCalls w)) (now_at E (wCalls w)) i old StatusQueued"], simp, simp,
      rule reached_db [OF assms, of "OpCreate (faults_at E (wCalls w)) e"], simp, simp)

lemma reached_reads:
  assumes "reached E m d w"
  shows "reached E m d (snd (repo_GetByID E i w))" and "reached E m d (snd (repo_List E l off w))"
    and "reached E m d (snd (query_stale E st age w))"
  by (simp_all add: repo_GetByID_def repo_List_def query_stale_def repo_GetStaleEvents_def reached_read [OF assms])

lemma reached_queue:
  assumes "reached E m d w"
  shows "reached E m d (snd (queue_Publish E e w))" and "reached E m d (snd (queue_Ack E j w))"
    and "reached E m d (snd (queue_Retry E j w))" and "reached E m d (snd (queue_Consume E fin g name w))"
    and "reached E m d (RedisBroadcast E msg w)" and "reached E m d (snd (Exists_heartbeat E wid w))"
    and "reached E m d (announce_received E ev w)"
  by (simp_all add: queue_Publish_def queue_Ack_def queue_Retry_def queue_Consume_def RedisBroadcast_def
      Exists_heartbeat_def announce_received_def reached_out [OF assms])

lemma reached_local:
  assumes "reached E m d w"
  shows "reached E m d (snd (Ping E wid ttl w))" and "reached E m d (out_only f w)"
    and "reached E m d (w\<lparr>wCalls := n\<rparr>)" and "reached E m d (update_active E w)" and "reached E m d (update_depth E s w)"
  by (rule reached_same [OF assms], auto simp: Ping_def update_active_def update_depth_def
      dest: on_out_dbD split: prod.split option.split sum.split)+

lemma system_reached:
  assumes "\<forall>e v. wDB (snd (proc e v)) = wDB v"
  shows "system_calls E proc (reached E m d) (\<lambda>_. True) m"
proof (unfold_locales, goal_cases)
  case (7 w fin grp name c w')
  then show ?case using reached_queue(4) [of E m d w fin grp name] by (simp add: worker_main_deps_def)
next
  case (8 w e)
  then show ?case using assms by (auto simp: worker_main_deps_def intro: reached_same)
next
  case (9 w f msg)
  then show ?case by (auto simp: worker_main_deps_def reached_queue)
next
  case (15 w st age q w')
  then show ?case using reached_reads(3) [of E m d w st age] by simp
qed (simp_all add: worker_main_deps_def reached_repo reached_reads reached_queue reached_local)

lemma on_db_main: "wDB (snd (main_processor e (v :: 'a world))) = wDB v"
proof -
  obtain r where r: "main_registry (\<lambda>_ _ w. w) = Some (r :: 'a world registry)"
      "\<And>t. r t = map_option (DummyProcessor_Process (\<lambda>_ _ w. w)) (map_of main_registrations t)"
    using main_registry_lookup [where slog_Info = "\<lambda>_ _ (w :: 'a world). w"] by blast
  show ?thesis
    by (simp add: main_processor_def r Registry_Process_def DummyProcessor_Process_def split: option.split)
qed

interpretation mem_system: system_calls mem_env main_processor "reached mem_env 3 empty_db" "\<lambda>_. True" 3
  by (rule system_reached) (simp add: on_db_main)

section \<open>Properties\<close>

definition start_system :: "'r world \<Rightarrow> (worker \<times> worker_state) list \<Rightarrow> 'r system" where
  "start_system w ws = \<lparr>sysWorld = w, sysWorkers = ws, sysSched = NewScheduler, sysCreates = []\<rparr>"

lemma system_run_reached:
  assumes "\<forall>e v. wDB (snd (proc e v)) = wDB v" and "list_all (\<lambda>(p, s). w_maxAttempts p = m) ws"
    and "run_sys E proc decode as (start_system w ws) = S"
  shows "reached E m (wDB w) (sysWorld S)"
proof -
  note calls = system_reached [OF assms(1), of E m "wDB w"]
  have "reached E m (wDB w) w" unfolding reached_def by (intro exI [of _ "[]"]) simp
  then have inv: "system_calls.sys_inv (reached E m (wDB w)) (\<lambda>_. True) m (start_system w ws)"
    using assms(2) by (simp add: system_calls.sys_inv_def [OF calls] start_system_def NewScheduler_def
        system_calls.sched_good.simps [OF calls] worker_calls.jobs_good_def [OF system_calls.axioms(1) [OF calls]] list_all_iff)
  have "system_calls.act_good (reached E m (wDB w)) (\<lambda>_. True) a" for a :: "'a sys_act"
    by (cases a) (auto simp: system_calls.act_good.simps [OF calls] reached_local)
  then have "list_all (system_calls.act_good (reached E m (wDB w)) (\<lambda>_. True)) as" by (simp add: list_all_iff)
  from system_calls.run_sys_inv [OF calls inv this, of decode] assms(3)
  show ?thesis by (simp add: system_calls.sys_inv_def [OF calls])
qed

text \<open>
  C1 In every run of the whole system, with any number of workers, the scheduler and any requests
  interleaved call by call and with any faults of database and server, every event that was there stays
  there, keeps its identity, moves on the lifecycle only, and is never written again once it is completed
  or failed; no event is attempted more often than the bound, and it is failed exactly at the bound; and
  a recorded result is found only beside a completed event.
\<close>

theorem system_keeps_lifecycle:
  assumes "run_sys E proc decode as (start_system w ws) = S"
    and "\<forall>e v. wDB (snd (proc e v)) = wDB v" and "list_all (\<lambda>(p, s). w_maxAttempts p = m) ws" and "0 < m"
    and "wf_db (wDB w)" and "finalized_ok (wDB w)" and "all_attempts_ok m (wDB w)"
  shows "(\<forall>i r. event_row (wDB w) i = Some r \<longrightarrow>
      (\<exists>r'. event_row (wDB (sysWorld S)) i = Some r' \<and> same_identity r r' \<and> (eStatus r, eStatus r') \<in> lifecycle\<^sup>* \<and>
        (eStatus r = StatusCompleted \<or> eStatus r = StatusFailed \<longrightarrow> r' = r))) \<and>
    (\<forall>i r. event_row (wDB (sysWorld S)) i = Some r \<longrightarrow>
      0 \<le> eAttempt r \<and> eAttempt r \<le> m \<and> (eStatus r = StatusFailed \<longleftrightarrow> eAttempt r = m)) \<and>
    (\<forall>i. idem_row (wDB (sysWorld S)) i \<noteq> None \<longrightarrow>
      map_option eStatus (event_row (wDB (sysWorld S)) i) = Some StatusCompleted)"
proof -
  from system_run_reached [OF assms(2,3,1)] obtain xs where xs: "list_all (program_op m) xs"
    "wDB (sysWorld S) = exec_ops (jsonb_in E) (uuid_Parse E) xs (wDB w)" by (auto simp: reached_def)
  have row: "\<exists>r'. event_row (wDB (sysWorld S)) i = Some r' \<and> same_identity r r' \<and> (eStatus r, eStatus r') \<in> lifecycle\<^sup>* \<and>
        (eStatus r = StatusCompleted \<or> eStatus r = StatusFailed \<longrightarrow> r' = r)"
    if "event_row (wDB w) i = Some r" for i r
    using exec_ops_row [OF assms(5) that, of "jsonb_in E" "uuid_Parse E" xs]
      exec_ops_terminal [OF assms(5) that, of "jsonb_in E" "uuid_Parse E" xs]
    by (auto simp: xs(2) terminal_def)
  have attempts: "all_attempts_ok m (wDB (sysWorld S))"
    unfolding xs(2) by (rule exec_ops_attempts [OF assms(5,7) xs(1) assms(4)])
  have "finalized_ok (wDB (sysWorld S))"
    unfolding xs(2) by (rule exec_ops_finalized_ok [OF assms(5,6)])
  then have idem: "idem_row (wDB (sysWorld S)) i \<noteq> None \<Longrightarrow>
      map_option eStatus (event_row (wDB (sysWorld S)) i) = Some StatusCompleted" for i
    by (auto simp: finalized_ok_def)
  from row attempts idem show ?thesis by (simp add: all_attempts_ok_def attempts_ok_def)
qed

theorem system_keeps_lifecycle_witness:
  "\<exists>r'. event_row (wDB (sysWorld (run_sys mem_env main_processor decode_request
       [SysRequest sample_draw sample_body, SysCreate 0, SysWorker 0 ActStart, SysSched True False, SysCreate 0]
       (start_system stale_world [(quiet_worker, NewWorker)])))) 7 = Some r' \<and>
     same_identity (sample_event StatusReceived) r'"
proof -
  let ?as = "[SysRequest sample_draw sample_body, SysCreate 0, SysWorker 0 ActStart, SysSched True False, SysCreate 0]
    :: event mem_redis sys_act list"
  have row: "event_row (wDB stale_world) 7 = Some (sample_event StatusReceived)" by (simp add: stale_world_def)
  have proc: "\<forall>e (v :: event mem_redis world). wDB (snd (main_processor e v)) = wDB v" by (simp add: on_db_main)
  have ws: "list_all (\<lambda>(p, s). w_maxAttempts p = 3) [(quiet_worker, NewWorker)]" by (simp add: quiet_worker_def)
  have db: "wf_db (wDB stale_world)" "finalized_ok (wDB stale_world)" "all_attempts_ok 3 (wDB stale_world)"
    by (simp_all add: stale_world_def)
  have "(0 :: int) < 3" by simp
  from system_keeps_lifecycle [of mem_env main_processor decode_request ?as, OF refl proc ws this db,
      THEN conjunct1, rule_format, OF row]
  show ?thesis by blast
qed

end
