(* ===== verification/LostEvent.thy ===== *)
theory LostEvent
  imports SystemProps
begin

text \<open>
  An event whose row is \<open>QUEUED\<close> and that no message, worker, sweep or request carries any more: nothing
  the system does ever touches it again. The handler of a request reaches such a state, because it
  publishes before it moves the row from \<open>RECEIVED\<close> to \<open>QUEUED\<close>.
\<close>

section \<open>A row without a message\<close>

definition untold :: "('m, 'r) env \<Rightarrow> ('r \<Rightarrow> 'm view) \<Rightarrow> uuid \<Rightarrow> 'r \<Rightarrow> bool" where
  "untold E view i s \<longleftrightarrow>
     (\<forall>st g. \<forall>p \<in> set (undelivered (view s st g)). \<forall>e. json_Unmarshal E (snd p) = Some e \<longrightarrow> eID e \<noteq> i)"

definition lost :: "('m, 'r) env \<Rightarrow> ('r \<Rightarrow> 'm view) \<Rightarrow> ('r \<Rightarrow> bool) \<Rightarrow> uuid \<Rightarrow> event \<Rightarrow> 'r world \<Rightarrow> bool" where
  "lost E view ok i r w \<longleftrightarrow> wf_db (wDB w) \<and> ok (wOut w) \<and> untold E view i (wOut w) \<and>
     event_row (wDB w) i = Some r \<and> eStatus r = StatusQueued"

text \<open>What is decoded keeps the id of what was encoded, and a query scans every row once.\<close>

locale id_pipeline = pipeline E view ok proc
  for E :: "('m, 'r) env" and view :: "'r \<Rightarrow> 'm view" and ok :: "'r \<Rightarrow> bool" and proc :: "'r world processor" +
  assumes codec: "json_Marshal E e = Some x \<Longrightarrow> json_Unmarshal E x = Some e' \<Longrightarrow> eID e' = eID e"
    and scan: "mset (scan_order E n rows) = mset rows"
begin

lemma set_tl_subset: "set (tl xs) \<subseteq> set xs"
  by (cases xs) auto

lemma untold_take: "untold E view i s \<Longrightarrow> view t = view_take stream grp (view s) \<Longrightarrow> untold E view i t"
  unfolding untold_def by (auto simp: view_take_def dest: subsetD [OF set_tl_subset])

lemma untold_ack: "untold E view i s \<Longrightarrow> view t = view_ack stream grp ident (view s) \<Longrightarrow> untold E view i t"
  by (auto simp: untold_def view_ack_def split: if_splits)

lemma untold_add:
  assumes "untold E view i s" and "json_Marshal E e = Some x" and "eID e \<noteq> i" and "view t = view_add stream ident x (view s)"
  shows "untold E view i t"
proof -
  have "\<forall>e'. json_Unmarshal E x = Some e' \<longrightarrow> eID e' \<noteq> i"
  proof (intro allI impI)
    fix e'
    assume "json_Unmarshal E x = Some e'"
    from codec [OF assms(2) this] assms(3) show "eID e' \<noteq> i" by simp
  qed
  with assms(1,4) show ?thesis unfolding untold_def by (auto simp: view_add_def)
qed

lemma untold_same: "untold E view i s \<Longrightarrow> view t = view s \<Longrightarrow> untold E view i t"
  by (simp add: untold_def)

lemma publish_untold:
  assumes "ok s" and "untold E view i s" and "eID e \<noteq> i" and "Publish (client E) (json_Marshal E) e s = (r, t)"
  shows "ok t \<and> untold E view i t"
proof (rule redis_streams.Publish_cases [OF streams assms(1,4)], goal_cases)
  case (1 ident x)
  with untold_add [OF assms(2) 1(1) assms(3)] show ?case by blast
next
  case 2
  with untold_same [OF assms(2)] show ?case by blast
qed

lemma ack_untold:
  assumes "ok s" and "untold E view i s" and "Ack (client E) j s = (r, t)"
  shows "ok t \<and> untold E view i t"
  using redis_streams.Ack_effect [OF streams assms(1,3)] untold_ack [OF assms(2)] untold_same [OF assms(2)] by blast

lemma retry_untold:
  assumes "ok s" and "untold E view i s" and "eID (jEvent j) \<noteq> i" and "Retry (client E) (json_Marshal E) j s = (r, t)"
  shows "ok t \<and> untold E view i t"
proof (cases "jReceipt j = '''' \<or> jQueue j = '''' \<or> jGroup j = ''''")
  case True
  with assms show ?thesis by (auto simp: Retry_def)
next
  case False
  obtain q u where p: "Publish (client E) (json_Marshal E) (jEvent j) s = (q, u)" by fastforce
  note pu = publish_untold [OF assms(1-3) p]
  obtain q' v where a: "Ack (client E) j u = (q', v)" by fastforce
  note av = ack_untold [OF conjunct1 [OF pu] conjunct2 [OF pu] a]
  from assms(4) False p a pu av show ?thesis by (auto simp: Retry_def split: option.splits)
qed

lemma read_untold:
  assumes "ok s" and "untold E view i s" and "XReadGroup (client E) grp name stream s = (reply, t)"
  shows "ok t \<and> untold E view i t \<and>
    (\<forall>ident x e. reply = ReadMsg ident (Some x) \<and> json_Unmarshal E x = Some e \<longrightarrow> eID e \<noteq> i)"
proof (cases "undelivered (view s stream grp)")
  case Nil
  with redis_streams.xread [OF streams assms(1,3)] show ?thesis
    using untold_same [OF assms(2)] by auto
next
  case (Cons p ps)
  obtain ident x where p: "p = (ident, x)" by fastforce
  have "\<forall>e. json_Unmarshal E x = Some e \<longrightarrow> eID e \<noteq> i"
    using assms(2) Cons p unfolding untold_def by (metis list.set_intros(1) snd_conv)
  with redis_streams.xread [OF streams assms(1,3)] Cons p show ?thesis
    using untold_same [OF assms(2)] untold_take [OF assms(2)] by auto
qed

lemma poll_untold:
  assumes "ok s" and "untold E view i s"
    and "poll_streams (client E) (json_Unmarshal E) (\<lambda>_ t. t) grp name streams s = (r, t)"
  shows "ok t \<and> untold E view i t \<and> (\<forall>j. r = Some (Inr j) \<longrightarrow> eID (jEvent j) \<noteq> i)"
  using assms
proof (induction streams arbitrary: s)
  case (Cons stream streams)
  obtain reply u where x: "XReadGroup (client E) grp name stream s = (reply, u)" by fastforce
  note u = read_untold [OF Cons.prems(1,2) x]
  show ?case
  proof (cases reply)
    case ReadNil
    with Cons.IH [of u] u Cons.prems(3) x show ?thesis by simp
  qed (use Cons.prems(3) x u in \<open>auto split: option.splits\<close>)
qed simp

section \<open>Every call leaves it alone\<close>

lemma lost_out:
  assumes "lost E view ok i r w" and "wDB w' = wDB w" and "ok (wOut w') \<and> untold E view i (wOut w')"
  shows "lost E view ok i r w'"
  using assms by (simp add: lost_def)

lemma lost_neutral:
  assumes "lost E view ok i r w" and "wDB w' = wDB w" and "ok (wOut w')" and "view (wOut w') = view (wOut w)"
  shows "lost E view ok i r w'"
  using assms untold_same by (auto simp: lost_def)

lemma lost_cmd:
  assumes "lost E view ok i r w" and "neutral ok view (\<lambda>s. snd (f s))"
  shows "lost E view ok i r (snd (on_out f w))"
proof -
  have "ok (wOut w)" using assms(1) by (simp add: lost_def)
  with assms(2) show ?thesis
    by (intro lost_neutral [OF assms(1)]) (auto simp: neutral_def on_out_def case_prod_beta)
qed

lemma lost_local:
  assumes "lost E view ok i r w" and "neutral ok view f"
  shows "lost E view ok i r (out_only f w)"
proof -
  have "ok (wOut w)" using assms(1) by (simp add: lost_def)
  with assms(2) show ?thesis
    by (intro lost_neutral [OF assms(1)]) (auto simp: neutral_def out_only_def)
qed

lemma lost_db:
  assumes "lost E view ok i r w"
    and "wf_db (snd (f (faults_at E (wCalls w)) (now_at E (wCalls w)) (wDB w)))"
    and "event_row (snd (f (faults_at E (wCalls w)) (now_at E (wCalls w)) (wDB w))) i = event_row (wDB w) i"
  shows "lost E view ok i r (snd (on_db E f w))"
proof -
  have "wOut (snd (on_db E f w)) = wOut w" by (simp add: on_db_def case_prod_beta)
  with assms show ?thesis by (simp add: lost_def on_db_db)
qed

end

lemma Assign_other:
  assumes "wf_db d" and "i \<noteq> k"
  shows "wf_db (snd (AssignEvent parse flt now k name old new d)) \<and>
    event_row (snd (AssignEvent parse flt now k name old new d)) i = event_row d i"
proof -
  obtain r d' where c: "AssignEvent parse flt now k name old new d = (r, d')" by fastforce
  from assms(1) c show ?thesis by (cases rule: AssignEvent_cases) (use assms c in \<open>auto simp: row_moved_def\<close>)
qed

lemma Update_other:
  assumes "wf_db d" and "i \<noteq> k"
  shows "wf_db (snd (UpdateStatus flt now k old new d)) \<and>
    event_row (snd (UpdateStatus flt now k old new d)) i = event_row d i"
proof -
  obtain r d' where c: "UpdateStatus flt now k old new d = (r, d')" by fastforce
  from assms(1) c show ?thesis by (cases rule: UpdateStatus_cases) (use assms c in \<open>auto simp: row_moved_def\<close>)
qed

lemma Finalize_other:
  assumes "wf_db d" and "i \<noteq> k"
  shows "wf_db (snd (FinalizeEvent flt now k h d)) \<and> event_row (snd (FinalizeEvent flt now k h d)) i = event_row d i"
proof -
  obtain r d' where c: "FinalizeEvent flt now k h d = (r, d')" by fastforce
  from assms(1) c show ?thesis by (cases rule: FinalizeEvent_cases) (use assms c in \<open>auto simp: row_moved_def\<close>)
qed

lemma Record_other:
  assumes "wf_db d" and "i \<noteq> k"
  shows "wf_db (snd (RecordFailure flt now k m d)) \<and> event_row (snd (RecordFailure flt now k m d)) i = event_row d i"
proof -
  obtain st r d' where c: "RecordFailure flt now k m d = ((st, r), d')" by (metis surj_pair)
  from assms(1) c show ?thesis by (cases rule: RecordFailure_cases) (use assms c in \<open>auto simp: row_moved_def\<close>)
qed

lemma Create_other:
  assumes "wf_db d" and "i \<noteq> eID e"
  shows "wf_db (snd (Create jsonb flt e d)) \<and> event_row (snd (Create jsonb flt e d)) i = event_row d i"
proof -
  obtain r d' where c: "Create jsonb flt e d = (r, d')" by fastforce
  from assms(1) c show ?thesis by (cases rule: Create_cases) (use assms c in \<open>auto simp: row_moved_def\<close>)
qed

context id_pipeline
begin

lemma lostD:
  assumes "lost E view ok i r w"
  shows "wf_db (wDB w)" and "ok (wOut w)" and "untold E view i (wOut w)" and "event_row (wDB w) i = Some r"
    and "eStatus r = StatusQueued"
  using assms by (simp_all add: lost_def)

lemma lost_repo:
  assumes "lost E view ok i r w"
  shows "k \<noteq> i \<Longrightarrow> lost E view ok i r (snd (repo_AssignEvent E k name old new w))"
    and "k \<noteq> i \<Longrightarrow> lost E view ok i r (snd (repo_FinalizeEvent E k h w))"
    and "k \<noteq> i \<Longrightarrow> lost E view ok i r (snd (repo_RecordFailure E k m w))"
    and "k \<noteq> i \<Longrightarrow> lost E view ok i r (snd (repo_UpdateStatus E k old new w))"
    and "eID e \<noteq> i \<Longrightarrow> lost E view ok i r (snd (repo_Create E e w))"
  unfolding repo_AssignEvent_def repo_FinalizeEvent_def repo_RecordFailure_def repo_UpdateStatus_def repo_Create_def
  using Assign_other [OF lostD(1) [OF assms], of i k] Finalize_other [OF lostD(1) [OF assms], of i k]
    Record_other [OF lostD(1) [OF assms], of i k] Update_other [OF lostD(1) [OF assms], of i k]
    Create_other [OF lostD(1) [OF assms], of i e]
  by (intro lost_db [OF assms]; simp)+

lemma lost_reads:
  assumes "lost E view ok i r w"
  shows "lost E view ok i r (snd (repo_GetByID E k w))" and "lost E view ok i r (snd (repo_List E l off w))"
    and "lost E view ok i r (snd (query_stale E st age w))"
  unfolding repo_GetByID_def repo_List_def query_stale_def repo_GetStaleEvents_def
  by (intro lost_db [OF assms]; simp add: lostD(1) [OF assms])+

lemma lost_query:
  assumes "lost E view ok i r w" and "st = StatusProcessing \<or> st = StatusRetrying" and "query_stale E st age w = (Inr evs, w')"
    and "e \<in> set evs"
  shows "eID e \<noteq> i"
proof
  assume i: "eID e = i"
  have q: "GetStaleEvents (scan_order E (wCalls w)) (faults_at E (wCalls w)) st (now_at E (wCalls w) + sint (- age)) (wDB w) = Inr evs"
    using assms(3) by (auto simp: query_stale_def repo_GetStaleEvents_def on_db_def split: prod.splits)
  note evs = GetStaleEvents_exact(2) [OF q scan]
  from stale_rows(2) [OF lostD(1) [OF assms(1)] evs] assms(4) i lostD(4,5) [OF assms(1)] assms(2) show False
    by auto
qed

lemma lost_queue:
  assumes "lost E view ok i r w"
  shows "eID e \<noteq> i \<Longrightarrow> lost E view ok i r (snd (queue_Publish E e w))"
    and "lost E view ok i r (snd (queue_Ack E j w))"
    and "eID (jEvent j) \<noteq> i \<Longrightarrow> lost E view ok i r (snd (queue_Retry E j w))"
    and "queue_Consume E fin grp name w = (c, w') \<Longrightarrow>
      lost E view ok i r w' \<and> (\<forall>j. c = Some (Inr j) \<longrightarrow> eID (jEvent j) \<noteq> i)"
proof -
  note d = lostD [OF assms]
  show "lost E view ok i r (snd (queue_Publish E e w))" if "eID e \<noteq> i"
    using publish_untold [OF d(2,3) that, of "fst (Publish (client E) (json_Marshal E) e (wOut w))"]
    by (intro lost_out [OF assms]) (simp_all add: queue_Publish_def on_out_def case_prod_beta)
  show "lost E view ok i r (snd (queue_Ack E j w))"
    using ack_untold [OF d(2,3), of j "fst (Ack (client E) j (wOut w))"]
    by (intro lost_out [OF assms]) (simp_all add: queue_Ack_def on_out_def case_prod_beta)
  show "lost E view ok i r (snd (queue_Retry E j w))" if "eID (jEvent j) \<noteq> i"
    using retry_untold [OF d(2,3) that, of "fst (Retry (client E) (json_Marshal E) j (wOut w))"]
    by (intro lost_out [OF assms]) (simp_all add: queue_Retry_def on_out_def case_prod_beta)
  assume c: "queue_Consume E fin grp name w = (c, w')"
  obtain s where a: "consume_round (client E) (json_Unmarshal E) fin grp name (wOut w) = (c, s)"
      and w': "w' = w\<lparr>wOut := s, wCalls := Suc (wCalls w)\<rparr>"
    using c by (auto simp: queue_Consume_def on_out_def split: prod.splits)
  have "ok s \<and> untold E view i s \<and> (\<forall>j. c = Some (Inr j) \<longrightarrow> eID (jEvent j) \<noteq> i)"
    using a poll_untold [OF d(2,3)] d(2,3) by (auto simp: consume_round_def split: if_splits)
  then show "lost E view ok i r w' \<and> (\<forall>j. c = Some (Inr j) \<longrightarrow> eID (jEvent j) \<noteq> i)"
    using assms by (simp add: lost_def w')
qed

lemma neutral_cmds:
  "neutral ok view (\<lambda>s. snd (Redis_Set (plat E) k v ttl s))" "neutral ok view (\<lambda>s. snd (Redis_Exists (plat E) k s))"
  "neutral ok view (\<lambda>s. snd (Redis_Keys (plat E) k s))" "neutral ok view (\<lambda>s. snd (Redis_XLen (plat E) k s))"
  "neutral ok view (\<lambda>s. snd (Redis_Publish (plat E) ch b s))" "neutral ok view (EventsReceived_Add (plat E) t)"
  "neutral ok view (EventsProcessed_Add (plat E) t)" "neutral ok view (EventsFailed_Add (plat E) t)"
  "neutral ok view (Duration_Observe (plat E) t dur)" "neutral ok view (QueueDepth_Set (plat E) k n)"
  "neutral ok view (ActiveWorkers_Set (plat E) n)"
  using platform by (simp_all add: neutral_platform_def)

lemma lost_platform:
  assumes "lost E view ok i r w"
  shows "lost E view ok i r (snd (Ping E wid ttl w))" and "lost E view ok i r (RedisBroadcast E msg w)"
    and "lost E view ok i r (snd (Exists_heartbeat E wid w))" and "lost E view ok i r (update_active E w)"
    and "lost E view ok i r (update_depth E stream w)" and "lost E view ok i r (w\<lparr>wCalls := n\<rparr>)"
    and "lost E view ok i r (out_only (EventsReceived_Add (plat E) t) w)"
    and "lost E view ok i r (out_only (EventsProcessed_Add (plat E) t) w)"
    and "lost E view ok i r (out_only (EventsFailed_Add (plat E) t) w)"
    and "lost E view ok i r (out_only (Duration_Observe (plat E) t dur) w)"
proof -
  have p: "snd (Ping E wid ttl w) = snd (on_out (Redis_Set (plat E) (heartbeat_key wid) ''alive'' ttl) w)"
    by (simp add: Ping_def split: prod.split option.split)
  show "lost E view ok i r (snd (Ping E wid ttl w))" unfolding p by (rule lost_cmd [OF assms neutral_cmds(1)])
  have k: "lost E view ok i r v" if "on_out (Redis_Keys (plat E) pat) w = (x, v)" for pat x v
    using lost_cmd [OF assms neutral_cmds(3), of pat] that by simp
  show "lost E view ok i r (update_active E w)"
    by (auto simp: update_active_def split: prod.split sum.split dest: k intro: lost_local neutral_cmds)
  have x: "lost E view ok i r v" if "on_out (Redis_XLen (plat E) st) w = (x, v)" for st x v
    using lost_cmd [OF assms neutral_cmds(4), of st] that by simp
  show "lost E view ok i r (update_depth E stream w)"
    by (auto simp: update_depth_def split: prod.split sum.split dest: x intro: lost_local neutral_cmds)
  show "lost E view ok i r (w\<lparr>wCalls := n\<rparr>)" using assms by (simp add: lost_def)
qed (simp_all add: RedisBroadcast_def Exists_heartbeat_def lost_cmd [OF assms] lost_local [OF assms] neutral_cmds)

lemma lost_process:
  assumes "lost E view ok i r w"
  shows "lost E view ok i r (snd (proc e w))"
  using processing lostD(2) [OF assms] by (intro lost_neutral [OF assms]) (simp_all add: neutral_processor_def)

lemma lost_calls: "system_calls E proc (lost E view ok i r) (\<lambda>k. k \<noteq> i) m"
proof (unfold_locales, goal_cases)
  case (7 w fin grp name c w')
  then show ?case using lost_queue(4) [of i r w fin grp name c w'] by (simp add: worker_main_deps_def)
next
  case (9 w f msg)
  then show ?case by (auto simp: worker_main_deps_def lost_platform)
next
  case (15 w st age q w')
  then show ?case using lost_reads(3) [of i r w st age] lost_query [of i r w st age] by auto
qed (simp_all add: worker_main_deps_def lost_repo lost_reads lost_queue lost_platform lost_process recover_reset_def
  announce_received_def)

end

interpretation mem_ids: id_pipeline mem_env mem_view mem_ok main_processor
  by unfold_locales (simp_all add: mem_env_def)

section \<open>Nobody has the event in hand\<close>

fun create_event :: "create_pc \<Rightarrow> event option" where
  "create_event (CreateStore e) = Some e"
| "create_event (CreatePublish e) = Some e"
| "create_event (CreateQueue e) = Some e"
| "create_event _ = None"

definition forgotten :: "('m, 'r) env \<Rightarrow> ('r \<Rightarrow> 'm view) \<Rightarrow> uuid \<Rightarrow> 'r system \<Rightarrow> bool" where
  "forgotten E view i S \<longleftrightarrow> untold E view i (wOut (sysWorld S)) \<and>
     (\<forall>(p, s) \<in> set (sysWorkers S). \<forall>j. job_at (loop s) = Some j \<or> j \<in> retry_job ` set (retries s) \<longrightarrow> eID (jEvent j) \<noteq> i) \<and>
     sysSched S = SchedWait \<and>
     (\<forall>pc \<in> set (sysCreates S). \<forall>e. create_event pc = Some e \<longrightarrow>
        eID e \<noteq> i \<and> eStatus e = StatusReceived \<and> eAttempt e = 0)"

text \<open>No request draws the id again, and what happens to the server from outside leaves the streams alone.\<close>

definition leaves_alone :: "('r \<Rightarrow> bool) \<Rightarrow> ('r \<Rightarrow> 'm view) \<Rightarrow> uuid \<Rightarrow> 'r sys_act \<Rightarrow> bool" where
  "leaves_alone ok view i a \<longleftrightarrow>
     (case a of SysRequest dr t \<Rightarrow> dID dr \<noteq> i | SysOutside f \<Rightarrow> neutral ok view f | _ \<Rightarrow> True)"

context id_pipeline
begin

lemma forgotten_forever:
  assumes "lost E view ok i r (sysWorld S)" and "forgotten E view i S"
    and "list_all (\<lambda>(p, s). w_maxAttempts p = m) (sysWorkers S)" and "list_all (leaves_alone ok view i) as"
  shows "lost E view ok i r (sysWorld (run_sys E proc decode as S))"
proof -
  note calls = lost_calls [of i r m]
  note wcalls = system_calls.axioms(1) [OF calls]
  have "list_all (\<lambda>(p, s). w_maxAttempts p = m \<and> worker_calls.jobs_good (\<lambda>k. k \<noteq> i) s) (sysWorkers S)"
    using assms(2,3) by (fastforce simp: forgotten_def list_all_iff worker_calls.jobs_good_def [OF wcalls])
  moreover have "system_calls.create_good (\<lambda>k. k \<noteq> i) pc" if "pc \<in> set (sysCreates S)" for pc
    using assms(2) that by (cases pc) (auto simp: forgotten_def system_calls.create_good.simps [OF calls])
  moreover have "system_calls.sched_good (\<lambda>k. k \<noteq> i) (sysSched S)"
    using assms(2) by (simp add: forgotten_def system_calls.sched_good.simps [OF calls])
  ultimately have inv: "system_calls.sys_inv (lost E view ok i r) (\<lambda>k. k \<noteq> i) m S"
    using assms(1) by (simp add: system_calls.sys_inv_def [OF calls] list_all_iff)
  have "system_calls.act_good (lost E view ok i r) (\<lambda>k. k \<noteq> i) a" if "leaves_alone ok view i a" for a
    using that by (cases a) (auto simp: leaves_alone_def system_calls.act_good.simps [OF calls] intro: lost_local)
  with assms(4) have "list_all (system_calls.act_good (lost E view ok i r) (\<lambda>k. k \<noteq> i)) as"
    by (simp add: list_all_iff)
  from system_calls.run_sys_inv [OF calls inv this, of decode] show ?thesis
    by (simp add: system_calls.sys_inv_def [OF calls])
qed

end

section \<open>A run that loses an event\<close>

definition lost_start :: "event mem_redis system" where
  "lost_start = start_system \<lparr>wDB = empty_db, wOut = mem_groups, wCalls = 0\<rparr>
     [(quiet_worker\<lparr>w_group := ''workers''\<rparr>, NewWorker)]"

text \<open>
  The handler stores and publishes the event; the worker takes the message, is refused the claim because
  the row is still \<open>RECEIVED\<close>, and acknowledges; the handler moves the row to \<open>QUEUED\<close> and answers 202.
\<close>

definition lost_run :: "event mem_redis sys_act list" where
  "lost_run =
     [SysRequest sample_draw sample_body, SysCreate 0, SysCreate 0,
      SysWorker 0 ActStart, SysWorker 0 (ActLoop False), SysWorker 0 (ActLoop False), SysWorker 0 (ActLoop False),
      SysWorker 0 (ActLoop False), SysWorker 0 (ActLoop False), SysCreate 0, SysCreate 0, SysCreate 0]"

definition lost_end :: "event mem_redis system" where
  "lost_end = run_sys mem_env main_processor decode_request lost_run lost_start"

lemma run_sys_append: "run_sys E proc decode (as @ bs) S = run_sys E proc decode bs (run_sys E proc decode as S)"
  by (induction as arbitrary: S) simp_all

abbreviation sample :: event where
  "sample \<equiv> new_event sample_draw sample_request"

lemma sample_simps [simp]:
  "eID sample = 11" "eStatus sample = StatusReceived" "eAttempt sample = 0" "ePriority sample = PriorityHigh"
  "ePayload sample = ''{}''"
  by (simp_all add: new_event_def sample_draw_def sample_request_def priority_defs)

lemma sample_columns: "event_columns Some sample = Some sample"
  by (simp add: accepted_columns [OF sample_accepted], simp add: stored_event_def new_event_def sample_draw_def sample_request_def)

lemma lost_begin: "create_begin decode_request sample_draw sample_body = CreateStore sample"
  by (simp add: create_begin_def sample_accepted)

text \<open>The database with the one row, and the server with the one message, the group having got so far.\<close>

definition one_row :: "event_status \<Rightarrow> time \<Rightarrow> db" where
  "one_row st now = empty_db\<lparr>events := [sample\<lparr>eStatus := st, eUpdatedAt := now\<rparr>]\<rparr>"

definition one_message :: "nat \<Rightarrow> nat list \<Rightarrow> (string \<times> bytes) list \<Rightarrow> event mem_redis" where
  "one_message l pel pubs =
     \<lparr>mr_streams = (\<lambda>st. \<lparr>ms_entries = (if st = StreamHigh then [(1, sample)] else []),
        ms_groups = (\<lambda>g. if g = ''workers'' \<and> st \<in> set AllStreams
          then Some (if st = StreamHigh then (l, pel) else (0, [])) else None)\<rparr>), mr_next = 2, mr_keys = [], mr_published = pubs\<rparr>"

definition sample_job :: job where
  "sample_job = \<lparr>jEvent = sample, jReceipt = msg_id 1, jQueue = StreamHigh, jGroup = ''workers''\<rparr>"

lemma one_row_row: "event_row (one_row st now) i = (if i = 11 then Some (sample\<lparr>eStatus := st, eUpdatedAt := now\<rparr>) else None)"
  by (simp add: one_row_def empty_db_def event_row_def row_select_def)

lemma one_row_wf [simp]: "wf_db (one_row st now)"
  by (simp add: one_row_def empty_db_def wf_db_def unique_key_def)

lemma one_message_ok [simp]: "list_all (\<lambda>n. n = 1) pel \<Longrightarrow> l < 2 \<Longrightarrow> mem_ok (one_message l pel pubs)"
  by (auto simp: one_message_def mem_ok_def mem_stream_ok_def list_all_iff)

lemma sample_calls:
  "repo_Create mem_env sample \<lparr>wDB = empty_db, wOut = s, wCalls = n\<rparr> =
     (None, \<lparr>wDB = one_row StatusReceived 501000, wOut = s, wCalls = Suc n\<rparr>)"
  "queue_Publish mem_env sample \<lparr>wDB = d, wOut = mem_groups, wCalls = n\<rparr> =
     (None, \<lparr>wDB = d, wOut = one_message 0 [] [], wCalls = Suc n\<rparr>)"
  "RedisBroadcast mem_env msg \<lparr>wDB = d, wOut = one_message l pel pubs, wCalls = n\<rparr> =
     \<lparr>wDB = d, wOut = one_message l pel (pubs @ [(RedisPubSubChannel, msg)]), wCalls = Suc n\<rparr>"
  "queue_Consume mem_env False ''workers'' name \<lparr>wDB = d, wOut = one_message 0 [] pubs, wCalls = n\<rparr> =
     (Some (Inr sample_job), \<lparr>wDB = d, wOut = one_message (Suc 0) [Suc 0] pubs, wCalls = Suc n\<rparr>)"
  "repo_AssignEvent mem_env 11 name StatusQueued StatusProcessing \<lparr>wDB = one_row StatusReceived t, wOut = s, wCalls = n\<rparr> =
     (Some ErrInvalidStateTransition, \<lparr>wDB = one_row StatusReceived t, wOut = s, wCalls = Suc n\<rparr>)"
  "queue_Ack mem_env sample_job \<lparr>wDB = d, wOut = one_message (Suc 0) [Suc 0] pubs, wCalls = n\<rparr> =
     (None, \<lparr>wDB = d, wOut = one_message (Suc 0) [] pubs, wCalls = Suc n\<rparr>)"
  "repo_UpdateStatus mem_env 11 StatusReceived StatusQueued \<lparr>wDB = one_row StatusReceived t, wOut = s, wCalls = n\<rparr> =
     (None, \<lparr>wDB = one_row StatusQueued (1000000 + 1000 * int n), wOut = s, wCalls = Suc n\<rparr>)"
  apply (simp add: repo_Create_def on_db_def Create_def mem_env_def row_insert_def row_select_def empty_db_def
      one_row_def no_faults_def apply_outcome_def sample_columns, simp add: new_event_def sample_draw_def)
  apply (simp add: queue_Publish_def on_out_def mem_env_def mem_unfold one_message_def mem_groups_eq fun_eq_iff)
  apply (simp add: RedisBroadcast_def on_out_def mem_env_def mem_platform_def one_message_def)
  apply (simp add: queue_Consume_def consume_round_def on_out_def mem_env_def mem_unfold one_message_def fun_eq_iff sample_job_def)
  apply (simp add: repo_AssignEvent_def on_db_def AssignEvent_normal mem_env_def locked_event_def no_faults_def one_row_row)
  apply (simp add: queue_Ack_def on_out_def mem_env_def mem_unfold one_message_def fun_eq_iff sample_job_def)
  apply (simp add: repo_UpdateStatus_def on_db_def UpdateStatus_normal mem_env_def locked_event_def no_faults_def one_row_row
    apply_outcome_def)
  apply (simp add: write_row_def one_row_def row_update_def rows_update_def updated_row_def)
  done

lemma mem_counts [simp]: "EventsReceived_Add (plat mem_env) t s = s"
  by (simp add: mem_env_def mem_platform_def)

lemma lost_end_eq:
  "\<exists>s. lost_end = \<lparr>sysWorld = \<lparr>wDB = one_row StatusQueued 1006000,
         wOut = one_message (Suc 0) [] [(RedisPubSubChannel, online_msg ''worker-1''),
           (RedisPubSubChannel, received_msg (uuid_Text mem_env) 11)], wCalls = 8\<rparr>,
       sysWorkers = [(quiet_worker\<lparr>w_group := ''workers''\<rparr>, s)], sysSched = SchedWait,
       sysCreates = [CreateDone (created_response sample)]\<rparr> \<and> loop s = AtReadyStale \<and> retries s = []"
  by (simp add: lost_end_def lost_run_def lost_start_def start_system_def NewScheduler_def lost_begin NewWorker_def
      Start_def Let_def Broadcast_def worker_main_deps_def apply_opt_def loop_step_def goto_def quiet_worker_def
      sample_calls announce_received_def out_only_def sample_job_def [THEN arg_cong, of jEvent])

lemma lost_end_lost:
  "lost mem_env mem_view mem_ok 11 (sample\<lparr>eStatus := StatusQueued, eUpdatedAt := 1006000\<rparr>) (sysWorld lost_end)"
  "forgotten mem_env mem_view 11 lost_end"
  "list_all (\<lambda>(p, s). w_maxAttempts p = 3) (sysWorkers lost_end)"
  "sysCreates lost_end = [CreateDone (created_response sample)]"
proof -
  have untold: "untold mem_env mem_view 11 (one_message (Suc 0) [] pubs)" for pubs
    by (auto simp: untold_def one_message_def mem_view_def new_entries_def split: if_splits option.splits)
  obtain s where e: "lost_end = \<lparr>sysWorld = \<lparr>wDB = one_row StatusQueued 1006000,
         wOut = one_message (Suc 0) [] [(RedisPubSubChannel, online_msg ''worker-1''),
           (RedisPubSubChannel, received_msg (uuid_Text mem_env) 11)], wCalls = 8\<rparr>,
       sysWorkers = [(quiet_worker\<lparr>w_group := ''workers''\<rparr>, s)], sysSched = SchedWait,
       sysCreates = [CreateDone (created_response sample)]\<rparr>" "loop s = AtReadyStale" "retries s = []"
    using lost_end_eq by auto
  show "lost mem_env mem_view mem_ok 11 (sample\<lparr>eStatus := StatusQueued, eUpdatedAt := 1006000\<rparr>) (sysWorld lost_end)"
    using untold by (simp add: lost_def e(1) one_row_row)
  show "forgotten mem_env mem_view 11 lost_end"
    using untold e(2,3) by (simp add: forgotten_def e(1))
  show "list_all (\<lambda>(p, s). w_maxAttempts p = 3) (sysWorkers lost_end)"
    "sysCreates lost_end = [CreateDone (created_response sample)]"
    by (simp_all add: e(1) quiet_worker_def)
qed

section \<open>Properties\<close>

text \<open>
  C14 An event whose row is \<open>QUEUED\<close> and that no undelivered message, worker, scheduled retry, sweep or
  request carries any more is lost: in no run of the whole system, however long and whatever the faults,
  is its row ever written again, so it is never processed, failed or recovered. The run of the witness
  reaches such a state with a single request and a single worker without any fault, and the client has
  been answered 202.
\<close>

theorem lost_event_stays_lost:
  assumes "redis_streams (client E) view ok" and "neutral_platform ok view (plat E)"
    and "neutral_processor ok view proc" and "\<forall>n rows. mset (scan_order E n rows) = mset rows"
    and "\<forall>e x e'. json_Marshal E e = Some x \<and> json_Unmarshal E x = Some e' \<longrightarrow> eID e' = eID e"
    and "wf_db (wDB (sysWorld S))" and "ok (wOut (sysWorld S))"
    and "event_row (wDB (sysWorld S)) i = Some r" and "eStatus r = StatusQueued" and "forgotten E view i S"
    and "list_all (\<lambda>(p, s). w_maxAttempts p = m) (sysWorkers S)" and "list_all (leaves_alone ok view i) as"
  shows "event_row (wDB (sysWorld (run_sys E proc decode as S))) i = Some r"
proof -
  have ids: "id_pipeline E view ok proc"
    using assms(1-5) by (intro id_pipeline.intro pipeline.intro id_pipeline_axioms.intro) blast+
  have "lost E view ok i r (sysWorld S)"
    using assms(6-10) by (simp add: lost_def forgotten_def)
  from id_pipeline.forgotten_forever [OF ids this assms(10-12), of decode] show ?thesis
    by (simp add: lost_def)
qed

theorem lost_event_stays_lost_witness:
  "(\<forall>n. event_row (wDB (sysWorld (run_sys mem_env main_processor decode_request
      (lost_run @ concat (replicate n [SysSched True False, SysWorker 0 (ActLoop True)])) lost_start))) 11 =
     Some (sample\<lparr>eStatus := StatusQueued, eUpdatedAt := 1006000\<rparr>)) \<and>
   sysCreates lost_end = [CreateDone (created_response sample)] \<and> rsCode (created_response sample) = 202"
proof -
  let ?bs = "\<lambda>n. concat (replicate n [SysSched True False, SysWorker 0 (ActLoop True)]) :: event mem_redis sys_act list"
  have "list_all (leaves_alone mem_ok mem_view 11) (?bs n)" for n by (induction n) (simp_all add: leaves_alone_def)
  moreover have "\<forall>n rows. mset (scan_order mem_env n rows) = mset rows"
    "\<forall>e x e'. json_Marshal mem_env e = Some x \<and> json_Unmarshal mem_env x = Some e' \<longrightarrow> eID e' = eID e"
    by (simp_all add: mem_env_def)
  ultimately have "event_row (wDB (sysWorld (run_sys mem_env main_processor decode_request (?bs n) lost_end))) 11 =
     Some (sample\<lparr>eStatus := StatusQueued, eUpdatedAt := 1006000\<rparr>)" for n
    using lost_event_stays_lost [OF mem_pipeline.streams mem_pipeline.platform mem_pipeline.processing, of lost_end 11]
      mem_ids.lostD [OF lost_end_lost(1)] lost_end_lost(2,3) by blast
  then show ?thesis
    using lost_end_lost(4) by (simp add: run_sys_append lost_end_def created_response_def json_response_def code_defs)
qed

end
