(* ===== verification/JobProps.thy ===== *)
theory JobProps
  imports Pipeline
begin

text \<open>
  What becomes of a claimed job when database and server answer: it is settled and acknowledged, or it is
  scheduled for another attempt with its message still waiting.
\<close>

section \<open>The database operations without faults\<close>

lemma AssignEvent_ok:
  assumes "wf_db d" and "event_row d i = Some r" and "eStatus r = StatusQueued"
    and "AssignEvent parse no_faults now i name StatusQueued StatusProcessing d = (x, d')"
  shows "x = None \<and> (\<exists>r1. event_row d' i = Some r1 \<and> eStatus r1 = StatusProcessing \<and> eAttempt r1 = eAttempt r)"
  using assms(1,4)
proof (cases rule: AssignEvent_cases)
  case (same err)
  with assms show ?thesis by (simp add: AssignEvent_normal locked_event_def no_faults_def apply_outcome_def)
next
  case (moved row)
  with assms(2) show ?thesis by (simp add: row_moved_def assigned_row_def answered_def no_faults_def)
qed

lemma FinalizeEvent_ok:
  assumes "wf_db d" and "finalized_ok d" and "event_row d i = Some r" and "eStatus r = StatusProcessing"
    and "FinalizeEvent no_faults now i h d = (x, d')"
  shows "x = None \<and> map_option eStatus (event_row d' i) = Some StatusCompleted \<and> idem_row d' i \<noteq> None"
  using assms(1,5)
proof (cases rule: FinalizeEvent_cases)
  case (same err)
  have "idem_row d i = None"
  proof (cases "idem_row d i")
    case (Some x)
    with assms(2) have "map_option eStatus (event_row d i) = Some StatusCompleted" by (auto simp: finalized_ok_def)
    with assms(3,4) show ?thesis by simp
  qed simp
  with same assms show ?thesis
    by (simp add: FinalizeEvent_normal locked_event_def no_faults_def apply_outcome_def)
next
  case (moved row)
  then show ?thesis by (simp add: row_moved_def updated_row_def answered_def no_faults_def)
qed

lemma RecordFailure_ok:
  assumes "wf_db d" and "event_row d i = Some r" and "eStatus r = StatusProcessing"
    and "RecordFailure no_faults now i m d = ((st, x), d')"
  shows "x = None \<and> st = (if eAttempt r + 1 < m then StatusRetrying else StatusFailed) \<and>
    (\<exists>r1. event_row d' i = Some r1 \<and> eStatus r1 = st \<and> eAttempt r1 = eAttempt r + 1)"
  using assms(1,4)
proof (cases rule: RecordFailure_cases)
  case (same err)
  with assms show ?thesis
    by (simp add: RecordFailure_normal locked_event_def no_faults_def apply_outcome_def)
next
  case (moved row)
  with assms(2) show ?thesis by (auto simp: row_moved_def failed_row_def answered_def no_faults_def)
qed

section \<open>The calls of the worker\<close>

definition row_is :: "'r world \<Rightarrow> uuid \<Rightarrow> event_status \<Rightarrow> int \<Rightarrow> bool" where
  "row_is w i st n \<longleftrightarrow> (\<exists>r. event_row (wDB w) i = Some r \<and> eStatus r = st \<and> eAttempt r = n)"

lemma world_waits_calls: "world_waits view (w\<lparr>wCalls := n\<rparr>) = world_waits view w"
  by (simp add: world_waits_def fun_eq_iff)

text \<open>A job as \<open>Consume\<close> builds it carries the address of its message.\<close>

definition addressed :: "job \<Rightarrow> bool" where
  "addressed j \<longleftrightarrow> jReceipt j \<noteq> '''' \<and> jQueue j \<noteq> '''' \<and> jGroup j \<noteq> ''''"

lemma addressed_failed_attempt [simp]: "addressed (failed_attempt j) = addressed j"
  by (simp add: addressed_def failed_attempt_def)

locale calm_pipeline = pipeline E view ok proc
  for E :: "('m, 'r) env" and view :: "'r \<Rightarrow> 'm view" and ok :: "'r \<Rightarrow> bool" and proc :: "'r world processor" +
  assumes calm: "faults_at E n = no_faults"
    and acks: "fst (XAck (client E) stream grp ident s) = None"
begin

definition moves :: "'r world \<Rightarrow> 'r world \<Rightarrow> bool" where
  "moves w w' \<longleftrightarrow> sane w' \<and> world_waits view w' = world_waits view w"

definition stays :: "'r world \<Rightarrow> 'r world \<Rightarrow> bool" where
  "stays w w' \<longleftrightarrow> moves w w' \<and> wDB w' = wDB w"

lemma moves_trans: "moves w w1 \<Longrightarrow> moves w1 w2 \<Longrightarrow> moves w w2"
  by (simp add: moves_def)

lemma stays_trans: "stays w w1 \<Longrightarrow> stays w1 w2 \<Longrightarrow> stays w w2"
  by (auto simp: stays_def moves_def)

lemma assign_ok:
  assumes "sane w" and "row_is w i StatusQueued n"
  shows "\<exists>w1. repo_AssignEvent E i name StatusQueued StatusProcessing w = (None, w1) \<and> moves w w1 \<and>
    row_is w1 i StatusProcessing n"
proof -
  obtain x w1 where a: "repo_AssignEvent E i name StatusQueued StatusProcessing w = (x, w1)" by fastforce
  then have "AssignEvent (uuid_Parse E) no_faults (now_at E (wCalls w)) i name StatusQueued StatusProcessing (wDB w) = (x, wDB w1)"
    by (auto simp: repo_AssignEvent_def on_db_def calm split: prod.splits)
  with AssignEvent_ok [of "wDB w" i] assms assign_law [OF assms(1) a] a show ?thesis
    by (fastforce simp: row_is_def world_sane_def moves_def)
qed

lemma finalize_ok:
  assumes "sane w" and "row_is w i StatusProcessing n"
  shows "\<exists>w1. repo_FinalizeEvent E i h w = (None, w1) \<and> moves w w1 \<and> world_status w1 i = Some StatusCompleted \<and>
    idem_row (wDB w1) i \<noteq> None"
proof -
  obtain x w1 where a: "repo_FinalizeEvent E i h w = (x, w1)" by fastforce
  then have "FinalizeEvent no_faults (now_at E (wCalls w)) i h (wDB w) = (x, wDB w1)"
    by (auto simp: repo_FinalizeEvent_def on_db_def calm split: prod.splits)
  with FinalizeEvent_ok [of "wDB w" i] assms finalize_law [OF assms(1) a] a show ?thesis
    by (fastforce simp: row_is_def world_sane_def moves_def world_status_def)
qed

lemma record_ok:
  assumes "sane w" and "row_is w i StatusProcessing n"
  shows "\<exists>w1. repo_RecordFailure E i m w = ((if n + 1 < m then StatusRetrying else StatusFailed, None), w1) \<and> moves w w1 \<and>
    row_is w1 i (if n + 1 < m then StatusRetrying else StatusFailed) (n + 1)"
proof -
  obtain st x w1 where a: "repo_RecordFailure E i m w = ((st, x), w1)" by (metis surj_pair)
  then have "RecordFailure no_faults (now_at E (wCalls w)) i m (wDB w) = ((st, x), wDB w1)"
    by (auto simp: repo_RecordFailure_def on_db_def calm split: prod.splits)
  with RecordFailure_ok [of "wDB w" i] assms record_law [OF assms(1) a] a show ?thesis
    by (fastforce simp: row_is_def world_sane_def moves_def)
qed

lemma ack_ok:
  assumes "sane w" and "addressed j"
  shows "sane (snd (queue_Ack E j w)) \<and> wDB (snd (queue_Ack E j w)) = wDB w \<and> \<not> world_waits view (snd (queue_Ack E j w)) j"
proof -
  obtain q s where a: "Ack (client E) j (wOut w) = (q, s)" by fastforce
  have "q = None" using acks [of "jQueue j" "jGroup j" "jReceipt j" "wOut w"] a assms(2)
    by (auto simp: Ack_def addressed_def split: prod.splits option.splits)
  have "ok (wOut w)" using assms by (simp add: world_sane_def)
  from redis_streams.Ack_effect [OF streams this a] \<open>q = None\<close>
  have "view s = view_ack (jQueue j) (jGroup j) (jReceipt j) (view (wOut w))" "ok s" by auto
  with a assms show ?thesis
    by (auto simp: queue_Ack_def on_out_def world_waits_def view_ack_def world_sane_def)
qed

lemma send_stays: "sane w \<Longrightarrow> stays w (RedisBroadcast E msg w)"
  using send_law [of w msg] by (simp add: stays_def moves_def RedisBroadcast_def on_out_def case_prod_beta)

lemma count_stays:
  "sane w \<Longrightarrow> stays w (out_only (EventsProcessed_Add (plat E) t) w)"
  "sane w \<Longrightarrow> stays w (out_only (EventsFailed_Add (plat E) t) w)"
  "sane w \<Longrightarrow> stays w (out_only (Duration_Observe (plat E) t dur) w)"
  using count_law [of w "EventsProcessed_Add (plat E) t"] count_law [of w "EventsFailed_Add (plat E) t"]
    count_law [of w "Duration_Observe (plat E) t dur"] neutral_commands(3-5)
  by (simp_all add: stays_def moves_def out_only_def)

lemma process_stays: "sane w \<Longrightarrow> proc e w = (p, w') \<Longrightarrow> stays w w'"
  using process_law [of w e p w'] processing
  by (auto simp: stays_def moves_def neutral_processor_def world_sane_def) (metis snd_conv)+

lemma stays_sane: "stays w w' \<Longrightarrow> sane w'"
  by (simp add: stays_def moves_def)

lemma report_done_stays:
  assumes "sane w"
  shows "stays w (report_done (worker_main_deps E proc) j t w)"
proof -
  let ?w1 = "out_only (EventsProcessed_Add (plat E) (eType (jEvent j))) w"
  let ?w2 = "out_only (Duration_Observe (plat E) (eType (jEvent j)) (now_at E (wCalls ?w1) - t)) ?w1"
  have 1: "stays w ?w1" by (rule count_stays(1) [OF assms])
  have 2: "stays ?w1 ?w2" by (rule count_stays(3) [OF stays_sane [OF 1]])
  have 3: "stays ?w2 (RedisBroadcast E msg ?w2)" for msg by (rule send_stays [OF stays_sane [OF 2]])
  show ?thesis using stays_trans [OF 1 stays_trans [OF 2 3]]
    by (simp add: report_done_def Broadcast_def worker_main_deps_def Let_def)
qed

lemma finish_job_ok:
  assumes "sane w" and "row_is w (eID (jEvent j)) StatusProcessing n" and "addressed j"
  shows "world_status (finish_job (worker_main_deps E proc) j t w) (eID (jEvent j)) = Some StatusCompleted \<and>
    idem_row (wDB (finish_job (worker_main_deps E proc) j t w)) (eID (jEvent j)) \<noteq> None \<and>
    \<not> world_waits view (finish_job (worker_main_deps E proc) j t w) j"
proof -
  let ?d = "worker_main_deps E proc"
  obtain w1 where 1: "repo_FinalizeEvent E (eID (jEvent j)) resultHash w = (None, w1)" "moves w w1"
    "world_status w1 (eID (jEvent j)) = Some StatusCompleted" "idem_row (wDB w1) (eID (jEvent j)) \<noteq> None"
    using finalize_ok [OF assms(1,2)] by blast
  note a = ack_ok [of w1, OF _ assms(3)] and s = 1(2) [unfolded moves_def]
  have "stays (snd (queue_Ack E j w1)) (report_done ?d j t (snd (queue_Ack E j w1)))"
    using a s by (intro report_done_stays) simp
  moreover have "finish_job ?d j t w = report_done ?d j t (snd (queue_Ack E j w1))"
    using 1(1) by (simp add: finish_job_def worker_main_deps_def)
  ultimately show ?thesis
    using 1(3,4) a s by (simp add: stays_def moves_def world_status_def)
qed

lemma handleFailure_ok:
  assumes "sane w" and "row_is w (eID (jEvent j)) StatusProcessing n" and "addressed j"
    and "handleFailure (worker_main_deps E proc) p j w = (retry, w')"
  shows "if n + 1 < w_maxAttempts p
    then row_is w' (eID (jEvent j)) StatusRetrying (n + 1) \<and> world_waits view w' = world_waits view w \<and>
      (\<exists>delay. retry = Some (failed_attempt j, delay))
    else row_is w' (eID (jEvent j)) StatusFailed (n + 1) \<and> \<not> world_waits view w' j \<and> retry = None"
proof -
  obtain w1 where 1: "repo_RecordFailure E (eID (jEvent j)) (w_maxAttempts p) w =
      ((if n + 1 < w_maxAttempts p then StatusRetrying else StatusFailed, None), w1)" "moves w w1"
    "row_is w1 (eID (jEvent j)) (if n + 1 < w_maxAttempts p then StatusRetrying else StatusFailed) (n + 1)"
    using record_ok [OF assms(1,2)] by blast
  show ?thesis
  proof (cases "n + 1 < w_maxAttempts p")
    case True
    with 1 assms(4) show ?thesis
      by (auto simp: handleFailure_def worker_main_deps_def Let_def schedule_retry_def moves_def row_is_def
          world_waits_calls)
  next
    case False
    let ?w2 = "out_only (EventsFailed_Add (plat E) (eType (jEvent (failed_attempt j)))) w1"
    let ?w3 = "snd (queue_Ack E (failed_attempt j) ?w2)"
    have s1: "sane w1" using 1(2) by (simp add: moves_def)
    note 2 = count_stays(2) [OF s1, of "eType (jEvent (failed_attempt j))"]
    note 3 = ack_ok [OF stays_sane [OF 2], of "failed_attempt j", simplified, OF assms(3)]
    note 4 = send_stays [OF conjunct1 [OF 3]]
    have "retry = None" and w': "\<exists>msg. w' = RedisBroadcast E msg ?w3"
      using 1(1) False assms(4)
      by (auto simp: handleFailure_def worker_main_deps_def Let_def report_failed_def Broadcast_def)
    moreover from w' obtain msg where "w' = RedisBroadcast E msg ?w3" by blast
    moreover have "world_waits view v (failed_attempt j) = world_waits view v j" for v
      by (simp add: world_waits_def failed_attempt_def)
    ultimately show ?thesis
      using 1(3) False 2 3 4 [of msg] by (simp add: stays_def moves_def row_is_def)
  qed
qed

lemma handle_job_ok:
  assumes "sane w" and "row_is w (eID (jEvent j)) StatusQueued n" and "addressed j"
    and "handle_job (worker_main_deps E proc) p j w = (st, retry, w')"
  shows "\<exists>v. if fst (proc (jEvent j) v) = None
    then world_status w' (eID (jEvent j)) = Some StatusCompleted \<and> idem_row (wDB w') (eID (jEvent j)) \<noteq> None \<and>
      \<not> world_waits view w' j \<and> retry = None
    else if n + 1 < w_maxAttempts p
    then row_is w' (eID (jEvent j)) StatusRetrying (n + 1) \<and> world_waits view w' = world_waits view w \<and>
      (\<exists>delay. retry = Some (failed_attempt j, delay))
    else row_is w' (eID (jEvent j)) StatusFailed (n + 1) \<and> \<not> world_waits view w' j \<and> retry = None"
proof -
  let ?d = "worker_main_deps E proc"
  obtain w1 where 1: "repo_AssignEvent E (eID (jEvent j)) (w_id p) StatusQueued StatusProcessing w = (None, w1)" "moves w w1"
    "row_is w1 (eID (jEvent j)) StatusProcessing n" using assign_ok [OF assms(1,2)] by blast
  let ?w2 = "RedisBroadcast E (processing_msg (uuid_Text E (eID (jEvent j))) (w_id p)) w1"
  have s1: "sane w1" using 1(2) by (simp add: moves_def)
  note 2 = send_stays [OF s1, of "processing_msg (uuid_Text E (eID (jEvent j))) (w_id p)"]
  obtain outcome w3 where 3: "proc (jEvent j) ?w2 = (outcome, w3)" by fastforce
  note s3 = process_stays [OF stays_sane [OF 2] 3]
  have row: "sane w3" "row_is w3 (eID (jEvent j)) StatusProcessing n" "world_waits view w3 = world_waits view w"
    using 1(2,3) 2 s3 by (simp_all add: stays_def moves_def row_is_def)
  show ?thesis
  proof (cases outcome)
    case None
    with assms(4) 1(1) 3 have "retry = None" "w' = finish_job ?d j (now_at E (wCalls w1)) w3"
      by (simp_all add: handle_job_def worker_main_deps_def Broadcast_def Let_def)
    with finish_job_ok [OF row(1,2) assms(3)] None 3 show ?thesis by (intro exI [of _ ?w2]) simp
  next
    case (Some err)
    obtain rt v where f: "handleFailure ?d p j w3 = (rt, v)" by fastforce
    with assms(4) 1(1) 3 Some have "retry = rt" "w' = v"
      by (simp_all add: handle_job_def worker_main_deps_def Broadcast_def Let_def)
    with handleFailure_ok [OF row(1,2) assms(3) f] row(3) Some 3 show ?thesis by (intro exI [of _ ?w2]) simp
  qed
qed

end

interpretation mem_calm: calm_pipeline mem_env mem_view mem_ok main_processor
  by (intro calm_pipeline.intro calm_pipeline_axioms.intro mem_pipeline.pipeline_axioms)
    (simp_all add: mem_env_def mem_client_def mem_xack_def)

section \<open>The property\<close>

text \<open>
  C9 Every job that is consumed while its row is queued is settled: when the database has no faults and the
  server acknowledges, at most twelve steps of the job loop bring the worker back to its top, and then
  either the processor has succeeded, and the event is completed, its result recorded and its message
  acknowledged; or the attempt is counted and, below the bound, the row is \<open>RETRYING\<close>, one retry goroutine
  for the event waits and the message stays pending until it is republished; or the bound is reached, the
  event is failed and the message acknowledged.
\<close>

theorem job_settles:
  assumes "redis_streams (client E) view ok" and "neutral_platform ok view (plat E)"
    and "neutral_processor ok view proc" and "\<forall>n. faults_at E n = no_faults"
    and "\<forall>st g i s. fst (XAck (client E) st g i s) = None"
    and "world_sane ok w" and "addressed j" and "event_row (wDB w) (eID (jEvent j)) = Some r"
    and "eStatus r = StatusQueued" and "\<forall>v. fst (proc (jEvent j) v) = outcome"
  shows "\<exists>s' w'. run_body (worker_main_deps E proc) p 12 (s\<lparr>loop := AtBusy j\<rparr>) w = Some (s', w') \<and> loop s' = AtTop \<and>
    (if outcome = None
     then world_status w' (eID (jEvent j)) = Some StatusCompleted \<and> idem_row (wDB w') (eID (jEvent j)) \<noteq> None \<and>
       \<not> world_waits view w' j \<and> retries s' = retries s
     else if eAttempt r + 1 < w_maxAttempts p
     then row_is w' (eID (jEvent j)) StatusRetrying (eAttempt r + 1) \<and> world_waits view w' = world_waits view w \<and>
       (\<exists>delay. retries s' = retries s @ [RetryWait (failed_attempt j) delay])
     else row_is w' (eID (jEvent j)) StatusFailed (eAttempt r + 1) \<and> \<not> world_waits view w' j \<and> retries s' = retries s)"
proof -
  have calm: "calm_pipeline E view ok proc"
    using assms(1-5) by (intro calm_pipeline.intro pipeline.intro calm_pipeline_axioms.intro) blast+
  obtain st q w' where h: "handle_job (worker_main_deps E proc) p j w = (st, q, w')" by (metis surj_pair)
  have "row_is w (eID (jEvent j)) StatusQueued (eAttempt r)" using assms(8,9) by (simp add: row_is_def)
  from calm_pipeline.handle_job_ok [OF calm assms(6) this assms(7) h] assms(10) show ?thesis
    using run_job [of "worker_main_deps E proc" p j s w] h
    by (auto simp: goto_def with_retry_def split: if_splits)
qed

lemma main_processor_msg: "fst (main_processor (msg_event pr) v) = None"
proof -
  obtain r where "main_registry (\<lambda>_ _ w. w) = Some (r :: 'a registry)"
      "\<And>t. r t = map_option (DummyProcessor_Process (\<lambda>_ _ w. w)) (map_of main_registrations t)"
    using main_registry_lookup [where slog_Info = "\<lambda>_ _ (w :: 'a). w"] by blast
  then show ?thesis
    by (simp add: main_processor_def Registry_Process_def DummyProcessor_Process_def msg_event_def main_registrations_def)
qed

definition taken_world :: "event mem_redis world" where
  "taken_world = \<lparr>wDB = sample_db StatusQueued, wOut = mem_taken, wCalls = 0\<rparr>"

lemma taken_world_ready:
  "world_sane mem_ok taken_world" "addressed job_one" "event_row (wDB taken_world) (eID (jEvent job_one)) = Some (sample_event StatusQueued)"
  "\<forall>n. faults_at mem_env n = no_faults" "\<forall>st g i s. fst (XAck (client mem_env) st g i s) = None"
  by (simp_all add: taken_world_def world_sane_def consume_mem_one_ok addressed_def job_one_def AllStreams_def msg_event_def
      mem_calm.calm mem_calm.acks)

lemma job_one_simps [simp]:
  "jEvent job_one = msg_event PriorityHigh" "eID (msg_event pr) = 7" "eAttempt (sample_event st) = 0"
  "eStatus (sample_event st) = st" "w_maxAttempts quiet_worker = 3" "retries NewWorker = []"
  by (simp_all add: job_one_def msg_event_def sample_event_def quiet_worker_def NewWorker_def)

text \<open>With the processors of the program the job is completed; with one that fails it is retried.\<close>

theorem job_settles_witness:
  "(\<exists>s' w'. run_body (worker_main_deps mem_env main_processor) quiet_worker 12 (NewWorker\<lparr>loop := AtBusy job_one\<rparr>)
      taken_world = Some (s', w') \<and> world_status w' 7 = Some StatusCompleted \<and> \<not> world_waits mem_view w' job_one) \<and>
   (\<exists>s' w' delay. run_body (worker_main_deps mem_env (\<lambda>e w. (Some (ErrProcessor ''declined''), w))) quiet_worker 12 (NewWorker\<lparr>loop := AtBusy job_one\<rparr>)
      taken_world = Some (s', w') \<and> row_is w' 7 StatusRetrying 1 \<and> retries s' = [RetryWait (failed_attempt job_one) delay])"
proof -
  have "neutral_processor mem_ok mem_view (\<lambda>e w. (Some (ErrProcessor ''declined''), w))" by (simp add: neutral_processor_def)
  from job_settles [OF mem_pipeline.streams mem_pipeline.platform this taken_world_ready(4,5,1,2,3), of "Some (ErrProcessor ''declined'')" quiet_worker NewWorker]
    job_settles [OF mem_pipeline.streams mem_pipeline.platform mem_pipeline.processing taken_world_ready(4,5,1,2,3), of None quiet_worker NewWorker]
  show ?thesis by (simp add: main_processor_msg) blast
qed

end
