(* ===== verification/Delivery.thy ===== *)
theory Delivery
  imports JobProps ApiProps EventCodec
begin

text \<open>
  The whole way of an event: from the bytes of the request through the table, the stream and back out of
  it to the worker, with the codec of \<open>EventCodec\<close> on the wire, round after round of failed attempts, until
  the event is completed or failed and its message is acknowledged.
\<close>

section \<open>Consuming the one message\<close>

lemma poll_takes:
  assumes R: "redis_streams R view ok"
    and reads: "\<And>s st err. ok s \<Longrightarrow> exists_group (view s st grp) \<Longrightarrow> fst (XReadGroup R grp name st s) \<noteq> ReadError err"
    and "ok s" and "\<forall>st \<in> set pre. exists_group (view s st grp) \<and> undelivered (view s st grp) = []"
    and "exists_group (view s st0 grp)" and "undelivered (view s st0 grp) = (ident, m) # rest" and "unmarshal m = Some e"
  shows "\<exists>s'. poll_streams R unmarshal (\<lambda>_ t. t) grp name (pre @ st0 # post) s =
      (Some (Inr \<lparr>jEvent = e, jReceipt = ident, jQueue = st0, jGroup = grp\<rparr>), s') \<and> ok s' \<and> view s' = view_take st0 grp (view s)"
  using assms(3-6)
proof (induction pre arbitrary: s)
  case Nil
  obtain reply t where x: "XReadGroup R grp name st0 s = (reply, t)" by fastforce
  have "reply \<noteq> ReadError err" for err using reads [OF Nil(1,3), of err] x by simp
  with redis_streams.read_cases [OF R Nil(1) x] Nil(4)
  have "reply = ReadMsg ident (Some m)" "ok t" "view t = view_take st0 grp (view s)" by (metis Pair_inject list.inject list.simps(3))+
  with x assms(7) show ?case by simp
next
  case (Cons st pre)
  obtain reply t where x: "XReadGroup R grp name st s = (reply, t)" by fastforce
  have e: "exists_group (view s st grp)" "undelivered (view s st grp) = []" using Cons.prems(2) by simp_all
  have "reply \<noteq> ReadError err" for err using reads [OF Cons.prems(1) e(1), of err] x by simp
  with redis_streams.read_cases [OF R Cons.prems(1) x] e(2)
  have "reply = ReadNil" "ok t" "view t = view s" by (metis list.simps(3))+
  with x Cons.IH [of t] Cons.prems show ?case by simp
qed

section \<open>What a job does to the streams\<close>

context pipeline
begin

definition same_view :: "'r world \<Rightarrow> 'r world \<Rightarrow> bool" where
  "same_view w w' \<longleftrightarrow> sane w' \<and> view (wOut w') = view (wOut w)"

definition acked_view :: "job \<Rightarrow> 'r world \<Rightarrow> 'r world \<Rightarrow> bool" where
  "acked_view j w w' \<longleftrightarrow> sane w' \<and>
     (view (wOut w') = view (wOut w) \<or> view (wOut w') = view_ack (jQueue j) (jGroup j) (jReceipt j) (view (wOut w)))"

lemma same_trans: "same_view w w1 \<Longrightarrow> same_view w1 w2 \<Longrightarrow> same_view w w2"
  by (simp add: same_view_def)

lemma same_acked: "same_view w w1 \<Longrightarrow> acked_view j w1 w2 \<Longrightarrow> acked_view j w w2"
  by (simp add: same_view_def acked_view_def)

lemma acked_same: "acked_view j w w1 \<Longrightarrow> same_view w1 w2 \<Longrightarrow> acked_view j w w2"
  by (simp add: same_view_def acked_view_def)

lemma same_imp_acked: "same_view w w1 \<Longrightarrow> acked_view j w w1"
  by (simp add: same_view_def acked_view_def)

lemma same_sane: "same_view w w1 \<Longrightarrow> sane w1"
  by (simp add: same_view_def)

lemma on_db_out: "on_db E f w = (r, w') \<Longrightarrow> wOut w' = wOut w"
  by (auto simp: on_db_def split: prod.splits)

lemma same_viewI: "sane w' \<Longrightarrow> wOut w' = wOut w \<Longrightarrow> same_view w w'"
  by (simp add: same_view_def)

lemma repo_same:
  assumes "sane w"
  shows "repo_AssignEvent E i name StatusQueued StatusProcessing w = (x, w') \<Longrightarrow> same_view w w'"
    "repo_FinalizeEvent E i h w = (x, w') \<Longrightarrow> same_view w w'"
    "repo_RecordFailure E i m w = ((st, x), w') \<Longrightarrow> same_view w w'"
    "repo_UpdateStatus E i old new w = (x, w') \<Longrightarrow> same_view w w'"
  using assign_law [OF assms] finalize_law [OF assms] record_law [OF assms] update_law [OF assms]
  by (metis same_viewI on_db_out repo_AssignEvent_def repo_FinalizeEvent_def repo_RecordFailure_def repo_UpdateStatus_def)+

lemma out_same:
  assumes "sane w"
  shows "same_view w (RedisBroadcast E msg w)" "same_view w (out_only (EventsProcessed_Add (plat E) t) w)"
    "same_view w (out_only (EventsFailed_Add (plat E) t) w)" "same_view w (out_only (Duration_Observe (plat E) t dur) w)"
    "same_view w (w\<lparr>wCalls := n\<rparr>)" "same_view w (snd (proc e w))"
  using on_out_neutral [OF neutral_commands(2) assms] out_only_neutral [OF neutral_commands(3) assms]
    out_only_neutral [OF neutral_commands(4) assms] out_only_neutral [OF neutral_commands(5) assms] assms processing
  by (auto simp: same_view_def RedisBroadcast_def world_sane_def neutral_processor_def)

lemma ack_acked:
  assumes "sane w"
  shows "acked_view j w (snd (queue_Ack E j w))" "acked_view j w (snd (queue_Ack E (failed_attempt j) w))"
proof -
  have "acked_view j w (snd (queue_Ack E j' w))"
    if "jQueue j' = jQueue j" "jGroup j' = jGroup j" "jReceipt j' = jReceipt j" for j'
  proof -
    obtain q s where a: "Ack (client E) j' (wOut w) = (q, s)" by fastforce
    have "ok (wOut w)" using assms by (simp add: world_sane_def)
    from redis_streams.Ack_effect [OF streams this a] a assms that show ?thesis
      by (auto simp: acked_view_def queue_Ack_def on_out_def world_sane_def)
  qed
  then show "acked_view j w (snd (queue_Ack E j w))" "acked_view j w (snd (queue_Ack E (failed_attempt j) w))"
    by (simp_all add: failed_attempt_def)
qed

lemma acked_sane: "acked_view j w w' \<Longrightarrow> sane w'"
  by (simp add: acked_view_def)

lemma report_done_same:
  assumes "sane w"
  shows "same_view w (report_done (worker_main_deps E proc) j t w)"
proof -
  let ?w1 = "out_only (EventsProcessed_Add (plat E) (eType (jEvent j))) w"
  let ?w2 = "out_only (Duration_Observe (plat E) (eType (jEvent j)) (now_at E (wCalls ?w1) - t)) ?w1"
  have 1: "same_view w ?w1" by (rule out_same [OF assms])
  have 2: "same_view ?w1 ?w2" by (rule out_same [OF same_sane [OF 1]])
  have 3: "same_view ?w2 (RedisBroadcast E msg ?w2)" for msg by (rule out_same [OF same_sane [OF 2]])
  show ?thesis using same_trans [OF 1 same_trans [OF 2 3]]
    by (simp add: report_done_def Broadcast_def worker_main_deps_def Let_def)
qed

lemma finish_job_acked:
  assumes "sane w"
  shows "acked_view j w (finish_job (worker_main_deps E proc) j t w)"
proof -
  let ?d = "worker_main_deps E proc"
  obtain x w1 where 1: "repo_FinalizeEvent E (eID (jEvent j)) resultHash w = (x, w1)" by fastforce
  note s1 = repo_same(2) [OF assms 1]
  note a = ack_acked(1) [OF same_sane [OF s1], of j]
  note d = acked_same [OF a report_done_same [OF acked_sane [OF a]]]
  show ?thesis
    using same_imp_acked [OF s1] same_acked [OF s1 a] same_acked [OF s1 d] 1
    by (cases x) (auto simp: finish_job_def worker_main_deps_def)
qed

lemma handleFailure_acked:
  assumes "sane w" and "handleFailure (worker_main_deps E proc) p j w = (retry, w')"
  shows "acked_view j w w'"
proof -
  let ?j = "failed_attempt j"
  obtain st x w1 where 1: "repo_RecordFailure E (eID (jEvent j)) (w_maxAttempts p) w = ((st, x), w1)" by (metis surj_pair)
  note s1 = repo_same(3) [OF assms(1) 1]
  note 2 = out_same(3) [OF same_sane [OF s1], of "eType (jEvent ?j)"]
  note 3 = ack_acked(2) [OF same_sane [OF 2], of j]
  note 4 = acked_same [OF 3 out_same(1) [OF acked_sane [OF 3]]]
  show ?thesis
    using assms(2) 1 same_imp_acked [OF s1] same_acked [OF s1 same_acked [OF 2 4]]
      same_imp_acked [OF same_trans [OF s1 out_same(5) [OF same_sane [OF s1]]]]
    by (cases x; cases "st = StatusFailed")
      (auto simp: handleFailure_def worker_main_deps_def Let_def report_failed_def Broadcast_def schedule_retry_def)
qed

lemma handle_job_acked:
  assumes "sane w" and "handle_job (worker_main_deps E proc) p j w = (st, retry, w')"
  shows "acked_view j w w'"
proof -
  let ?d = "worker_main_deps E proc"
  obtain x w1 where 1: "repo_AssignEvent E (eID (jEvent j)) (w_id p) StatusQueued StatusProcessing w = (x, w1)" by fastforce
  note s1 = repo_same(1) [OF assms(1) 1]
  show ?thesis
  proof (cases x)
    case (Some err)
    with assms(2) 1 same_imp_acked [OF s1] same_acked [OF s1 ack_acked(1) [OF same_sane [OF s1]]] show ?thesis
      by (auto simp: handle_job_def worker_main_deps_def Let_def split: if_splits)
  next
    case None
    let ?w2 = "RedisBroadcast E (processing_msg (uuid_Text E (eID (jEvent j))) (w_id p)) w1"
    note s2 = same_trans [OF s1 out_same(1) [OF same_sane [OF s1], of "processing_msg (uuid_Text E (eID (jEvent j))) (w_id p)"]]
    obtain q w3 where 3: "proc (jEvent j) ?w2 = (q, w3)" by fastforce
    with same_trans [OF s2 out_same(6) [OF same_sane [OF s2], of "jEvent j"]] have s3: "same_view w w3" by simp
    obtain rt v where f: "handleFailure ?d p j w3 = (rt, v)" by fastforce
    show ?thesis
      using assms(2) 1 3 None f same_acked [OF s3 finish_job_acked [OF same_sane [OF s3]]]
        same_acked [OF s3 handleFailure_acked [OF same_sane [OF s3] f]]
      by (cases q) (auto simp: handle_job_def worker_main_deps_def Broadcast_def Let_def)
  qed
qed

end

section \<open>One message in the streams\<close>

locale wire_pipeline = calm_pipeline E view ok proc
  for E :: "(bytes, 'r) env" and view :: "'r \<Rightarrow> bytes view" and ok :: "'r \<Rightarrow> bool" and proc :: "'r world processor" +
  fixes zone :: "time \<Rightarrow> int"
    and grp :: string
  assumes marshal: "json_Marshal E = encode_event (uuid_Text E) zone"
    and unmarshal: "json_Unmarshal E = decode_event (uuid_Parse E)"
    and uuids: "utf8 (uuid_Text E i) \<and> uuid_Parse E (uuid_Text E i) = Some i"
    and zones: "60 dvd zone t"
    and adds: "ok s \<Longrightarrow> fst (XAdd (client E) st m s) = None"
    and reads: "ok s \<Longrightarrow> exists_group (view s st grp) \<Longrightarrow> fst (XReadGroup (client E) grp name st s) \<noteq> ReadError err"
    and group_name: "grp \<noteq> ''''"
begin

text \<open>The events the codec carries; the number of the attempt and the form of the payload do not matter.\<close>

definition carried :: "event \<Rightarrow> bool" where
  "carried e \<longleftrightarrow> json_Marshal E e \<noteq> None \<and> utf8 (eType e) \<and> utf8 (eStatus e) \<and>
     (\<forall>n \<in> {ePriority e, eAttempt e}. - (2 ^ 63) \<le> n \<and> n < 2 ^ 63) \<and>
     (ePayload e \<noteq> [] \<longrightarrow> fst (scan (BeginValue, [ParseObjectValue]) (ePayload e)) \<noteq> ScanError)"

definition copy_of :: "event \<Rightarrow> event \<Rightarrow> bool" where
  "copy_of e0 e \<longleftrightarrow> carried e \<and> (\<exists>pl. e = e0\<lparr>ePayload := pl\<rparr>)"

lemma carried_storable: "carried e \<Longrightarrow> storable (uuid_Text E) (uuid_Parse E) zone e"
  by (simp add: carried_def storable_def uuids zones)

lemma carried_attempt:
  assumes "carried e" and "0 \<le> n" and "n < 2 ^ 63"
  shows "carried (e\<lparr>eAttempt := n\<rparr>)"
proof -
  have "encode_event (uuid_Text E) zone (e\<lparr>eAttempt := n\<rparr>) \<noteq> None"
    using assms(1) encode_event_succeeds [of "uuid_Text E" zone e] encode_event_succeeds [of "uuid_Text E" zone "e\<lparr>eAttempt := n\<rparr>"]
    by (simp add: carried_def marshal)
  with assms show ?thesis by (simp add: carried_def marshal)
qed

lemma carried_copy:
  assumes "carried e" and "json_Marshal E e = Some m"
  shows "\<exists>e'. json_Unmarshal E m = Some e' \<and> copy_of e e'"
proof -
  have b: "encode_event (uuid_Text E) zone e = Some m" using assms(2) by (simp add: marshal)
  obtain pl where pl: "raw_text (ePayload e) = Some pl"
    using b by (auto simp: encode_event_def event_members_def Option.bind_eq_Some_conv)
  have "event_members (uuid_Text E) zone (e\<lparr>ePayload := pl\<rparr>) = event_members (uuid_Text E) zone e"
    by (simp add: event_members_def pl raw_text_idem [OF pl])
  then have "json_Marshal E (e\<lparr>ePayload := pl\<rparr>) = Some m" using b by (simp add: marshal encode_event_def)
  moreover have "member_value pl"
    using pl assms(1) compact_member by (auto simp: raw_text_def carried_def split: if_splits)
  ultimately have "copy_of e (e\<lparr>ePayload := pl\<rparr>)"
    using assms(1) by (auto simp: copy_of_def carried_def member_value_def)
  moreover have "json_Unmarshal E m = Some (e\<lparr>ePayload := pl\<rparr>)"
    using decode_encoded [OF b carried_storable [OF assms(1)] pl] by (simp add: unmarshal)
  ultimately show ?thesis by blast
qed

text \<open>What the group sees of the streams of the program.\<close>

definition grp_sees :: "(string \<Rightarrow> (string \<times> bytes) list) \<Rightarrow> (string \<Rightarrow> (string \<times> bytes) list) \<Rightarrow> 'r \<Rightarrow> bool" where
  "grp_sees und pnd s \<longleftrightarrow> ok s \<and> (\<forall>st \<in> set AllStreams. exists_group (view s st grp) \<and>
     undelivered (view s st grp) = und st \<and> pending (view s st grp) = pnd st)"

abbreviation none_left :: "string \<Rightarrow> (string \<times> bytes) list" where
  "none_left \<equiv> \<lambda>_. []"

lemma publish_sees:
  assumes "grp_sees none_left pnd s" and "carried e"
  shows "\<exists>s' ident m e'. Publish (client E) (json_Marshal E) e s = (None, s') \<and> ident \<noteq> '''' \<and>
    json_Unmarshal E m = Some e' \<and> copy_of e e' \<and> ident \<notin> fst ` set (pnd (stream_of (ePriority e))) \<and>
    grp_sees (none_left(stream_of (ePriority e) := [(ident, m)])) pnd s'"
proof -
  have ok: "ok s" using assms(1) by (simp add: grp_sees_def)
  obtain m0 where m0: "json_Marshal E e = Some m0" using assms(2) by (auto simp: carried_def)
  obtain r s' where p: "Publish (client E) (json_Marshal E) e s = (r, s')" by fastforce
  have r: "r = None" using p m0 adds [OF ok, of "stream_of (ePriority e)" m0] by (auto simp: Publish_def split: prod.splits option.splits)
  show ?thesis
  proof (cases rule: redis_streams.Publish_cases [OF streams ok p])
    case (1 ident m)
    note published = this
    obtain e' where "json_Unmarshal E m = Some e'" "copy_of e e'" using carried_copy [OF assms(2) published(1)] by blast
    moreover have "ident \<notin> fst ` set (pnd (stream_of (ePriority e)))"
      using published(5) [of grp] assms(1) by (simp add: grp_sees_def)
    moreover have "grp_sees (none_left(stream_of (ePriority e) := [(ident, m)])) pnd s'"
      using published(3,4) assms(1) by (simp add: grp_sees_def undelivered_add)
    ultimately show ?thesis using p r published(2) by blast
  next
    case 2
    with r show ?thesis by simp
  qed
qed

lemma consume_sees:
  assumes "grp_sees (none_left(st := [(ident, m)])) pnd s" and "st \<in> set AllStreams" and "json_Unmarshal E m = Some e"
  shows "\<exists>s'. consume_round (client E) (json_Unmarshal E) False grp name s =
      (Some (Inr \<lparr>jEvent = e, jReceipt = ident, jQueue = st, jGroup = grp\<rparr>), s') \<and>
    grp_sees none_left (pnd(st := pnd st @ [(ident, m)])) s'"
proof -
  obtain pre post where split: "AllStreams = pre @ st # post" using assms(2) by (auto simp: in_set_conv_decomp)
  have "distinct AllStreams" by (simp add: AllStreams_def)
  then have "st \<notin> set pre" by (simp add: split)
  have ok: "ok s" using assms(1) by (simp add: grp_sees_def)
  have pre: "\<forall>x \<in> set pre. exists_group (view s x grp) \<and> undelivered (view s x grp) = []"
    using assms(1) \<open>st \<notin> set pre\<close> by (auto simp: grp_sees_def split)
  have st: "exists_group (view s st grp)" "undelivered (view s st grp) = [(ident, m)]"
    using assms(1,2) by (simp_all add: grp_sees_def)
  have "\<exists>s'. poll_streams (client E) (json_Unmarshal E) (\<lambda>_ t. t) grp name (pre @ st # post) s =
      (Some (Inr \<lparr>jEvent = e, jReceipt = ident, jQueue = st, jGroup = grp\<rparr>), s') \<and> ok s' \<and> view s' = view_take st grp (view s)"
    by (rule poll_takes [where R = "client E" and view = view and ok = ok and rest = "[]" and unmarshal = "json_Unmarshal E"])
      (use streams reads ok pre st assms(3) in blast)+
  then obtain s' where s': "poll_streams (client E) (json_Unmarshal E) (\<lambda>_ t. t) grp name (pre @ st # post) s =
      (Some (Inr \<lparr>jEvent = e, jReceipt = ident, jQueue = st, jGroup = grp\<rparr>), s')" "ok s'" "view s' = view_take st grp (view s)"
    by blast
  have "grp_sees none_left (pnd(st := pnd st @ [(ident, m)])) s'"
    using assms(1) s'(2,3) by (auto simp: grp_sees_def view_take_def)
  then show ?thesis using s'(1) by (simp add: consume_round_def split)
qed

text \<open>The acknowledgement of the last delivery brings the pending entries back to what they were.\<close>

lemma filter_receipt: "x \<notin> fst ` set ps \<Longrightarrow> filter (\<lambda>p. fst p \<noteq> x) (ps @ [(x, m)]) = ps"
  by (auto simp: filter_id_conv)

lemma ack_sees:
  assumes "grp_sees und (pnd(st := pnd st @ [(ident, m)])) s" and "st \<in> set AllStreams" and "ident \<notin> fst ` set (pnd st)"
    and "ok s'" and "view s' = view_ack st grp ident (view s)"
  shows "grp_sees und pnd s'"
proof -
  have v: "view s' x grp = (if x = st then (view s x grp)\<lparr>pending := filter (\<lambda>p. fst p \<noteq> ident) (pending (view s x grp))\<rparr> else view s x grp)" for x
    by (simp add: assms(5) view_ack_def)
  show ?thesis using assms(1-4) filter_receipt [OF assms(3), of m] by (simp add: grp_sees_def v)
qed

lemma retry_sees:
  assumes "grp_sees none_left (pnd(jQueue j := pnd (jQueue j) @ [(jReceipt j, m0)])) s" and "addressed j" and "jGroup j = grp"
    and "jQueue j = stream_of (ePriority (jEvent j))" and "jReceipt j \<notin> fst ` set (pnd (jQueue j))" and "carried (jEvent j)"
  shows "\<exists>s' ident m e'. Retry (client E) (json_Marshal E) j s = (None, s') \<and> ident \<noteq> '''' \<and>
    json_Unmarshal E m = Some e' \<and> copy_of (jEvent j) e' \<and> ident \<notin> fst ` set (pnd (jQueue j)) \<and>
    grp_sees (none_left(jQueue j := [(ident, m)])) pnd s'"
proof -
  obtain t ident m e' where t: "Publish (client E) (json_Marshal E) (jEvent j) s = (None, t)" "ident \<noteq> ''''"
      "json_Unmarshal E m = Some e'" "copy_of (jEvent j) e'" "ident \<notin> fst ` set (pnd (jQueue j) @ [(jReceipt j, m0)])"
      "grp_sees (none_left(jQueue j := [(ident, m)])) (pnd(jQueue j := pnd (jQueue j) @ [(jReceipt j, m0)])) t"
    using publish_sees [OF assms(1,6)] assms(4) by auto
  have ok: "ok t" using t(6) by (simp add: grp_sees_def)
  obtain r s' where a: "Ack (client E) j t = (r, s')" by fastforce
  have "r = None" using acks [of "jQueue j" "jGroup j" "jReceipt j" t] a assms(2) by (auto simp: Ack_def addressed_def split: prod.splits option.splits)
  with redis_streams.Ack_effect [OF streams ok a] assms(3)
  have "ok s'" "view s' = view_ack (jQueue j) grp (jReceipt j) (view t)" by auto
  from ack_sees [OF t(6) _ assms(5) this] assms(4) have "grp_sees (none_left(jQueue j := [(ident, m)])) pnd s'" by simp
  moreover have "Retry (client E) (json_Marshal E) j s = (None, s')"
    using t(1) a \<open>r = None\<close> assms(2) by (simp add: Retry_def addressed_def)
  ultimately show ?thesis using t(2-5) by auto
qed

end

section \<open>Rounds\<close>

lemma run_body_acts:
  "run_body d p n s w = Some (s', w') \<Longrightarrow> \<exists>k \<le> n. run_acts d p (replicate k (ActLoop True)) s w = (s', w')"
proof (induction n arbitrary: s w)
  case (Suc n)
  show ?case
  proof (cases "loop s = AtTop")
    case True
    with Suc.prems show ?thesis by (intro exI [of _ 0]) (simp add: run_body.simps)
  next
    case False
    then obtain s1 w1 where 1: "loop_step d p True s w = Some (s1, w1)" "run_body d p n s1 w1 = Some (s', w')"
      using Suc.prems by (auto simp: run_body.simps split: option.splits)
    from Suc.IH [OF 1(2)] obtain k where "k \<le> n" "run_acts d p (replicate k (ActLoop True)) s1 w1 = (s', w')" by blast
    with 1(1) show ?thesis by (intro exI [of _ "Suc k"]) (simp add: apply_opt_def)
  qed
qed simp

lemma UpdateStatus_ok:
  assumes "wf_db d" and "event_row d i = Some r" and "eStatus r = old" and "IsValidTransition old new"
    and "UpdateStatus no_faults now i old new d = (x, d')"
  shows "event_row d' i = Some (updated_row now new r)"
  using assms(1,5)
proof (cases rule: UpdateStatus_cases)
  case (same err)
  with assms show ?thesis by (simp add: UpdateStatus_normal locked_event_def no_faults_def apply_outcome_def)
next
  case (moved row)
  with assms(2) show ?thesis by (simp add: row_moved_def)
qed

context wire_pipeline
begin

text \<open>An event on its way: its row is queued, its message is the only one the group has not been given.\<close>

definition awaiting :: "(string \<Rightarrow> (string \<times> bytes) list) \<Rightarrow> event \<Rightarrow> int \<Rightarrow> 'r world \<Rightarrow> bool" where
  "awaiting pnd e n w \<longleftrightarrow> sane w \<and> row_is w (eID e) StatusQueued n \<and> eAttempt e = n \<and> carried e \<and>
     (\<exists>ident m. ident \<noteq> '''' \<and> json_Unmarshal E m = Some e \<and> ident \<notin> fst ` set (pnd (stream_of (ePriority e))) \<and>
        grp_sees (none_left(stream_of (ePriority e) := [(ident, m)])) pnd (wOut w))"

definition settled_as :: "(string \<Rightarrow> (string \<times> bytes) list) \<Rightarrow> uuid \<Rightarrow> event_status \<Rightarrow> 'r world \<Rightarrow> bool" where
  "settled_as pnd i st w \<longleftrightarrow> world_status w i = Some st \<and> (st = StatusCompleted \<longrightarrow> idem_row (wDB w) i \<noteq> None) \<and>
     grp_sees none_left pnd (wOut w)"

definition retrying :: "(string \<Rightarrow> (string \<times> bytes) list) \<Rightarrow> event \<Rightarrow> int \<Rightarrow> job \<Rightarrow> 'r world \<Rightarrow> bool" where
  "retrying pnd e n j w \<longleftrightarrow> sane w \<and> row_is w (eID e) StatusRetrying n \<and> jEvent j = e\<lparr>eAttempt := n\<rparr> \<and> addressed j \<and>
     jGroup j = grp \<and> jQueue j = stream_of (ePriority e) \<and> jReceipt j \<notin> fst ` set (pnd (jQueue j)) \<and>
     (\<exists>m. grp_sees none_left (pnd(jQueue j := pnd (jQueue j) @ [(jReceipt j, m)])) (wOut w))"

text \<open>From the top of the loop with the message waiting to the top of the loop with the job dealt with.\<close>

lemma job_round:
  assumes "awaiting pnd e n w" and "loop s = AtTop" and "\<not> ctx_done s" and "retries s = []" and "w_group p = grp"
  shows "\<exists>k s' w' v. k \<le> 14 \<and> run_acts (worker_main_deps E proc) p (replicate k (ActLoop True)) s w = (s', w') \<and>
    loop s' = AtTop \<and> \<not> ctx_done s' \<and>
    (if fst (proc e v) = None then retries s' = [] \<and> settled_as pnd (eID e) StatusCompleted w'
     else if n + 1 < w_maxAttempts p then \<exists>j delay. retries s' = [RetryWait j delay] \<and> retrying pnd e (n + 1) j w'
     else retries s' = [] \<and> settled_as pnd (eID e) StatusFailed w')"
proof -
  let ?d = "worker_main_deps E proc" and ?st = "stream_of (ePriority e)"
  obtain ident m where m: "ident \<noteq> ''''" "json_Unmarshal E m = Some e" "ident \<notin> fst ` set (pnd ?st)"
    "grp_sees (none_left(?st := [(ident, m)])) pnd (wOut w)" using assms(1) by (auto simp: awaiting_def)
  let ?j = "\<lparr>jEvent = e, jReceipt = ident, jQueue = ?st, jGroup = grp\<rparr>"
  obtain s1 where s1: "consume_round (client E) (json_Unmarshal E) False grp (w_id p) (wOut w) = (Some (Inr ?j), s1)"
    "grp_sees none_left (pnd(?st := pnd ?st @ [(ident, m)])) s1"
    using consume_sees [OF m(4) _ m(2)] by auto
  let ?w1 = "w\<lparr>wOut := s1, wCalls := Suc (wCalls w)\<rparr>"
  have w1: "sane ?w1" "row_is ?w1 (eID (jEvent ?j)) StatusQueued n" "addressed ?j"
    using assms(1) s1(2) m(1) group_name
    by (simp_all add: awaiting_def world_sane_def row_is_def grp_sees_def addressed_def stream_of_def)
  have two: "run_acts ?d p [ActLoop True, ActLoop True] s w = (goto (AtBusy ?j) s, ?w1)"
    using assms(2,3,5) s1(1)
    by (simp add: apply_opt_def loop_step_def goto_def worker_main_deps_def queue_Consume_def on_out_def)
  obtain st r w' where h: "handle_job ?d p ?j ?w1 = (st, r, w')" by (metis surj_pair)
  let ?s' = "goto AtTop ((with_retry r s)\<lparr>status := st\<rparr>)"
  have "run_body ?d p 12 (goto (AtBusy ?j) s) ?w1 = Some (?s', w')" using run_job [of ?d p ?j s ?w1] h by simp
  from run_body_acts [OF this] obtain k where k: "k \<le> 12"
    "run_acts ?d p (replicate k (ActLoop True)) (goto (AtBusy ?j) s) ?w1 = (?s', w')" by blast
  have run: "run_acts ?d p (replicate (2 + k) (ActLoop True)) s w = (?s', w')"
    unfolding replicate_add run_acts_append using two k(2) by (simp add: numeral_2_eq_2)
  have waits: "world_waits view ?w1 ?j" using s1(2) by (simp add: world_waits_def grp_sees_def)
  note a = handle_job_acked [OF w1(1) h, unfolded acked_view_def]
  have sees: "grp_sees none_left pnd (wOut w')" if "\<not> world_waits view w' ?j"
  proof -
    have "view (wOut w') = view_ack ?st grp ident (view s1)" "ok (wOut w')"
      using a that waits by (auto simp: world_waits_def world_sane_def)
    with ack_sees [OF s1(2) _ m(3)] show ?thesis by simp
  qed
  have keeps: "grp_sees none_left (pnd(?st := pnd ?st @ [(ident, m)])) (wOut w')" if "world_waits view w' = world_waits view ?w1"
  proof -
    have "world_waits view w' ?j" using that waits by simp
    moreover have "ident \<notin> fst ` set (pending (view_ack ?st grp ident (view s1) ?st grp))" by (auto simp: view_ack_def)
    ultimately have "view (wOut w') = view s1" "ok (wOut w')"
      using a by (auto simp: world_waits_def world_sane_def)
    with s1(2) show ?thesis by (simp add: grp_sees_def)
  qed
  obtain v where v: "if fst (proc e v) = None
    then world_status w' (eID e) = Some StatusCompleted \<and> idem_row (wDB w') (eID e) \<noteq> None \<and> \<not> world_waits view w' ?j \<and> r = None
    else if n + 1 < w_maxAttempts p
    then row_is w' (eID e) StatusRetrying (n + 1) \<and> world_waits view w' = world_waits view ?w1 \<and> (\<exists>delay. r = Some (failed_attempt ?j, delay))
    else row_is w' (eID e) StatusFailed (n + 1) \<and> \<not> world_waits view w' ?j \<and> r = None"
    using handle_job_ok [OF w1 h] unfolding job.select_convs by blast
  have att: "eAttempt e = n" using assms(1) by (simp add: awaiting_def)
  have "if fst (proc e v) = None then retries ?s' = [] \<and> settled_as pnd (eID e) StatusCompleted w'
     else if n + 1 < w_maxAttempts p then \<exists>j delay. retries ?s' = [RetryWait j delay] \<and> retrying pnd e (n + 1) j w'
     else retries ?s' = [] \<and> settled_as pnd (eID e) StatusFailed w'"
  proof (cases "fst (proc e v) = None")
    case True
    with v sees assms(4) show ?thesis by (simp add: settled_as_def with_retry_def)
  next
    case False
    show ?thesis
    proof (cases "n + 1 < w_maxAttempts p")
      case True
      with False v obtain delay where d: "r = Some (failed_attempt ?j, delay)" "row_is w' (eID e) StatusRetrying (n + 1)"
        "world_waits view w' = world_waits view ?w1" by auto
      have "retrying pnd e (n + 1) (failed_attempt ?j) w'"
        using d(2) keeps [OF d(3)] a w1(3) m(3) att by (auto simp: retrying_def failed_attempt_def addressed_def)
      with False True d(1) assms(4) show ?thesis by (simp add: with_retry_def)
    next
      case fin: False
      with False v sees assms(4) show ?thesis
        by (auto simp: settled_as_def with_retry_def row_is_def world_status_def)
    qed
  qed
  moreover have "loop ?s' = AtTop" "\<not> ctx_done ?s'" using assms(3) by (auto simp: with_retry_def split: option.split)
  ultimately show ?thesis using k(1) run by (intro exI [of _ "2 + k"] exI [of _ ?s'] exI [of _ w'] exI [of _ v]) simp
qed

end

context wire_pipeline
begin

text \<open>A retry that is left alone: its timer, the new message, and the row queued again.\<close>

lemma retry_round:
  assumes "retrying pnd e n j w" and "retries s = [RetryWait j delay]" and "loop s = AtTop" and "\<not> ctx_done s"
    and "carried e" and "0 \<le> n" and "n < 2 ^ 63"
  shows "\<exists>s' w' e'. run_acts (worker_main_deps E proc) p (replicate 3 (ActRetry 0 True)) s w = (s', w') \<and>
    loop s' = AtTop \<and> \<not> ctx_done s' \<and> retries s' = [] \<and> awaiting pnd e' n w' \<and> eID e' = eID e \<and> eType e' = eType e"
proof -
  let ?d = "worker_main_deps E proc"
  obtain m where r: "sane w" "row_is w (eID e) StatusRetrying n" "jEvent j = e\<lparr>eAttempt := n\<rparr>" "addressed j" "jGroup j = grp"
    "jQueue j = stream_of (ePriority (jEvent j))" "jReceipt j \<notin> fst ` set (pnd (jQueue j))"
    "grp_sees none_left (pnd(jQueue j := pnd (jQueue j) @ [(jReceipt j, m)])) (wOut w)"
    using assms(1) by (auto simp: retrying_def)
  have "carried (jEvent j)" using carried_attempt [OF assms(5-7)] r(3) by simp
  from retry_sees [OF r(8,4-7) this] obtain t ident m' e' where t: "Retry (client E) (json_Marshal E) j (wOut w) = (None, t)"
    "ident \<noteq> ''''" "json_Unmarshal E m' = Some e'" "copy_of (jEvent j) e'" "ident \<notin> fst ` set (pnd (jQueue j))"
    "grp_sees (none_left(jQueue j := [(ident, m')])) pnd t" by blast
  let ?w1 = "w\<lparr>wOut := t, wCalls := Suc (wCalls w)\<rparr>"
  have w1: "queue_Retry E j w = (None, ?w1)" using t(1) by (simp add: queue_Retry_def on_out_def)
  have s1: "sane ?w1" using r(1) t(6) by (simp add: world_sane_def grp_sees_def)
  obtain x w2 where 2: "repo_UpdateStatus E (eID (jEvent j)) StatusRetrying StatusQueued ?w1 = (x, w2)" by fastforce
  note same = repo_same(4) [OF s1 2, unfolded same_view_def]
  have "UpdateStatus no_faults (now_at E (wCalls ?w1)) (eID e) StatusRetrying StatusQueued (wDB w) = (x, wDB w2)"
    using 2 r(3) by (auto simp: repo_UpdateStatus_def on_db_def calm split: prod.splits)
  from UpdateStatus_ok [OF _ _ _ _ this] r(1,2) have row: "row_is w2 (eID e) StatusQueued n"
    by (auto simp: row_is_def world_sane_def updated_row_def)
  obtain pl where e': "e' = e\<lparr>eAttempt := n, ePayload := pl\<rparr>" "carried e'" using t(4) r(3) by (auto simp: copy_of_def)
  have sees: "grp_sees (none_left(jQueue j := [(ident, m')])) pnd (wOut w2)"
    using t(6) same by (simp add: grp_sees_def world_sane_def)
  have st: "jQueue j = stream_of (ePriority e')" using r(6,3) e'(1) by simp
  have "eAttempt e' = n" "eID e' = eID e" using e'(1) by simp_all
  then have "awaiting pnd e' n w2"
    unfolding awaiting_def st [symmetric] using row same e'(2) t(2,3,5) sees by auto
  moreover have "run_acts ?d p (replicate 3 (ActRetry 0 True)) s w = (s\<lparr>retries := [], wg := wg s - 1\<rparr>, w2)"
    using assms(2) w1 2
    by (simp add: numeral_3_eq_3 apply_opt_def retry_step_def worker_main_deps_def retry_exit_def remove_nth_def)
  ultimately show ?thesis using assms(3,4) e'(1) by (intro exI [of _ "s\<lparr>retries := [], wg := wg s - 1\<rparr>"] exI [of _ w2] exI [of _ e']) simp
qed

lemma rounds_settle:
  assumes "awaiting pnd e n w" and "loop s = AtTop" and "\<not> ctx_done s" and "retries s = []" and "w_group p = grp"
    and "0 \<le> n" and "n < w_maxAttempts p" and "w_maxAttempts p < 2 ^ 63"
  shows "\<exists>as s' w' st. length as \<le> 17 * nat (w_maxAttempts p - n) \<and> set as \<subseteq> {ActLoop True, ActRetry 0 True} \<and>
    run_acts (worker_main_deps E proc) p as s w = (s', w') \<and> loop s' = AtTop \<and> retries s' = [] \<and>
    settled_as pnd (eID e) st w' \<and> (st = StatusCompleted \<or> st = StatusFailed) \<and>
    ((\<forall>e' v. eType e' = eType e \<longrightarrow> fst (proc e' v) = None) \<longrightarrow> st = StatusCompleted)"
  using assms
proof (induction "nat (w_maxAttempts p - n)" arbitrary: n e w s)
  case 0
  then show ?case by simp
next
  case (Suc left)
  let ?d = "worker_main_deps E proc" and ?loops = "\<lambda>k. replicate k (ActLoop True :: 'r world act)"
  obtain k s1 w1 v where 1: "k \<le> 14" "run_acts ?d p (?loops k) s w = (s1, w1)" "loop s1 = AtTop" "\<not> ctx_done s1"
    "if fst (proc e v) = None then retries s1 = [] \<and> settled_as pnd (eID e) StatusCompleted w1
     else if n + 1 < w_maxAttempts p then \<exists>j delay. retries s1 = [RetryWait j delay] \<and> retrying pnd e (n + 1) j w1
     else retries s1 = [] \<and> settled_as pnd (eID e) StatusFailed w1"
    using job_round [OF Suc.prems(1-5)] by blast
  have len: "14 \<le> 17 * nat (w_maxAttempts p - n)" using Suc.prems(7) by simp
  show ?case
  proof (cases "fst (proc e v) = None \<or> \<not> n + 1 < w_maxAttempts p")
    case True
    with 1(1-3,5) len show ?thesis
      by (intro exI [of _ "?loops k"] exI [of _ s1] exI [of _ w1]
          exI [of _ "if fst (proc e v) = None then StatusCompleted else StatusFailed"]) (auto split: if_splits)
  next
    case False
    with 1(5) obtain j delay where j: "retries s1 = [RetryWait j delay]" "retrying pnd e (n + 1) j w1" by auto
    have c: "carried e" using Suc.prems(1) by (simp add: awaiting_def)
    have n1: "0 \<le> n + 1" "n + 1 < 2 ^ 63" using Suc.prems(6,8) False by simp_all
    obtain s2 w2 e' where 2: "run_acts ?d p (replicate 3 (ActRetry 0 True)) s1 w1 = (s2, w2)" "loop s2 = AtTop" "\<not> ctx_done s2"
      "retries s2 = []" "awaiting pnd e' (n + 1) w2" "eID e' = eID e" "eType e' = eType e"
      using retry_round [OF j(2,1) 1(3,4) c n1] by blast
    have "left = nat (w_maxAttempts p - (n + 1))" using Suc.hyps(2) by simp
    moreover have "n + 1 < w_maxAttempts p" using False by simp
    ultimately have "\<exists>as s' w' st. length as \<le> 17 * nat (w_maxAttempts p - (n + 1)) \<and> set as \<subseteq> {ActLoop True, ActRetry 0 True} \<and>
        run_acts ?d p as s2 w2 = (s', w') \<and>
        loop s' = AtTop \<and> retries s' = [] \<and> settled_as pnd (eID e) st w' \<and> (st = StatusCompleted \<or> st = StatusFailed) \<and>
        ((\<forall>e' v. eType e' = eType e \<longrightarrow> fst (proc e' v) = None) \<longrightarrow> st = StatusCompleted)"
      using Suc.hyps(1) [OF _ 2(5,2-4) Suc.prems(5) n1(1) _ Suc.prems(8)] unfolding 2(6,7) by blast
    then obtain as s3 w3 st where as: "set as \<subseteq> {ActLoop True, ActRetry 0 True}"
      and 3: "length as \<le> 17 * nat (w_maxAttempts p - (n + 1))" "run_acts ?d p as s2 w2 = (s3, w3)"
      "loop s3 = AtTop" "retries s3 = []" "settled_as pnd (eID e) st w3" "st = StatusCompleted \<or> st = StatusFailed"
      "(\<forall>e' v. eType e' = eType e \<longrightarrow> fst (proc e' v) = None) \<longrightarrow> st = StatusCompleted"
      by blast
    have "run_acts ?d p (?loops k @ replicate 3 (ActRetry 0 True) @ as) s w = (s3, w3)"
      using 1(2) 2(1) 3(2) by (simp add: run_acts_append)
    moreover have "length (?loops k @ replicate 3 (ActRetry 0 True) @ as) \<le> 17 * nat (w_maxAttempts p - n)"
    proof -
      have "nat (w_maxAttempts p - n) = Suc (nat (w_maxAttempts p - (n + 1)))"
        using False by (simp add: Suc_nat_eq_nat_zadd1)
      with 1(1) 3(1) show ?thesis by simp
    qed
    moreover have "set (?loops k @ replicate 3 (ActRetry 0 True) @ as) \<subseteq> {ActLoop True, ActRetry 0 True}" using as by auto
    ultimately show ?thesis using 3(3-7) by blast
  qed
qed

end

section \<open>From the request on\<close>

context wire_pipeline
begin

definition acceptable :: "draw \<Rightarrow> event_type \<Rightarrow> int \<Rightarrow> bytes \<Rightarrow> bool" where
  "acceptable dr t p pl \<longleftrightarrow> known_type t \<and> p \<in> {1, 5, 10} \<and> member_value pl \<and>
     time_text zone (dCreated dr) \<noteq> None \<and> time_text zone (dUpdated dr) \<noteq> None"

lemma accepted_event:
  assumes "acceptable dr t p pl" and "list_all isSpace pre"
  shows "\<exists>e. accept_request decode_request dr (pre @ request_text t p pl @ junk) = Inr e \<and> carried e \<and>
    e = new_event dr \<lparr>rType = t, rPriority = p, rPayload = pl\<rparr>"
proof -
  let ?e = "new_event dr \<lparr>rType = t, rPriority = p, rPayload = pl\<rparr>"
  have a: "known_type t" "p \<in> {1, 5, 10}" "member_value pl" "json_Valid pl"
    using assms(1) by (simp_all add: acceptable_def member_value_def)
  have "decode_request (pre @ request_text t p pl @ junk) = Some \<lparr>rType = t, rPriority = p, rPayload = pl\<rparr>"
    using a ascii_types assms(2) by (intro decode_written) auto
  moreover have "Validate ?e = None"
    using a by (simp add: Validate_None_iff known_type_def new_event_def priority_defs)
  moreover have "carried ?e"
    unfolding carried_def marshal encode_event_succeeds
    using a assms(1) ascii_utf8 [OF ascii_types [OF a(1)]] utf8_ascii [of StatusReceived]
    by (auto simp: acceptable_def new_event_def member_value_def status_defs ord_def)
  ultimately show ?thesis by (simp add: accept_request_def)
qed

lemma received_same: "sane w \<Longrightarrow> same_view w (out_only (EventsReceived_Add (plat E) t) w)"
  using out_only_neutral [of ok view "EventsReceived_Add (plat E) t" w] platform
  by (simp add: same_view_def neutral_platform_def)

lemma posted_awaits:
  assumes "acceptable dr t p pl" and "list_all isSpace pre" and "sane w" and "grp_sees none_left pnd (wOut w)"
    and "jsonb_in E pl = Some pl'" and "event_row (wDB w) (dID dr) = None"
  shows "\<exists>rs w' e. HandleCreateEvent E decode_request dr (pre @ request_text t p pl @ junk) w = (rs, w') \<and> rsCode rs = 202 \<and>
    awaiting pnd e 0 w' \<and> eID e = dID dr \<and> eType e = t"
proof -
  let ?body = "pre @ request_text t p pl @ junk"
  obtain e where e: "accept_request decode_request dr ?body = Inr e" "carried e"
    "e = new_event dr \<lparr>rType = t, rPriority = p, rPayload = pl\<rparr>"
    using accepted_event [OF assms(1,2)] by blast
  then have ev: "eID e = dID dr" "eType e = t" "ePayload e = pl" "eAttempt e = 0" by (simp_all add: new_event_def)
  obtain x1 w1 where 1: "repo_Create E e w = (x1, w1)" by fastforce
  have s1: "sane w1"
    using db_step [OF assms(3) 1 [unfolded repo_Create_def], of "jsonb_in E" "uuid_Parse E" "OpCreate (faults_at E (wCalls w)) e"] by simp
  have o1: "wOut w1 = wOut w" using repo_Create_split(1) [OF 1] .
  obtain s2 ident m e' where 2: "Publish (client E) (json_Marshal E) e (wOut w) = (None, s2)" "ident \<noteq> ''''"
    "json_Unmarshal E m = Some e'" "copy_of e e'" "ident \<notin> fst ` set (pnd (stream_of (ePriority e)))"
    "grp_sees (none_left(stream_of (ePriority e) := [(ident, m)])) pnd s2"
    using publish_sees [OF assms(4) e(2)] by blast
  let ?w2 = "w1\<lparr>wOut := s2, wCalls := Suc (wCalls w1)\<rparr>"
  have p2: "queue_Publish E e w1 = (None, ?w2)" using 2(1) o1 by (simp add: queue_Publish_def on_out_def)
  have s2: "sane ?w2" using s1 2(6) by (simp add: world_sane_def grp_sees_def)
  obtain x3 w3 where 3: "repo_UpdateStatus E (eID e) StatusReceived StatusQueued ?w2 = (x3, w3)" by fastforce
  note v3 = repo_same(4) [OF s2 3]
  note v4 = same_trans [OF v3 out_same(1) [OF same_sane [OF v3], of "received_msg (uuid_Text E) (eID e)"]]
  note v5 = same_trans [OF v4 received_same [OF same_sane [OF v4], of "eType e"]]
  let ?w5 = "out_only (EventsReceived_Add (plat E) (eType e)) (RedisBroadcast E (received_msg (uuid_Text E) (eID e)) w3)"
  obtain n w' where h: "HandleCreateEvent E decode_request dr ?body w = (created_response e, w')"
    "event_row (wDB w') = (event_row (wDB w))(eID e \<mapsto> (stored_event pl' e)\<lparr>eStatus := StatusQueued, eUpdatedAt := timestamptz (now_at E n)\<rparr>)"
    using HandleCreateEvent_ok [OF e(1) _ _ _ _ 2(1), of pl'] assms(3,5,6) calm ev by (auto simp: world_sane_def)
  have code: "rsCode (created_response e) = 202" "rsCode server_error = 500"
    by (simp_all add: created_response_def server_error_def http_Error_def json_response_def code_defs)
  have "x1 = None"
  proof (rule ccontr)
    assume "x1 \<noteq> None"
    then have "fst (HandleCreateEvent E decode_request dr ?body w) = server_error"
      using e(1) 1 by (auto simp: HandleCreateEvent_def)
    with h(1) code show False by simp
  qed
  then have w': "w' = ?w5" using h(1) e(1) 1 p2 3 by (simp add: HandleCreateEvent_def Let_def announce_received_def)
  have row: "row_is w' (eID e') StatusQueued 0" using h(2) 2(4) ev by (auto simp: row_is_def copy_of_def)
  have sees: "grp_sees (none_left(stream_of (ePriority e') := [(ident, m)])) pnd (wOut w')"
    using 2(4,6) v5 unfolding w' by (auto simp: grp_sees_def same_view_def world_sane_def copy_of_def)
  have cp: "carried e'" "eID e' = eID e" "eType e' = eType e" "eAttempt e' = 0" "ePriority e' = ePriority e"
    using 2(4) ev by (auto simp: copy_of_def)
  have "awaiting pnd e' 0 w'"
    unfolding awaiting_def using same_sane [OF v5] row sees cp 2(2,3,5) by (auto simp: w')
  with h(1) code cp ev show ?thesis by auto
qed

end

end
