(* ===== verification/Accepted.thy ===== *)
theory Accepted
  imports Delivery
begin

text \<open>
  The property of the whole way, for every server, codec of UUIDs and time zone that satisfy the
  assumptions of \<open>wire_pipeline\<close>, and the interpretation of that locale on bytes: the server of \<open>RedisModel\<close>
  with the encoder and decoder of \<open>EventCodec\<close> on its messages.
\<close>

section \<open>Bytes on the server\<close>

lemma mem_reads: "exists_group (mem_view s st g) \<Longrightarrow> fst (mem_xreadgroup g name st s) \<noteq> ReadError err"
  by (auto simp: mem_view_def mem_xreadgroup_def split: option.splits list.splits)

lemma declines_neutral: "neutral_processor ok view (\<lambda>e w. (Some (ErrProcessor ''declined''), w))"
  by (simp add: neutral_processor_def)

lemma wire_pipeline_with:
  assumes "neutral_processor mem_ok mem_view proc"
  shows "wire_pipeline wire_env mem_view mem_ok proc (\<lambda>_. 7200) ''workers''"
proof (intro wire_pipeline.intro calm_pipeline.intro pipeline.intro)
  show "calm_pipeline_axioms wire_env" by unfold_locales (simp_all add: wire_env_def mem_client_def mem_xack_def)
  show "wire_pipeline_axioms wire_env mem_view mem_ok (\<lambda>_. 7200) ''workers''"
    using canonical_law mem_reads by unfold_locales (simp_all add: wire_env_def mem_client_def mem_xadd_def)
qed (use assms mem.redis_streams_axioms mem_platform_neutral in \<open>simp_all add: wire_env_def\<close>)

interpretation wire: wire_pipeline wire_env mem_view mem_ok main_processor "\<lambda>_. 7200" "''workers''"
  by (rule wire_pipeline_with [OF main_processor_neutral])


section \<open>The property\<close>

text \<open>
  C2 A request that is accepted is an event that is settled. Where the database has no faults, the server
  answers, queue and API agree on the codec of \<open>EventCodec\<close> and the streams of the group are drained, the
  bytes of any acceptable request, with space before and anything behind, are answered with 202, and from
  the world the handler leaves a worker at the top of its loop needs at most 17 steps for every attempt it
  has, all of them its own (its loop and the goroutine of the retry it spawned), to be back at the top with
  nothing left to retry: the row is then completed and its result recorded, or it is failed, which can only
  happen if the processor refuses events of that type; no stream has anything undelivered, and nothing is
  pending that was not pending before. The message went through the bytes of the stream in every round. It
  is about one worker left to itself: \<open>lost_event_stays_lost\<close> is a run in which a worker interferes with
  the handler.
\<close>

theorem accepted_event_settles:
  assumes "redis_streams (client E) view ok" and "neutral_platform ok view (plat E)" and "neutral_processor ok view proc"
    and "\<forall>n. faults_at E n = no_faults" and "\<forall>st g i s. fst (XAck (client E) st g i s) = None"
    and "\<forall>s st m. ok s \<longrightarrow> fst (XAdd (client E) st m s) = None"
    and "\<forall>s st name err. ok s \<and> exists_group (view s st (w_group p)) \<longrightarrow>
      fst (XReadGroup (client E) (w_group p) name st s) \<noteq> ReadError err"
    and "json_Marshal E = encode_event (uuid_Text E) zone" and "json_Unmarshal E = decode_event (uuid_Parse E)"
    and "\<forall>i. utf8 (uuid_Text E i) \<and> uuid_Parse E (uuid_Text E i) = Some i" and "\<forall>t. 60 dvd zone t"
    and "w_group p \<noteq> ''''" and "0 < w_maxAttempts p" and "w_maxAttempts p < 2 ^ 63"
    and "world_sane ok w" and "\<forall>st \<in> set AllStreams. exists_group (view (wOut w) st (w_group p)) \<and>
      undelivered (view (wOut w) st (w_group p)) = []"
    and "known_type t" and "q \<in> {PriorityLow, PriorityNormal, PriorityHigh}" and "member_value pl"
    and "time_text zone (dCreated dr) \<noteq> None" and "time_text zone (dUpdated dr) \<noteq> None"
    and "jsonb_in E pl \<noteq> None" and "event_row (wDB w) (dID dr) = None" and "list_all isSpace pre"
    and "loop s = AtTop" and "\<not> ctx_done s" and "retries s = []"
  shows "\<exists>rs w1 as s' w2 st.
    HandleCreateEvent E decode_request dr (pre @ request_text t q pl @ junk) w = (rs, w1) \<and> rsCode rs = StatusAccepted \<and>
    length as \<le> 17 * nat (w_maxAttempts p) \<and> set as \<subseteq> {ActLoop True, ActRetry 0 True} \<and>
    run_acts (worker_main_deps E proc) p as s w1 = (s', w2) \<and> loop s' = AtTop \<and> retries s' = [] \<and>
    world_status w2 (dID dr) = Some st \<and>
    (st = StatusCompleted \<and> idem_row (wDB w2) (dID dr) \<noteq> None \<or>
     st = StatusFailed \<and> (\<exists>e v. eType e = t \<and> fst (proc e v) \<noteq> None)) \<and>
    (\<forall>x \<in> set AllStreams. undelivered (view (wOut w2) x (w_group p)) = [] \<and>
      pending (view (wOut w2) x (w_group p)) = pending (view (wOut w) x (w_group p)))"
proof -
  let ?pnd = "\<lambda>st. pending (view (wOut w) st (w_group p))"
  have wp: "wire_pipeline E view ok proc zone (w_group p)"
    using assms(1-12) by (intro wire_pipeline.intro calm_pipeline.intro pipeline.intro calm_pipeline_axioms.intro
        wire_pipeline_axioms.intro) blast+
  have acc: "wire_pipeline.acceptable zone dr t q pl"
    using assms(17-21) by (simp add: wire_pipeline.acceptable_def [OF wp] priority_defs)
  have sees: "wire_pipeline.grp_sees view ok (w_group p) (\<lambda>_. []) ?pnd (wOut w)"
    using assms(15,16) by (simp add: wire_pipeline.grp_sees_def [OF wp] world_sane_def)
  obtain pl' where pl': "jsonb_in E pl = Some pl'" using assms(22) by blast
  obtain rs w1 e where 1: "HandleCreateEvent E decode_request dr (pre @ request_text t q pl @ junk) w = (rs, w1)" "rsCode rs = 202"
    "wire_pipeline.awaiting E view ok (w_group p) ?pnd e 0 w1" "eID e = dID dr" "eType e = t"
    using wire_pipeline.posted_awaits [OF wp acc assms(24,15) sees pl' assms(23)] by blast
  obtain as s' w2 st where 2: "length as \<le> 17 * nat (w_maxAttempts p - 0)" "set as \<subseteq> {ActLoop True, ActRetry 0 True}"
    "run_acts (worker_main_deps E proc) p as s w1 = (s', w2)" "loop s' = AtTop" "retries s' = []"
    "wire_pipeline.settled_as view ok (w_group p) ?pnd (eID e) st w2" "st = StatusCompleted \<or> st = StatusFailed"
    "(\<forall>e' v. eType e' = eType e \<longrightarrow> fst (proc e' v) = None) \<longrightarrow> st = StatusCompleted"
    using wire_pipeline.rounds_settle [OF wp 1(3) assms(25-27) refl order_refl assms(13,14)] by blast
  have "StatusCompleted \<noteq> StatusFailed" by (simp add: status_defs)
  with 2(6-8) 1(4,5) have "world_status w2 (dID dr) = Some st \<and>
    (st = StatusCompleted \<and> idem_row (wDB w2) (dID dr) \<noteq> None \<or>
     st = StatusFailed \<and> (\<exists>e v. eType e = t \<and> fst (proc e v) \<noteq> None)) \<and>
    (\<forall>x \<in> set AllStreams. undelivered (view (wOut w2) x (w_group p)) = [] \<and> pending (view (wOut w2) x (w_group p)) = ?pnd x)"
    by (auto simp: wire_pipeline.settled_as_def [OF wp] wire_pipeline.grp_sees_def [OF wp])
  with 1(1,2) 2(1-5) show ?thesis
    by (intro exI [of _ rs] exI [of _ w1] exI [of _ as] exI [of _ s'] exI [of _ w2] exI [of _ st]) (simp add: code_defs)
qed


definition wire_groups :: "bytes mem_redis" where
  "wire_groups = snd (InitConsumerGroups mem_client ''workers'' mem_empty)"

lemma wire_groups_eq:
  "wire_groups = \<lparr>mr_streams = (\<lambda>st. \<lparr>ms_entries = [],
      ms_groups = (\<lambda>g. if g = ''workers'' \<and> st \<in> set AllStreams then Some (0, []) else None)\<rparr>), mr_next = 1, mr_keys = [], mr_published = []\<rparr>"
  by (simp add: wire_groups_def mem_empty_def mem_unfold fun_eq_iff)

definition wire_world :: "bytes mem_redis world" where
  "wire_world = \<lparr>wDB = empty_db, wOut = wire_groups, wCalls = 0\<rparr>"

definition wire_worker :: worker where
  "wire_worker = quiet_worker\<lparr>w_group := ''workers''\<rparr>"

definition wire_draw :: draw where
  "wire_draw = \<lparr>dID = 11, dCreated = 1700000000123456789, dUpdated = 1700000000123456789\<rparr>"

lemma wire_world_ready:
  "world_sane mem_ok wire_world"
  "st \<in> set AllStreams \<Longrightarrow> exists_group (mem_view (wOut wire_world) st ''workers'') \<and>
     undelivered (mem_view (wOut wire_world) st ''workers'') = []"
  "event_row (wDB wire_world) i = None"
  by (simp_all add: wire_world_def world_sane_def wire_groups_eq mem_ok_def mem_stream_ok_def mem_view_def
      new_entries_def empty_db_def wf_db_def finalized_ok_def event_row_def idem_row_def row_select_def unique_key_def)

lemma main_processor_orders: "eType e = TypeOrderCreated \<Longrightarrow> fst (main_processor e v) = None"
proof -
  obtain r where "main_registry (\<lambda>_ _ w. w) = Some (r :: 'a registry)"
      "\<And>t. r t = map_option (DummyProcessor_Process (\<lambda>_ _ w. w)) (map_of main_registrations t)"
    using main_registry_lookup [where slog_Info = "\<lambda>_ _ (w :: 'a). w"] by blast
  then show "eType e = TypeOrderCreated \<Longrightarrow> fst (main_processor e v) = None"
    by (simp add: main_processor_def Registry_Process_def DummyProcessor_Process_def main_registrations_def)
qed

text \<open>The processors of the program complete the event.\<close>

theorem accepted_event_settles_witness:
  "\<exists>rs w1 as s' w2.
    HandleCreateEvent wire_env decode_request wire_draw ('' '' @ request_text TypeOrderCreated 10 ''{\"a\":[1]}'' @ ''xyz'') wire_world =
      (rs, w1) \<and> rsCode rs = StatusAccepted \<and> length as \<le> 51 \<and>
    run_acts (worker_main_deps wire_env main_processor) wire_worker as (NewWorker\<lparr>loop := AtTop\<rparr>) w1 = (s', w2) \<and>
    world_status w2 11 = Some StatusCompleted \<and> idem_row (wDB w2) 11 \<noteq> None"
proof -
  have w: "w_group wire_worker = ''workers''" "w_maxAttempts wire_worker = 3"
    by (simp_all add: wire_worker_def quiet_worker_def)
  have pl: "member_value ''{\"a\":[1]}''"
    by (simp add: member_value_def isSpace_def json_Valid_def scan_eof_def scan_unfold isDigit_def state0_def)
  have t: "time_text (\<lambda>_. 7200) (dCreated wire_draw) \<noteq> None" "time_text (\<lambda>_. 7200) (dUpdated wire_draw) \<noteq> None"
    by (simp_all add: wire_draw_def travelling_time)
  have codec: "json_Marshal wire_env = encode_event (uuid_Text wire_env) (\<lambda>_. 7200)"
      "json_Unmarshal wire_env = decode_event (uuid_Parse wire_env)"
      "\<forall>i. utf8 (uuid_Text wire_env i) \<and> uuid_Parse wire_env (uuid_Text wire_env i) = Some i"
    by (simp_all add: wire_env_def canonical_law)
  have server: "\<forall>s st m. mem_ok s \<longrightarrow> fst (XAdd (client wire_env) st m s) = None"
      "\<forall>s st name err. mem_ok s \<and> exists_group (mem_view s st (w_group wire_worker)) \<longrightarrow>
        fst (XReadGroup (client wire_env) (w_group wire_worker) name st s) \<noteq> ReadError err"
    by (simp add: wire_env_def mem_client_def mem_xadd_def) (auto simp: wire_env_def mem_client_def dest: mem_reads)
  have known: "known_type TypeOrderCreated" by (simp add: known_type_def)
  have orders: "\<not> (\<exists>e v. eType e = TypeOrderCreated \<and> fst (main_processor e (v :: bytes mem_redis world)) \<noteq> None)"
    by (auto simp: main_processor_orders)
  have worker: "loop (NewWorker\<lparr>loop := AtTop\<rparr>) = AtTop" "\<not> ctx_done (NewWorker\<lparr>loop := AtTop\<rparr>)"
      "retries (NewWorker\<lparr>loop := AtTop\<rparr>) = []" by (simp_all add: NewWorker_def)
  have groups: "\<forall>st \<in> set AllStreams. exists_group (mem_view (wOut wire_world) st (w_group wire_worker)) \<and>
      undelivered (mem_view (wOut wire_world) st (w_group wire_worker)) = []" using wire_world_ready(2) w by simp
  have calm: "\<forall>n. faults_at wire_env n = no_faults" "\<forall>st g i s. fst (XAck (client wire_env) st g i s) = None"
    using wire.calm wire.acks by simp_all
  have small: "\<forall>t :: int. 60 dvd (7200 :: int)" "w_group wire_worker \<noteq> ''''" "0 < w_maxAttempts wire_worker" "w_maxAttempts wire_worker < 2 ^ 63"
      "(10 :: int) \<in> {PriorityLow, PriorityNormal, PriorityHigh}" "jsonb_in wire_env ''{\"a\":[1]}'' \<noteq> None" "list_all isSpace '' ''"
    by (simp_all add: w priority_defs wire_env_def isSpace_def)
  have id: "dID wire_draw = 11" by (simp add: wire_draw_def)
  obtain rs w1 as s' w2 st where r:
    "HandleCreateEvent wire_env decode_request wire_draw ('' '' @ request_text TypeOrderCreated 10 ''{\"a\":[1]}'' @ ''xyz'') wire_world =
      (rs, w1)" "rsCode rs = StatusAccepted" "length as \<le> 17 * nat (w_maxAttempts wire_worker)"
    "run_acts (worker_main_deps wire_env main_processor) wire_worker as (NewWorker\<lparr>loop := AtTop\<rparr>) w1 = (s', w2)"
    "world_status w2 (dID wire_draw) = Some st"
    "st = StatusCompleted \<and> idem_row (wDB w2) (dID wire_draw) \<noteq> None \<or>
     st = StatusFailed \<and> (\<exists>e v. eType e = TypeOrderCreated \<and> fst (main_processor e (v :: bytes mem_redis world)) \<noteq> None)"
    using accepted_event_settles [OF wire.streams wire.platform wire.processing calm server codec small(1-4) wire_world_ready(1) groups
      known small(5) pl t small(6) wire_world_ready(3) small(7) worker, of "''xyz''"]
    by (elim exE conjE) (rule that)
  from r(3) have "length as \<le> 51" by (simp add: w)
  moreover from r(5,6) orders have "world_status w2 11 = Some StatusCompleted \<and> idem_row (wDB w2) 11 \<noteq> None"
    unfolding id by blast
  ultimately show ?thesis using r(1,2,4) by blast
qed

end
