(* ===== verification/ResponseBytes.thy ===== *)
theory ResponseBytes
  imports ApiProps EventCodec "HOL-Library.List_Lexorder" "HOL-Library.Char_ord"
begin

text \<open>
  What the handlers of \<open>internal/api/handler.go\<close> and \<open>writeJSON\<close> send: \<open>json.NewEncoder(w).Encode\<close> marshals the
  whole value, and only then writes it with a newline. When marshalling fails nothing is written; the code
  of the response is then 200 all the same, or the one already sent.
\<close>

section \<open>Bodies as bytes\<close>

fun values_text :: "bytes list \<Rightarrow> bytes" where
  "values_text [] = []"
| "values_text [v] = v"
| "values_text (v # vs) = v @ CHR '','' # values_text vs"

definition array_text :: "bytes list \<Rightarrow> bytes" where
  "array_text vs = CHR ''['' # values_text vs @ '']''"

definition encode_created :: "(uuid \<Rightarrow> bytes) \<Rightarrow> CreateEventResponse \<Rightarrow> bytes" where
  "encode_created utext r = object_text [(''id'', encode_string (utext (pID r))), (''status'', encode_string (pStatus r))]"

text \<open>A map is written in the order of its keys.\<close>

definition encode_map :: "(string \<times> string) list \<Rightarrow> bytes" where
  "encode_map kvs = object_text (map (\<lambda>(k, v). (escape k, encode_string v)) (sort_key fst kvs))"

fun encode_body :: "(uuid \<Rightarrow> bytes) \<Rightarrow> (time \<Rightarrow> int) \<Rightarrow> body \<Rightarrow> bytes option" where
  "encode_body utext zone (TextBody t) = Some t"
| "encode_body utext zone (CreatedBody r) = Some (encode_created utext r @ [CHR 0x0A])"
| "encode_body utext zone (EventBody e) = map_option (\<lambda>b. b @ [CHR 0x0A]) (encode_event utext zone e)"
| "encode_body utext zone (EventsBody es) =
     map_option (\<lambda>bs. array_text bs @ [CHR 0x0A]) (those (map (encode_event utext zone) es))"
| "encode_body utext zone (MapBody kvs) = Some (encode_map kvs @ [CHR 0x0A])"

definition response_bytes :: "(uuid \<Rightarrow> bytes) \<Rightarrow> (time \<Rightarrow> int) \<Rightarrow> response \<Rightarrow> bytes" where
  "response_bytes utext zone rs = (case encode_body utext zone (rsBody rs) of None \<Rightarrow> [] | Some b \<Rightarrow> b)"

section \<open>Values below other values\<close>

text \<open>A value that leaves the scanner after a value, on the stack it found.\<close>

definition value_under :: "parse_state list \<Rightarrow> bytes \<Rightarrow> bool" where
  "value_under k v \<longleftrightarrow> snd (scan (BeginValue, k) v) = k \<and>
     fst (scan (BeginValue, k) v) \<in> {EndValue, Digits, Zero, DotDigits, ExpDigits}"

lemma value_under_then:
  assumes "value_under (p # k) v"
  shows "p = ParseObjectValue \<Longrightarrow> scan_step (scan (BeginValue, p # k) v) CHR '','' = (BeginString, ParseObjectKey # k)"
    "p = ParseObjectValue \<Longrightarrow> scan_step (scan (BeginValue, p # k) v) CHR ''}'' = pop_state k"
    "p = ParseArrayValue \<Longrightarrow> scan_step (scan (BeginValue, p # k) v) CHR '','' = (BeginValue, p # k)"
    "p = ParseArrayValue \<Longrightarrow> scan_step (scan (BeginValue, p # k) v) CHR '']'' = pop_state k"
proof -
  obtain st where s: "scan (BeginValue, p # k) v = (st, p # k)" "st \<in> {EndValue, Digits, Zero, DotDigits, ExpDigits}"
    using assms by (cases "scan (BeginValue, p # k) v") (simp add: value_under_def)
  show "p = ParseObjectValue \<Longrightarrow> scan_step (scan (BeginValue, p # k) v) CHR '','' = (BeginString, ParseObjectKey # k)"
    "p = ParseObjectValue \<Longrightarrow> scan_step (scan (BeginValue, p # k) v) CHR ''}'' = pop_state k"
    "p = ParseArrayValue \<Longrightarrow> scan_step (scan (BeginValue, p # k) v) CHR '','' = (BeginValue, p # k)"
    "p = ParseArrayValue \<Longrightarrow> scan_step (scan (BeginValue, p # k) v) CHR '']'' = pop_state k"
    using s(2) unfolding s(1) by (auto simp: state0_def end_value_def isSpace_def isDigit_def)
qed

lemma flat_under:
  "value_under k (encode_string s)" "value_under k (Itoa n)" "value_under k ''null''"
proof -
  show "value_under k (encode_string s)"
    by (simp add: value_under_def encode_string_def scan_escape begin_value_def isSpace_def)
  show "value_under k (Itoa n)" using scan_Itoa [of k n] by (auto simp: value_under_def)
  show "value_under k ''null''" by (simp add: value_under_def begin_value_def isSpace_def expect_def isDigit_def)
qed

text \<open>More levels below change nothing as long as they fit.\<close>

definition lifted :: "parse_state list \<Rightarrow> scanner \<Rightarrow> scanner" where
  "lifted k s = (fst s, snd s @ k)"

lemma lifted_step:
  assumes "snd s \<noteq> []" and "snd (scan_step s c) \<noteq> []" and "fst (scan_step (lifted k s) c) \<noteq> ScanError"
  shows "scan_step (lifted k s) c = lifted k (scan_step s c)"
proof -
  obtain st p stk where s: "s = (st, p # stk)" using assms(1) by (cases s; cases "snd s") auto
  show ?thesis
    using assms(2,3) unfolding s lifted_def
    by (cases st; cases p)
      (auto simp: scan_error_def end_top_def end_value_def begin_value_def begin_string_def push_state_def pop_state_def
        state0_def expect_def split: if_splits)
qed

lemma empty_stack_stays: "snd (scan_step s c) = [] \<Longrightarrow> snd s \<noteq> [] \<Longrightarrow> snd (scan (scan_step s c) cs) = []"
proof -
  assume e: "snd (scan_step s c) = []" and n: "snd s \<noteq> []"
  obtain st p stk where s: "s = (st, p # stk)" using n by (cases s; cases "snd s") auto
  have "fst (scan_step s c) \<in> {EndTop, ScanError}"
    using e unfolding s
    by (cases st; cases p)
      (auto simp: scan_error_def end_top_def end_value_def begin_value_def begin_string_def push_state_def pop_state_def
        state0_def expect_def split: if_splits)
  moreover have "snd (scan (EndTop, []) cs) = []"
  proof (induction cs)
    case (Cons c cs)
    show ?case
    proof (cases "isSpace c")
      case False
      have "scan_step (EndTop, []) c = scan_error" using False by (simp add: end_top_def)
      then have "scan (EndTop, []) (c # cs) = scan_error" by simp
      then show ?thesis by (simp add: scan_error_def)
    qed (use Cons in \<open>simp add: end_top_def\<close>)
  qed simp
  moreover have "snd (scan (ScanError, []) cs) = []" using scan_error_stuck [of cs] by (simp add: scan_error_def)
  ultimately show ?thesis using e by (metis insertE prod.collapse singletonD)
qed

lemma lifted_scan:
  "snd s \<noteq> [] \<Longrightarrow> snd (scan s v) \<noteq> [] \<Longrightarrow> fst (scan (lifted k s) v) \<noteq> ScanError \<Longrightarrow> scan (lifted k s) v = lifted k (scan s v)"
proof (induction v arbitrary: s)
  case (Cons c v)
  have ne: "snd (scan_step s c) \<noteq> []" using Cons.prems(1,2) empty_stack_stays [of s c v] by auto
  have ok: "fst (scan_step (lifted k s) c) \<noteq> ScanError"
    using Cons.prems(3) scan_after_error [of "scan_step (lifted k s) c" v] by auto
  from lifted_step [OF Cons.prems(1) ne ok] Cons.IH [OF ne] Cons.prems show ?case by simp
qed simp

lemma member_under:
  assumes "member_value v" and "fst (scan (BeginValue, ParseObjectValue # k) v) \<noteq> ScanError"
  shows "value_under (ParseObjectValue # k) v"
proof -
  note s = split_member_value(2,3) [OF assms(1), of "CHR '',''"]
  have "scan (lifted k (BeginValue, [ParseObjectValue])) v = lifted k (scan (BeginValue, [ParseObjectValue]) v)"
    by (rule lifted_scan) (use s(1) assms(2) in \<open>simp_all add: lifted_def\<close>)
  with s show ?thesis by (simp add: lifted_def value_under_def)
qed


section \<open>Objects and arrays below others\<close>

lemma scan_member_under:
  assumes "ascii_text key" and "st \<in> {BeginString, BeginStringOrEmpty}"
  shows "scan (st, ParseObjectKey # k) (member_text (key, v)) = scan (BeginValue, ParseObjectValue # k) v"
proof -
  have "scan (InString, ParseObjectKey # k) key = (InString, ParseObjectKey # k)"
    using assms(1) by (intro scan_plain) (auto simp: ascii_text_def list_all_iff)
  with assms(2) show ?thesis by (auto simp: member_text_def scan_unfold)
qed

lemma scan_members_under:
  "\<forall>kv \<in> set kvs. ascii_text (fst kv) \<and> value_under (ParseObjectValue # k) (snd kv) \<Longrightarrow> kvs \<noteq> [] \<Longrightarrow>
   st \<in> {BeginString, BeginStringOrEmpty} \<Longrightarrow>
   scan (st, ParseObjectKey # k) (members_text kvs) = scan (BeginValue, ParseObjectValue # k) (snd (last kvs))"
proof (induction kvs arbitrary: st rule: members_text.induct)
  case (2 kv)
  then show ?case using scan_member_under [of "fst kv" st k "snd kv"] by simp
next
  case (3 kv kv' kvs)
  have "ascii_text (fst kv)" and u: "value_under (ParseObjectValue # k) (snd kv)" using 3(2) by simp_all
  with scan_member_under [OF this(1) 3(4), of k "snd kv"] value_under_then(1) [OF u] 3 show ?case by simp
qed simp

lemma object_under:
  assumes "\<forall>kv \<in> set kvs. ascii_text (fst kv) \<and> value_under (ParseObjectValue # k) (snd kv)" and "kvs \<noteq> []"
    and "length k < maxNestingDepth"
  shows "scan (BeginValue, k) (object_text kvs) = pop_state k"
proof -
  have "value_under (ParseObjectValue # k) (snd (last kvs))" using assms(1,2) by simp
  with scan_members_under [OF assms(1,2), of BeginStringOrEmpty] assms(3) value_under_then(2) show ?thesis
    by (simp add: object_text_def begin_value_def isSpace_def push_state_def)
qed

lemma scan_values:
  "\<forall>v \<in> set vs. value_under (ParseArrayValue # k) v \<Longrightarrow> vs \<noteq> [] \<Longrightarrow>
   scan (BeginValue, ParseArrayValue # k) (values_text vs) = scan (BeginValue, ParseArrayValue # k) (last vs)"
  by (induction vs rule: values_text.induct) (simp_all add: value_under_then(3))

lemma array_json:
  assumes "\<forall>v \<in> set vs. value_under [ParseArrayValue] v" and "\<forall>v \<in> set vs. \<exists>b. v = CHR ''{'' # b"
  shows "json_Valid (array_text vs)"
proof (cases "vs = []")
  case True
  then show ?thesis by (simp add: array_text_def json_Valid_def scan_eof_def scan_unfold)
next
  case False
  obtain b where b: "values_text vs = CHR ''{'' # b"
    using False assms(2) by (cases vs rule: values_text.cases) auto
  have "scan (BeginValueOrEmpty, [ParseArrayValue]) (values_text vs) = scan (BeginValue, [ParseArrayValue]) (values_text vs)"
    unfolding b by (simp add: isSpace_def)
  also have "\<dots> = scan (BeginValue, [ParseArrayValue]) (last vs)" by (rule scan_values [OF assms(1) False])
  finally have "scan (BeginValue, []) (array_text vs) = (EndTop, [])"
    using value_under_then(4) [of ParseArrayValue "[]" "last vs"] assms(1) False
    by (simp add: array_text_def begin_value_def isSpace_def push_state_def maxNestingDepth_def pop_state_def)
  then show ?thesis by (simp add: json_Valid_def scan_eof_def)
qed

section \<open>Events in responses\<close>

text \<open>
  The payload leaves room for the levels around it; a payload that came in by a request does so, except one
  of 9999 levels, which an array of events cannot hold.
\<close>

definition roomy :: "parse_state list \<Rightarrow> event \<Rightarrow> bool" where
  "roomy k e \<longleftrightarrow> (ePayload e \<noteq> [] \<longrightarrow> fst (scan (BeginValue, [ParseObjectValue]) (ePayload e)) \<noteq> ScanError) \<and>
     (\<forall>b. raw_text (ePayload e) = Some b \<longrightarrow> fst (scan (BeginValue, ParseObjectValue # k) b) \<noteq> ScanError)"

lemma event_under:
  assumes "encode_event utext zone e = Some b" and "roomy k e" and "length k < maxNestingDepth"
  shows "scan (BeginValue, k) b = pop_state k" "\<exists>t. b = CHR ''{'' # t"
proof -
  obtain kvs where kvs: "event_members utext zone e = Some kvs" "b = object_text kvs"
    using assms(1) by (auto simp: encode_event_def)
  have t: "value_under k' v" if "time_value zone t = Some v" for k' t v
    using time_value_encoded [OF that] flat_under by auto
  have w: "value_under k' wid" if "pointer_value (\<lambda>i. Some (encode_string (utext i))) (eWorkerID e) = Some wid" for k' wid
    using that flat_under by (auto simp: pointer_value_def split: option.splits)
  have c: "value_under k' co" if "pointer_value (time_value zone) (eCompletedAt e) = Some co" for k' co
    using that t flat_under by (auto simp: pointer_value_def split: option.splits)
  have p: "value_under (ParseObjectValue # k) pl" if "raw_text (ePayload e) = Some pl" for pl
  proof -
    have "member_value pl" using that assms(2) compact_member by (auto simp: roomy_def raw_text_def split: if_splits)
    with that assms(2) show ?thesis by (auto simp: roomy_def intro: member_under)
  qed
  have "\<forall>kv \<in> set kvs. ascii_text (fst kv) \<and> value_under (ParseObjectValue # k) (snd kv)"
    using kvs(1) p w c t flat_under
    by (auto simp: event_members_def event_names Option.bind_eq_Some_conv)
  moreover have "kvs \<noteq> []" using kvs(1) by (auto simp: event_members_def Option.bind_eq_Some_conv)
  ultimately show "scan (BeginValue, k) b = pop_state k" using object_under assms(3) kvs(2) by blast
  show "\<exists>t. b = CHR ''{'' # t" by (simp add: kvs(2) object_text_def)
qed

lemma events_array_json:
  assumes "those (map (encode_event utext zone) es) = Some bs" and "\<forall>e \<in> set es. roomy [ParseArrayValue] e"
  shows "json_Valid (array_text bs)"
proof -
  have "\<forall>b \<in> set bs. value_under [ParseArrayValue] b \<and> (\<exists>t. b = CHR ''{'' # t)"
    using assms
  proof (induction es arbitrary: bs)
    case (Cons e es)
    then obtain b bs' where b: "encode_event utext zone e = Some b" "those (map (encode_event utext zone) es) = Some bs'" "bs = b # bs'"
      by (auto split: option.splits)
    have "scan (BeginValue, [ParseArrayValue]) b = pop_state [ParseArrayValue]" "\<exists>t. b = CHR ''{'' # t"
      using event_under [OF b(1), of "[ParseArrayValue]"] Cons.prems(2) by (simp_all add: maxNestingDepth_def)
    with Cons.IH [OF b(2)] Cons.prems(2) show ?case by (auto simp: b(3) value_under_def pop_state_def)
  qed simp
  then show ?thesis using array_json by blast
qed

lemma json_newline: "json_Valid b \<Longrightarrow> scan (BeginValue, []) b = (EndTop, []) \<Longrightarrow> json_Valid (b @ [CHR 0x0A])"
  by (simp add: json_Valid_def scan_eof_def end_top_def isSpace_def)

lemma created_json: "json_Valid (encode_created utext r)"
  unfolding encode_created_def
  by (rule object_text_json) (simp_all add: written_member_def ascii_text_def plain_char_def ord_def)

lemma map_json: "json_Valid (encode_map [(k, v)])" if "ascii_text (escape k)"
  unfolding encode_map_def using that by (intro object_text_json) (simp_all add: written_member_def)


section \<open>The properties\<close>

definition fits :: "body \<Rightarrow> bool" where
  "fits b = (case b of EventBody e \<Rightarrow> roomy [] e | EventsBody es \<Rightarrow> list_all (roomy [ParseArrayValue]) es | _ \<Rightarrow> True)"

text \<open>What a handler answers below 300 is one of these values, as JSON.\<close>

definition plain_answer :: "response \<Rightarrow> bool" where
  "plain_answer rs \<longleftrightarrow> rsCode rs \<ge> 300 \<or>
     (\<exists>code b. rs = json_response code b \<and>
        ((\<exists>r. b = CreatedBody r) \<or> (\<exists>e. b = EventBody e \<and> code = 200) \<or> (\<exists>es. b = EventsBody es \<and> code = 200) \<or>
         (\<exists>v. b = MapBody [(''status'', v)])))"

lemma plain_answers [simp]:
  "plain_answer server_error" "plain_answer (created_response e)" "plain_answer handleHealth" "plain_answer handleReady"
  "plain_answer (json_response 200 (EventBody e))" "plain_answer (json_response 200 (EventsBody es))"
  "300 \<le> c \<Longrightarrow> plain_answer (http_Error m c)"
  by (auto simp: plain_answer_def server_error_def created_response_def handleHealth_def handleReady_def writeJSON_def
      http_Error_def json_response_def code_defs)

lemma handlers_plain:
  "plain_answer (fst (HandleCreateEvent E decode dr text w))" "plain_answer (fst (HandleGetEventByID E i w))"
  "plain_answer (fst (HandleListEvents E q w))"
proof -
  have a: "plain_answer rs" if "accept_request decode dr text = Inl rs" for rs
    using that by (auto simp: accept_request_def Let_def code_defs split: option.splits)
  show "plain_answer (fst (HandleCreateEvent E decode dr text w))"
    by (simp add: HandleCreateEvent_def Let_def a split: sum.split prod.split option.split)
  show "plain_answer (fst (HandleGetEventByID E i w))"
    by (simp add: HandleGetEventByID_def code_defs split: sum.split prod.split option.split)
  show "plain_answer (fst (HandleListEvents E q w))"
    by (simp add: HandleListEvents_def code_defs split: sum.split prod.split option.split)
qed

text \<open>
  C35 Every response of a handler with a code below 300 declares JSON, and its bytes are one JSON text and a
  newline, for an event, a list of events of any length, a created event and both probes alike, if the
  payloads have room for the levels around them. The one exception is an event with a time or a payload
  that cannot be marshalled: then the response has the code 200 and no bytes at all.
\<close>

theorem success_bodies_are_json:
  assumes "rs \<in> {fst (HandleCreateEvent E decode dr text w), fst (HandleGetEventByID E i w), fst (HandleListEvents E q w),
      handleHealth, handleReady}"
    and "rsCode rs < 300" and "fits (rsBody rs)"
  shows "rsType rs = ''application/json'' \<and>
    (if encode_body utext zone (rsBody rs) = None then rsCode rs = 200 \<and> response_bytes utext zone rs = []
     else \<exists>v. response_bytes utext zone rs = v @ [CHR 0x0A] \<and> json_Valid v)"
proof -
  have "plain_answer rs" using assms(1) handlers_plain by auto
  then obtain code b where rs: "rs = json_response code b"
    and b: "(\<exists>r. b = CreatedBody r) \<or> (\<exists>e. b = EventBody e \<and> code = 200) \<or> (\<exists>es. b = EventsBody es \<and> code = 200) \<or>
      (\<exists>v. b = MapBody [(''status'', v)])"
    using assms(2) by (auto simp: plain_answer_def)
  have "ascii_text (escape ''status'')"
    by (subst escape_safe) (simp_all add: safe_char_def ascii_text_def plain_char_def ord_def)
  note m = map_json [OF this]
  have one: "json_Valid b" if "encode_event utext zone e = Some b" "roomy [] e" for e b
    using event_under(1) [OF that] by (simp add: maxNestingDepth_def json_Valid_def scan_eof_def pop_state_def)
  show ?thesis
    using assms(3) b unfolding rs
    by (auto simp: json_response_def response_bytes_def fits_def list_all_iff m created_json
        split: option.splits) (use one events_array_json in blast)+
qed

text \<open>The list of one event, whose payload is compacted on the way out.\<close>

definition listed_world :: "event mem_redis world" where
  "listed_world = \<lparr>wDB = empty_db\<lparr>events := [travelling_event]\<rparr>, wOut = mem_empty, wCalls = 0\<rparr>"

theorem success_bodies_are_json_witness:
  "\<exists>v. response_bytes canonical_text (\<lambda>_. 7200) (fst (HandleListEvents mem_env (\<lambda>_. '''') listed_world)) = v @ [CHR 0x0A] \<and> json_Valid v"
proof -
  let ?rs = "fst (HandleListEvents mem_env (\<lambda>_. '''') listed_world)"
  have rs: "?rs = json_response 200 (EventsBody [travelling_event])"
    by (simp add: HandleListEvents_def list_limit_def list_offset_def repo_List_def on_db_def ListEvents_def no_faults_def
        mem_env_def listed_world_def code_defs)
  have "encode_event canonical_text (\<lambda>_. 7200) travelling_event \<noteq> None"
    unfolding encode_event_succeeds
    by (simp add: travelling_event_def travelling_time json_Valid_def scan_eof_def scan_unfold isDigit_def state0_def)
  then obtain b where b: "encode_event canonical_text (\<lambda>_. 7200) travelling_event = Some b" by blast
  have "fits (rsBody ?rs)"
    unfolding rs using travelling_payload
    by (simp add: json_response_def fits_def roomy_def)
      (simp add: travelling_event_def compacted_payload_def scan_unfold isDigit_def state0_def isHex_def)
  from success_bodies_are_json [of ?rs mem_env decode_request sample_draw "[]" listed_world "[]" "\<lambda>_. ''''", OF _ _ this,
      of canonical_text "\<lambda>_. 7200"]
  show ?thesis using b by (simp add: rs json_response_def)
qed


text \<open>
  C13 What is posted can be read back, from bytes to bytes. When the database answers, the server takes
  messages and the messages are written by the encoder of \<open>EventCodec\<close>, the bytes of an acceptable request
  with a fresh id are answered with 202 and the bytes of an object with the id and the status \<open>RECEIVED\<close>;
  and a GET of the path with that id is answered with 200 and bytes that decode to the event: its id, the
  type and the priority of the request, the payload as the JSON column stores it in compacted form, the time
  of the creation in whole microseconds, no attempt, no worker, and the status \<open>QUEUED\<close> the row has by
  then, with the time of that change. The times are of years RFC 3339 can show.
\<close>

theorem posted_event_is_read_back:
  assumes "wf_db (wDB w)" and "\<forall>n. faults_at E n = no_faults" and "event_row (wDB w) (dID dr) = None"
    and "json_Marshal E = encode_event (uuid_Text E) zone" and "\<forall>st m. fst (XAdd (client E) st m (wOut w)) = None"
    and "known_type t" and "q \<in> {PriorityLow, PriorityNormal, PriorityHigh}" and "member_value pl" and "list_all isSpace pre"
    and "jsonb_in E pl = Some p" and "json_Valid p" and "fst (scan (BeginValue, [ParseObjectValue]) p) \<noteq> ScanError"
    and "list_all safe_char (uuid_Text E (dID dr))" and "uuid_Parse E (uuid_Text E (dID dr)) = Some (dID dr)"
    and "\<forall>t. 60 dvd zone t" and "\<forall>t \<in> {dCreated dr, dUpdated dr, timestamptz (dCreated dr)}. time_text zone t \<noteq> None"
    and "\<forall>n. time_text zone (timestamptz (now_at E n)) \<noteq> None"
  shows "\<exists>rs w' rs' b n c.
    HandleCreateEvent E decode_request dr (pre @ request_text t q pl @ junk) w = (rs, w') \<and> rsCode rs = 202 \<and>
    response_bytes (uuid_Text E) zone rs =
      ''{\"id\":\"'' @ uuid_Text E (dID dr) @ ''\",\"status\":\"RECEIVED\"}'' @ [CHR 0x0A] \<and>
    fst (HandleGetEventByID E (uuid_Text E (dID dr)) w') = rs' \<and> rsCode rs' = 200 \<and>
    response_bytes (uuid_Text E) zone rs' = b @ [CHR 0x0A] \<and> compact p = Some c \<and>
    decode_event (uuid_Parse E) b =
      Some \<lparr>eID = dID dr, eType = t, ePayload = c, ePriority = q, eStatus = StatusQueued, eAttempt = 0, eWorkerID = None,
        eCreatedAt = timestamptz (dCreated dr), eUpdatedAt = timestamptz (now_at E n), eCompletedAt = None\<rparr>"
proof -
  let ?req = "\<lparr>rType = t, rPriority = q, rPayload = pl\<rparr>"
  have q: "q \<in> {1, 5, 10}" using assms(7) by (simp add: priority_defs)
  have "decode_request (pre @ request_text t q pl @ junk) = Some ?req"
    using assms(6,8,9) q ascii_types by (intro decode_written) auto
  moreover have "Validate (new_event dr ?req) = None"
    using assms(6,8) q by (simp add: Validate_None_iff known_type_def new_event_def priority_defs member_value_def)
  moreover have "fst (Publish (client E) (json_Marshal E) (new_event dr ?req) (wOut w)) = None"
  proof -
    have "json_Valid pl" using assms(8) by (simp add: member_value_def)
    then have "encode_event (uuid_Text E) zone (new_event dr ?req) \<noteq> None"
      unfolding encode_event_succeeds using assms(16) by (simp add: new_event_def)
    then obtain m where m: "json_Marshal E (new_event dr ?req) = Some m" using assms(4) by auto
    obtain r s where "XAdd (client E) (stream_of q) m (wOut w) = (r, s)" by fastforce
    moreover from this assms(5) have "r = None" by (metis fst_conv)
    ultimately show ?thesis using m by (simp add: Publish_def new_event_def)
  qed
  ultimately obtain n w' where
    h: "HandleCreateEvent E decode_request dr (pre @ request_text t q pl @ junk) w =
       (\<lparr>rsCode = 202, rsType = ''application/json'', rsBody = CreatedBody \<lparr>pID = dID dr, pStatus = StatusReceived\<rparr>\<rparr>, w')"
    and g: "fst (HandleGetEventByID E (uuid_Text E (dID dr)) w') = \<lparr>rsCode = 200, rsType = ''application/json'',
        rsBody = EventBody \<lparr>eID = dID dr, eType = t, ePayload = p, ePriority = q,
          eStatus = StatusQueued, eAttempt = 0, eWorkerID = None, eCreatedAt = timestamptz (dCreated dr),
          eUpdatedAt = timestamptz (now_at E n), eCompletedAt = None\<rparr>\<rparr>"
    using created_event_is_read_back [of w E decode_request "pre @ request_text t q pl @ junk" ?req dr p "uuid_Text E (dID dr)"] assms(1-3,10,14)
    by auto
  let ?e = "\<lparr>eID = dID dr, eType = t, ePayload = p, ePriority = q, eStatus = StatusQueued, eAttempt = 0, eWorkerID = None,
      eCreatedAt = timestamptz (dCreated dr), eUpdatedAt = timestamptz (now_at E n), eCompletedAt = None\<rparr>"
  have safe: "escape (uuid_Text E (dID dr)) = uuid_Text E (dID dr)" "utf8 (uuid_Text E (dID dr))"
    using escape_safe [OF assms(13)] utf8_ascii [of "uuid_Text E (dID dr)"] assms(13)
    by (auto simp: list_all_iff safe_char_def)
  have id: "encode_created (uuid_Text E) \<lparr>pID = dID dr, pStatus = StatusReceived\<rparr> =
      ''{\"id\":\"'' @ uuid_Text E (dID dr) @ ''\",\"status\":\"RECEIVED\"}''"
    using escape_safe [of StatusReceived] safe(1)
    by (simp add: encode_created_def object_text_def member_text_def encode_string_def status_defs safe_char_def ord_def)
  have "encode_event (uuid_Text E) zone ?e \<noteq> None"
    unfolding encode_event_succeeds using assms(11,16,17) by simp
  then obtain b where b: "encode_event (uuid_Text E) zone ?e = Some b" by blast
  have "utf8 t" "utf8 StatusQueued"
    using ascii_utf8 [OF ascii_types [OF assms(6)]] utf8_ascii [of StatusQueued] by (auto simp: status_defs ord_def)
  then have s: "storable (uuid_Text E) (uuid_Parse E) zone ?e"
    using assms(12,14,15) safe(2) q by (auto simp: storable_def)
  obtain c where c: "raw_text (ePayload ?e) = Some c"
    using b by (auto simp: encode_event_def event_members_def Option.bind_eq_Some_conv)
  then have "compact p = Some c" using assms(11) by (auto simp: raw_text_def split: if_splits)
  with decode_encoded [OF b s c] h g id b show ?thesis
    by (simp add: response_bytes_def) blast
qed


definition dated_env :: "(bytes, bytes mem_redis) env" where
  "dated_env = wire_env\<lparr>now_at := \<lambda>_. 1700000000123456789\<rparr>"

definition posting_draw :: draw where
  "posting_draw = \<lparr>dID = 11, dCreated = 1700000000123456789, dUpdated = 1700000000123456789\<rparr>"

definition empty_world :: "bytes mem_redis world" where
  "empty_world = \<lparr>wDB = empty_db, wOut = mem_empty, wCalls = 0\<rparr>"

lemma stored_time: "time_text (\<lambda>_. 7200) 1700000000123456000 \<noteq> None"
proof -
  have "civil 738838 = (2023, 11, 15)" by (simp add: civil_def Let_def month_lengths_def isLeap_def)
  then show ?thesis by (simp add: time_text_def Let_def)
qed

lemma safe_canonical: "list_all safe_char (canonical_text i)"
proof -
  have "safe_char c" if "isHex c" for c
    using that by (auto simp: isHex_def isDigit_def safe_char_def ord_def)
  moreover have "list_all isHex (hex_digits 32 (unat i))" using hex_digits_facts [of 32 "unat i"] by (simp add: list_all_iff)
  ultimately have h: "\<forall>c \<in> set (hex_digits 32 (unat i)). safe_char c" by (auto simp: list_all_iff)
  have "safe_char CHR ''-''" by (simp add: safe_char_def ord_def)
  with h show ?thesis
    by (auto simp: canonical_text_def Let_def list_all_iff dest: in_set_takeD in_set_dropD)
qed

theorem posted_event_is_read_back_witness:
  "\<exists>rs w' b.
    HandleCreateEvent dated_env decode_request posting_draw ('' '' @ request_text TypeOrderCreated 10 ''{\"a\":[1]}'' @ ''xyz'') empty_world = (rs, w') \<and>
    rsCode rs = 202 \<and>
    response_bytes canonical_text (\<lambda>_. 7200) (fst (HandleGetEventByID dated_env (canonical_text 11) w')) = b @ [CHR 0x0A] \<and>
    decode_event canonical_parse b =
      Some \<lparr>eID = 11, eType = TypeOrderCreated, ePayload = ''{\"a\":[1]}'', ePriority = 10, eStatus = StatusQueued, eAttempt = 0,
        eWorkerID = None, eCreatedAt = 1700000000123456000, eUpdatedAt = 1700000000123456000, eCompletedAt = None\<rparr>"
proof -
  have env: "uuid_Text dated_env = canonical_text" "uuid_Parse dated_env = canonical_parse" "jsonb_in dated_env = Some"
      "faults_at dated_env n = no_faults" "now_at dated_env n = 1700000000123456789"
      "json_Marshal dated_env = encode_event canonical_text (\<lambda>_. 7200)" "fst (XAdd (client dated_env) st m s) = None" for n st m s
    by (simp_all add: dated_env_def wire_env_def mem_client_def mem_xadd_def)
  have pl: "member_value ''{\"a\":[1]}''"
    by (simp add: member_value_def isSpace_def json_Valid_def scan_eof_def scan_unfold isDigit_def state0_def)
  have c: "compact ''{\"a\":[1]}'' = Some ''{\"a\":[1]}''"
    by (simp add: compact_def json_Valid_def scan_eof_def scan_unfold isDigit_def state0_def compact_ascii_step ord_def html_char_def skips_def)
  have r: "wf_db (wDB empty_world)" "event_row (wDB empty_world) (dID posting_draw) = None" "dID posting_draw = 11"
    "dCreated posting_draw = 1700000000123456789" "dUpdated posting_draw = 1700000000123456789"
    by (simp_all add: empty_world_def posting_draw_def empty_db_def wf_db_def unique_key_def event_row_def row_select_def)
  have t: "\<exists>y. time_text (\<lambda>_. 7200) 1700000000123456000 = Some y" using stored_time by simp
  from posted_event_is_read_back [of empty_world dated_env posting_draw "\<lambda>_. 7200" TypeOrderCreated 10 "''{\"a\":[1]}''" "'' ''"
      "''{\"a\":[1]}''" "''xyz''"]
  show ?thesis
    using r pl c t
    by (simp add: env r canonical_law safe_canonical travelling_time known_type_def priority_defs isSpace_def member_value_def) blast
qed

end
