(* ===== verification/MessageProps.thy ===== *)
theory MessageProps
  imports Messages Pool
begin

text \<open>
  The worker does not marshal its messages, it pastes them together. Here they are compared with the structs
  of \<open>internal/websocket/types.go\<close>.
\<close>

lemma members_unfold:
  "object_text [(k, v)] = CHR ''{'' # member_text (k, v) @ ''}''"
  "object_text [(k, v), (k2, v2)] = CHR ''{'' # member_text (k, v) @ CHR '','' # member_text (k2, v2) @ ''}''"
  "object_text [(k, v), (k2, v2), (k3, v3)] =
     CHR ''{'' # member_text (k, v) @ CHR '','' # member_text (k2, v2) @ CHR '','' # member_text (k3, v3) @ ''}''"
  by (simp_all add: object_text_def)

lemma escape_types:
  "escape TypeEventProcessing = TypeEventProcessing" "escape TypeEventCompleted = TypeEventCompleted"
  "escape TypeEventFailed = TypeEventFailed" "escape TypeWorkerOnline = TypeWorkerOnline" "escape TypeWorkerOffline = TypeWorkerOffline"
  by (rule escape_safe; simp add: message_type_defs safe_char_def ord_def)+

lemmas pasted = members_unfold member_text_def encode_string_def escape_types [unfolded message_type_defs] message_type_defs

lemma safe_worker_name: "list_all safe_char (worker_name i)"
proof -
  have "safe_char c" if "isDigit c" for c using that by (auto simp: isDigit_def safe_char_def ord_def)
  then have "list_all safe_char (Itoa (int i + 1))" by (auto simp: list_all_iff Itoa_def dest: dec_nat_chars)
  then show ?thesis by (simp add: worker_name_def safe_char_def ord_def)
qed

text \<open>
  C31 The texts the worker pastes together for the dashboards are what marshalling the message structs gives
  exactly when the texts of the event's id and of the worker's id need no escaping, whatever the attempt and
  the duration are; the names the pool gives its workers never need any; and every marshalled message is
  JSON on a single line, as the frames of the hub need it, which puts newlines between messages.
\<close>

theorem worker_messages_marshalled:
  "(online_msg wid = marshal_WorkerOnlineMsg \<lparr>woType = TypeWorkerOnline, woWorkerID = wid\<rparr> \<longleftrightarrow> escape wid = wid) \<and>
   (offline_msg wid = marshal_WorkerOfflineMsg \<lparr>wfType = TypeWorkerOffline, wfWorkerID = wid\<rparr> \<longleftrightarrow> escape wid = wid) \<and>
   (processing_msg (utext i) wid =
      marshal_EventProcessingMsg utext \<lparr>epType = TypeEventProcessing, epEventID = i, epWorkerID = wid\<rparr> \<longleftrightarrow>
      escape (utext i) = utext i \<and> escape wid = wid) \<and>
   (completed_msg (utext i) ms =
      marshal_EventCompletedMsg utext \<lparr>ecType = TypeEventCompleted, ecEventID = i, ecProcessingTimeMs = ms\<rparr> \<longleftrightarrow>
      escape (utext i) = utext i) \<and>
   (failed_msg (utext i) n =
      marshal_EventFailedMsg utext \<lparr>efType = TypeEventFailed, efEventID = i, efAttempt = n\<rparr> \<longleftrightarrow> escape (utext i) = utext i) \<and>
   escape (worker_name k) = worker_name k \<and>
   dashboard_line (marshal_EventProcessingMsg utext m3) \<and> dashboard_line (marshal_EventCompletedMsg utext m4) \<and>
   dashboard_line (marshal_EventFailedMsg utext m5) \<and> dashboard_line (marshal_WorkerOnlineMsg m6) \<and>
   dashboard_line (marshal_WorkerOfflineMsg m7)"
proof (intro conjI marshalled_line)
  let ?sep = "''\",\"worker_id\":\"''"
  have "processing_msg (utext i) wid = marshal_EventProcessingMsg utext \<lparr>epType = TypeEventProcessing, epEventID = i, epWorkerID = wid\<rparr> \<longleftrightarrow>
      (utext i @ ?sep @ wid) @ ''\"}'' = (escape (utext i) @ ?sep @ escape wid) @ ''\"}''"
    by (simp add: processing_msg_def marshal_EventProcessingMsg_def pasted)
  then show "processing_msg (utext i) wid = marshal_EventProcessingMsg utext \<lparr>epType = TypeEventProcessing, epEventID = i, epWorkerID = wid\<rparr> \<longleftrightarrow>
      escape (utext i) = utext i \<and> escape wid = wid"
    using escape_twice [of "utext i" ?sep wid] unfolding append_same_eq by metis
qed (auto simp: online_msg_def offline_msg_def completed_msg_def failed_msg_def pasted marshal_WorkerOnlineMsg_def
    marshal_WorkerOfflineMsg_def marshal_EventCompletedMsg_def marshal_EventFailedMsg_def escape_safe [OF safe_worker_name])

end
