(* ===== verification/Boot.thy ===== *)
theory Boot
  imports PoolProps Pipeline Config
begin

text \<open>
  The entry points: \<open>cmd/worker/main.go\<close>, \<open>cmd/api/main.go\<close>, \<open>cmd/simulator/main.go\<close>, and the connection of
  \<open>store/postgres/postgres.go\<close>. What the drivers answer while a process starts is an argument, like the
  faults of the statements; an exit before the services are up is its code.
\<close>

section \<open>What the processes are built from\<close>

definition main_pool :: "config \<Rightarrow> pool" where
  "main_pool cfg =
     NewPool (WorkerCount cfg) (WorkerConsumerGroup cfg) (HeartbeatInterval cfg) (HeartbeatTTL cfg)
       main_maxAttempts main_baseDelay"

definition main_scheduler_interval :: duration where
  "main_scheduler_interval = 30 * time_Second"

section \<open>The host of a process\<close>

text \<open>\<open>hTables\<close> is \<open>None\<close> as long as the schema was never applied; the flags are the connections of the process.\<close>

record 'r host =
  hTables :: "db option"
  hOut :: 'r
  hPgOpen :: bool
  hRedisOpen :: bool

text \<open>The answers of \<open>pgxpool\<close> and \<open>go-redis\<close>: an error, or none.\<close>

record boot_calls =
  pgx_ParseConfig :: "string \<Rightarrow> string option"
  pgx_NewWithConfig :: "string option"
  pgx_Ping :: "string option"
  pgx_ExecSchema :: "string option"
  redis_ParseURL :: "string \<Rightarrow> string option"
  redis_Ping :: "string option"

text \<open>\<open>schema.sql\<close> creates what does not exist and leaves the rest.\<close>

definition schemaSQL :: "db option \<Rightarrow> db" where
  "schemaSQL t = (case t of None \<Rightarrow> empty_db | Some d \<Rightarrow> d)"

definition Connect :: "boot_calls \<Rightarrow> string \<Rightarrow> 'r host \<Rightarrow> string option \<times> 'r host" where
  "Connect B databaseURL h =
     (case pgx_ParseConfig B databaseURL of
        Some err \<Rightarrow> (Some (''failed to parse database url: '' @ err), h)
      | None \<Rightarrow>
          (case pgx_NewWithConfig B of
             Some err \<Rightarrow> (Some (''failed to connect to database: '' @ err), h)
           | None \<Rightarrow>
               let h = h\<lparr>hPgOpen := True\<rparr> in
               (case pgx_Ping B of
                  Some err \<Rightarrow> (Some (''failed to ping database: '' @ err), h\<lparr>hPgOpen := False\<rparr>)
                | None \<Rightarrow>
                    (case pgx_ExecSchema B of
                       Some err \<Rightarrow> (Some (''failed to execute schema migrations: '' @ err), h\<lparr>hPgOpen := False\<rparr>)
                     | None \<Rightarrow> (None, h\<lparr>hTables := Some (schemaSQL (hTables h))\<rparr>)))))"

text \<open>\<open>goredis.ParseURL\<close>, \<open>NewClient\<close> and \<open>Ping\<close>, which both services do alike.\<close>

definition connect_redis :: "boot_calls \<Rightarrow> string \<Rightarrow> 'r host \<Rightarrow> bool \<times> 'r host" where
  "connect_redis B redisURL h =
     (case redis_ParseURL B redisURL of
        Some err \<Rightarrow> (False, h)
      | None \<Rightarrow>
          let h = h\<lparr>hRedisOpen := True\<rparr> in
          (case redis_Ping B of Some err \<Rightarrow> (False, h) | None \<Rightarrow> (True, h)))"

section \<open>The worker process\<close>

text \<open>\<open>main\<close> of \<open>cmd/worker\<close> up to \<open>pool.Start\<close>: the code of \<open>os.Exit\<close>, or the pool with its processors.\<close>

definition worker_boot ::
  "('m, 'r) env \<Rightarrow> boot_calls \<Rightarrow> environ \<Rightarrow> 'r host \<Rightarrow> (int + config \<times> pool) \<times> 'r host" where
  "worker_boot E B getenv h =
     (let cfg = Load getenv in
      if RedisURL cfg = '''' then (Inl 1, h)
      else if DatabaseURL cfg = '''' then (Inl 1, h)
      else case Connect B (DatabaseURL cfg) h of
             (Some err, h) \<Rightarrow> (Inl 1, h)
           | (None, h) \<Rightarrow>
               (case connect_redis B (RedisURL cfg) h of
                  (False, h) \<Rightarrow> (Inl 1, h)
                | (True, h) \<Rightarrow>
                    (case InitConsumerGroups (client E) (WorkerConsumerGroup cfg) (hOut h) of
                       (Some err, s) \<Rightarrow> (Inl 1, h\<lparr>hOut := s\<rparr>)
                     | (None, s) \<Rightarrow>
                         (case main_registry (\<lambda>_ _ (w :: 'r world). w) of
                            None \<Rightarrow> (Inl 1, h\<lparr>hOut := s\<rparr>)
                          | Some registry \<Rightarrow> (Inr (cfg, main_pool cfg), h\<lparr>hOut := s\<rparr>)))))"

text \<open>
  From there on: \<open>pool.Start\<close>, the wait for the signal, \<open>pool.Stop\<close>, and the deferred calls, which close
  the client and then the database.
\<close>

datatype main_pc = MainStart | MainStarting | MainWaits | MainStopping | MainReturned | MainExited int

record worker_process =
  wpPool :: pool
  wpPc :: main_pc
  wpSignal :: bool
  wpPgOpen :: bool
  wpRedisOpen :: bool

definition new_process :: "pool \<Rightarrow> worker_process" where
  "new_process P = \<lparr>wpPool = P, wpPc = MainStart, wpSignal = False, wpPgOpen = True, wpRedisOpen = True\<rparr>"

definition worker_main :: "'w worker_deps \<Rightarrow> worker_process \<Rightarrow> 'w \<Rightarrow> worker_process \<times> 'w" where
  "worker_main d X w =
     (case wpPc X of
        MainStart \<Rightarrow>
          (case pool_start (wpPool X) of
             (Some err, P) \<Rightarrow> (X\<lparr>wpPool := P, wpPc := MainExited 1\<rparr>, w)
           | (None, P) \<Rightarrow> (X\<lparr>wpPool := P, wpPc := MainStarting\<rparr>, w))
      | MainStarting \<Rightarrow>
          if starting (wpPool X) = None then (X\<lparr>wpPc := MainWaits\<rparr>, w)
          else (case pool_start_next d (wpPool X) w of
                  (Some err, P, w) \<Rightarrow> (X\<lparr>wpPool := P, wpPc := MainExited 1\<rparr>, w)
                | (None, P, w) \<Rightarrow> (X\<lparr>wpPool := P\<rparr>, w))
      | MainWaits \<Rightarrow>
          if wpSignal X then (X\<lparr>wpPool := pool_stop (wpPool X), wpPc := MainStopping\<rparr>, w) else (X, w)
      | MainStopping \<Rightarrow>
          if pool_stop_returned (wpPool X)
          then (X\<lparr>wpPc := MainReturned, wpRedisOpen := False, wpPgOpen := False\<rparr>, w) else (X, w)
      | _ \<Rightarrow> (X, w))"

datatype 'w process_act = ProcMain | ProcSignal | ProcPool "'w pool_act"

text \<open>A process that has returned or exited takes no more steps; a signal ends the context of the workers.\<close>

definition process_step :: "'w worker_deps \<Rightarrow> 'w process_act \<Rightarrow> worker_process \<Rightarrow> 'w \<Rightarrow> worker_process \<times> 'w" where
  "process_step d a X w =
     (case wpPc X of
        MainReturned \<Rightarrow> (X, w)
      | MainExited code \<Rightarrow> (X, w)
      | _ \<Rightarrow>
          (case a of
             ProcMain \<Rightarrow> worker_main d X w
           | ProcSignal \<Rightarrow> (X\<lparr>wpSignal := True, wpPool := fst (pool_step d PoolDone (wpPool X) w)\<rparr>, w)
           | ProcPool b \<Rightarrow>
               if inner_act b
               then (case pool_step d b (wpPool X) w of (P, w) \<Rightarrow> (X\<lparr>wpPool := P\<rparr>, w)) else (X, w)))"

fun run_process :: "'w worker_deps \<Rightarrow> 'w process_act list \<Rightarrow> worker_process \<Rightarrow> 'w \<Rightarrow> worker_process \<times> 'w" where
  "run_process d [] X w = (X, w)"
| "run_process d (a # as) X w = (case process_step d a X w of (X', w') \<Rightarrow> run_process d as X' w')"

section \<open>The API process and the simulator\<close>

definition api_boot :: "boot_calls \<Rightarrow> environ \<Rightarrow> 'r host \<Rightarrow> (int + config) \<times> 'r host" where
  "api_boot B getenv h =
     (let cfg = Load getenv in
      case Connect B (DatabaseURL cfg) h of
        (Some err, h) \<Rightarrow> (Inl 1, h)
      | (None, h) \<Rightarrow>
          (case connect_redis B (RedisURL cfg) h of
             (False, h) \<Rightarrow> (Inl 1, h)
           | (True, h) \<Rightarrow> (Inr cfg, h)))"

definition simulator_main :: "environ \<Rightarrow> int" where
  "simulator_main getenv = (let cfg = Load getenv in 0)"

section \<open>Booting\<close>

lemma Connect_cases:
  obtains (failed) err where "Connect B url h = (Some err, h\<lparr>hPgOpen := False\<rparr>) \<or> Connect B url h = (Some err, h)"
  | (connected) "Connect B url h = (None, h\<lparr>hPgOpen := True, hTables := Some (schemaSQL (hTables h))\<rparr>)"
  by (cases "pgx_ParseConfig B url"; cases "pgx_NewWithConfig B"; cases "pgx_Ping B"; cases "pgx_ExecSchema B")
    (auto simp: Connect_def Let_def)

text \<open>A connection that fails leaves no pool open and the tables as they were.\<close>

lemma Connect_failed:
  "Connect B url h = (Some err, h') \<Longrightarrow> \<not> hPgOpen h \<Longrightarrow> h' = h"
  by (rule Connect_cases [of B url h]) auto

lemma connect_redis_cases:
  "connect_redis B url h = (True, h\<lparr>hRedisOpen := True\<rparr>) \<or> fst (connect_redis B url h) = False"
  by (auto simp: connect_redis_def Let_def split: option.split)

section \<open>The invariant of the worker process\<close>

text \<open>How far \<open>main\<close> is agrees with how far the pool is, and the connections are closed only at its end.\<close>

definition process_ok :: "worker_process \<Rightarrow> bool" where
  "process_ok X \<longleftrightarrow> pool_ok (wpPool X) \<and>
     (case wpPc X of
        MainStart \<Rightarrow> \<not> started (wpPool X) \<and> \<not> stopped (wpPool X) \<and> starting (wpPool X) = None
      | MainStarting \<Rightarrow> started (wpPool X) \<and> \<not> stopped (wpPool X)
      | MainWaits \<Rightarrow> started (wpPool X) \<and> \<not> stopped (wpPool X) \<and> starting (wpPool X) = None
      | MainStopping \<Rightarrow> stopped (wpPool X)
      | MainReturned \<Rightarrow> pool_stop_returned (wpPool X)
      | MainExited code \<Rightarrow> False) \<and>
     (wpPc X \<noteq> MainReturned \<longrightarrow> wpPgOpen X \<and> wpRedisOpen X)"

lemma new_process_ok: "process_ok (new_process (main_pool cfg))"
  using NewPool_ok by (auto simp: process_ok_def new_process_def main_pool_def) (simp_all add: NewPool_def Let_def)

lemma pool_flags_inner:
  "inner_act b \<Longrightarrow> started (fst (pool_step d b P w)) = started P \<and> stopped (fst (pool_step d b P w)) = stopped P \<and>
     starting (fst (pool_step d b P w)) = starting P"
  by (cases b) (auto simp: own_step_def split: prod.split)

lemma pool_flags_next:
  "started (fst (snd (pool_start_next d P w))) = started P \<and> stopped (fst (snd (pool_start_next d P w))) = stopped P"
  by (auto simp: pool_start_next_def split: option.split prod.split)

lemma worker_main_ok:
  assumes "process_ok X"
  shows "process_ok (fst (worker_main d X w))"
proof (cases "wpPc X")
  case MainStart
  with assms pool_ok_start [of "wpPool X"] show ?thesis
    by (auto simp: worker_main_def process_ok_def pool_start_def)
next
  case MainStarting
  with assms pool_start_next_ok [of "wpPool X" d w] pool_flags_next [of d "wpPool X" w] show ?thesis
    by (cases "pool_start_next d (wpPool X) w") (auto simp: worker_main_def process_ok_def)
next
  case MainWaits
  with assms pool_ok_stop [of "wpPool X"] show ?thesis
    by (auto simp: worker_main_def process_ok_def pool_stop_def)
qed (use assms in \<open>auto simp: worker_main_def process_ok_def\<close>)

lemma process_step_ok:
  assumes "process_ok X"
  shows "process_ok (fst (process_step d a X w))"
proof -
  have pool: "pool_ok (wpPool X)" using assms by (simp add: process_ok_def)
  show ?thesis
  proof (cases a)
    case ProcMain
    with worker_main_ok [OF assms, of d w] assms show ?thesis
      by (cases "wpPc X") (auto simp: process_step_def)
  next
    case ProcSignal
    with pool_step_ok [OF pool, of d PoolDone w] assms show ?thesis
      by (cases "wpPc X") (auto simp: process_step_def process_ok_def)
  next
    case (ProcPool b)
    with pool_step_ok [OF pool, of d b w] pool_flags_inner [of b d "wpPool X" w] assms show ?thesis
      by (cases "wpPc X"; cases "pool_step d b (wpPool X) w") (auto simp: process_step_def process_ok_def)
  qed
qed

lemma run_process_ok: "process_ok X \<Longrightarrow> process_ok (fst (run_process d as X w))"
proof (induction as arbitrary: X w)
  case (Cons a as)
  obtain X' w' where "process_step d a X w = (X', w')" by fastforce
  with Cons process_step_ok [OF Cons.prems, of d a w] show ?case by auto
qed simp

section \<open>Properties\<close>

text \<open>
  C26 A worker process that starts up has both URLs set and both connections open, has applied the schema
  without touching rows that were there, and has its consumer group on all three streams, groups that
  existed before being left as they were; only then is the pool built, with the configured number of
  workers of that group and three attempts. Every other start ends with exit code 1 and without a pool.
\<close>

theorem worker_boot_ready:
  assumes "redis_streams (client E) view ok" and "ok (hOut h)"
    and "worker_boot E B getenv h = (r, h')"
  shows "case r of
     Inl code \<Rightarrow> code = 1
   | Inr (cfg, P) \<Rightarrow>
       cfg = Load getenv \<and> RedisURL cfg \<noteq> '''' \<and> DatabaseURL cfg \<noteq> '''' \<and> hPgOpen h' \<and> hRedisOpen h' \<and>
       hTables h' = Some (case hTables h of None \<Rightarrow> empty_db | Some d \<Rightarrow> d) \<and>
       (\<forall>st \<in> set AllStreams. exists_group (view (hOut h') st (WorkerConsumerGroup cfg))) \<and>
       (\<forall>st g. exists_group (view (hOut h) st g) \<longrightarrow> view (hOut h') st g = view (hOut h) st g) \<and>
       length (GetWorkers P) = (if WorkerCount cfg \<le> 0 then 4 else nat (WorkerCount cfg)) \<and>
       (\<forall>(p, s) \<in> set (GetWorkers P). w_group p = WorkerConsumerGroup cfg \<and> w_maxAttempts p = 3 \<and> s = NewWorker)"
proof (cases r)
  case (Inl code)
  with assms(3) show ?thesis
    by (auto simp: worker_boot_def Let_def split: if_splits prod.splits option.splits bool.splits)
next
  case (Inr x)
  let ?cfg = "Load getenv"
  obtain h1 where urls: "RedisURL ?cfg \<noteq> ''''" "DatabaseURL ?cfg \<noteq> ''''" and c: "Connect B (DatabaseURL ?cfg) h = (None, h1)"
    using assms(3) Inr by (auto simp: worker_boot_def Let_def split: if_splits prod.splits option.splits)
  have h1: "h1 = h\<lparr>hPgOpen := True, hTables := Some (schemaSQL (hTables h))\<rparr>"
    using c by (cases rule: Connect_cases [of B "DatabaseURL ?cfg" h]) auto
  obtain h2 where r: "connect_redis B (RedisURL ?cfg) h1 = (True, h2)"
    using assms(3) Inr urls c by (auto simp: worker_boot_def Let_def split: prod.splits bool.splits)
  have h2: "h2 = h1\<lparr>hRedisOpen := True\<rparr>" using connect_redis_cases [of B "RedisURL ?cfg" h1] r by auto
  obtain s where i: "InitConsumerGroups (client E) (WorkerConsumerGroup ?cfg) (hOut h2) = (None, s)"
    and x: "x = (?cfg, main_pool ?cfg)" "h' = h2\<lparr>hOut := s\<rparr>"
    using assms(3) Inr urls c r by (auto simp: worker_boot_def Let_def split: prod.splits option.splits)
  have out: "hOut h2 = hOut h" by (simp add: h1 h2)
  note v = redis_streams.init_groups_view [OF assms(1,2), of "WorkerConsumerGroup ?cfg" AllStreams s]
  have v: "\<forall>st g. view s st g = (if g = WorkerConsumerGroup ?cfg \<and> st \<in> set AllStreams \<and> \<not> exists_group (view (hOut h) st g)
       then \<lparr>exists_group = True, undelivered = [], pending = []\<rparr> else view (hOut h) st g)"
    using v i unfolding InitConsumerGroups_def out by blast
  have "length (GetWorkers (main_pool ?cfg)) = (if WorkerCount ?cfg \<le> 0 then 4 else nat (WorkerCount ?cfg)) \<and>
     (\<forall>(p, t) \<in> set (GetWorkers (main_pool ?cfg)). w_group p = WorkerConsumerGroup ?cfg \<and> w_maxAttempts p = 3 \<and> t = NewWorker)"
    by (auto simp: main_pool_def NewPool_def GetWorkers_def Let_def main_maxAttempts_def)
  with urls v show ?thesis
    by (simp add: Inr x h1 h2 schemaSQL_def)
qed

definition good_boot :: boot_calls where
  "good_boot = \<lparr>pgx_ParseConfig = (\<lambda>_. None), pgx_NewWithConfig = None, pgx_Ping = None, pgx_ExecSchema = None,
     redis_ParseURL = (\<lambda>_. None), redis_Ping = None\<rparr>"

definition two_urls :: environ where
  "two_urls = [''REDIS_URL'' \<mapsto> ''redis://r'', ''DATABASE_URL'' \<mapsto> ''postgres://p'']"

definition fresh_host :: "event mem_redis host" where
  "fresh_host = \<lparr>hTables = None, hOut = mem_empty, hPgOpen = False, hRedisOpen = False\<rparr>"

lemma two_urls_boot:
  "\<exists>h'. worker_boot mem_env good_boot two_urls fresh_host = (Inr (Load two_urls, main_pool (Load two_urls)), h')"
proof -
  obtain r where "main_registry (\<lambda>_ _ w. w) = Some (r :: event mem_redis world registry)"
    using main_registry_lookup [where slog_Info = "\<lambda>_ _ (w :: event mem_redis world). w"] by blast
  moreover obtain s where "InitConsumerGroups mem_client ''streamforge_workers'' (mem_empty :: event mem_redis) = (None, s)"
    by (simp add: mem_unfold mem_empty_def)
  ultimately show ?thesis
    by (simp add: worker_boot_def Let_def Connect_def connect_redis_def good_boot_def fresh_host_def mem_env_def
        Load_def getEnv_def os_Getenv_def two_urls_def)
qed

theorem worker_boot_ready_witness:
  "\<exists>cfg P h'. worker_boot mem_env good_boot two_urls fresh_host = (Inr (cfg, P), h') \<and> length (GetWorkers P) = 4 \<and>
     hTables h' = Some empty_db \<and> exists_group (mem_view (hOut h') StreamLow ''streamforge_workers'')"
proof -
  from two_urls_boot obtain h' where
    b: "worker_boot mem_env good_boot two_urls fresh_host = (Inr (Load two_urls, main_pool (Load two_urls)), h')" by blast
  have m: "redis_streams (client mem_env) mem_view mem_ok" "mem_ok (hOut fresh_host)"
    by (simp_all add: mem_env_def mem.redis_streams_axioms fresh_host_def mem_empty_ok)
  from worker_boot_ready [OF m b] b show ?thesis
    by (simp add: Load_def getEnv_def getInt_def os_Getenv_def two_urls_def fresh_host_def AllStreams_def)
qed

text \<open>
  C21 In every run of a worker process, with a signal at any moment, the database and the Redis client stay
  open until every worker has stopped with all its goroutines: \<open>main\<close> closes them only when it returns,
  and never exits with an error once the pool is built.
\<close>

theorem services_outlive_workers:
  "(case run_process d as (new_process (main_pool cfg)) w of
      (X, w') \<Rightarrow>
        (\<forall>code. wpPc X \<noteq> MainExited code) \<and>
        (if wpPc X = MainReturned
         then list_all (\<lambda>(p, s). status s = StatusStopped \<and> loop s = LoopExited \<and> heart s = HeartExited \<and> retries s = [])
                (GetWorkers (wpPool X))
         else wpPgOpen X \<and> wpRedisOpen X))"
proof -
  obtain X w' where X: "run_process d as (new_process (main_pool cfg)) w = (X, w')" by fastforce
  have ok: "process_ok X" using run_process_ok [OF new_process_ok, of d as cfg w] X by simp
  then show ?thesis
    using pool_returned_idle [of "wpPool X"] X by (cases "wpPc X") (auto simp: process_ok_def list_all_iff)
qed

end
