(* ===== verification/Routes.thy ===== *)
theory Routes
  imports ApiProps
begin

text \<open>
  The routes of \<open>cmd/api/main.go\<close> and what Go's \<open>http.ServeMux\<close> makes of them: the path is cleaned, a
  request for an unclean one is redirected, the pattern with the request's method and path is chosen, and
  where there is none the answer is 405 or 404. \<open>serve_http\<close> is the HTTP interface of the program as a
  function on the world.
\<close>

section \<open>Paths\<close>

fun split_slash :: "string \<Rightarrow> string list" where
  "split_slash [] = [[]]"
| "split_slash (c # cs) =
     (if c = CHR ''/'' then [] # split_slash cs
      else case split_slash cs of [] \<Rightarrow> [[c]] | s # ss \<Rightarrow> (c # s) # ss)"

fun join_slash :: "string list \<Rightarrow> string" where
  "join_slash [] = []"
| "join_slash (s # ss) = CHR ''/'' # s @ join_slash ss"

text \<open>\<open>path.Clean\<close> on the segments of a rooted path; \<open>done_segs\<close> are the ones kept so far.\<close>

fun clean_segs :: "string list \<Rightarrow> string list \<Rightarrow> string list" where
  "clean_segs kept [] = kept"
| "clean_segs kept (s # ss) =
     (if s = '''' \<or> s = ''.'' then clean_segs kept ss
      else if s = ''..'' then clean_segs (butlast kept) ss
      else clean_segs (kept @ [s]) ss)"

definition cleanPath :: "string \<Rightarrow> string" where
  "cleanPath p =
     (let p = (if p = '''' then ''/'' else if hd p \<noteq> CHR ''/'' then CHR ''/'' # p else p);
          segs = clean_segs [] (split_slash p)
      in if segs = [] then ''/''
         else if last p = CHR ''/'' then join_slash segs @ ''/'' else join_slash segs)"

definition hex_value :: "char \<Rightarrow> nat" where
  "hex_value c = (let n = (of_char c :: nat) in if n \<le> 57 then n - 48 else if n \<le> 70 then n - 55 else n - 87)"

fun path_unescape :: "string \<Rightarrow> string option" where
  "path_unescape [] = Some []"
| "path_unescape (c # cs) =
     (if c = CHR ''%'' then
        (case cs of
           a # b # rest \<Rightarrow>
             if isHex a \<and> isHex b
             then map_option ((#) (char_of (16 * hex_value a + hex_value b))) (path_unescape rest) else None
         | _ \<Rightarrow> None)
      else map_option ((#) c) (path_unescape cs))"

definition segment_value :: "string \<Rightarrow> string" where
  "segment_value s = (case path_unescape s of None \<Rightarrow> s | Some u \<Rightarrow> u)"

definition path_segments :: "string \<Rightarrow> string list" where
  "path_segments p = map segment_value (tl (split_slash p))"

section \<open>Patterns\<close>

datatype endpoint = Health | Ready | CreateEvent | GetEventByID | ListOfEvents | Websocket | Metrics

datatype segment = Lit string | Wild string

definition main_routes :: "(string \<times> segment list \<times> endpoint) list" where
  "main_routes =
     [(''GET'', [Lit ''health''], Health),
      (''GET'', [Lit ''ready''], Ready),
      (''POST'', [Lit ''api'', Lit ''v1'', Lit ''events''], CreateEvent),
      (''GET'', [Lit ''api'', Lit ''v1'', Lit ''events'', Wild ''id''], GetEventByID),
      (''GET'', [Lit ''api'', Lit ''v1'', Lit ''events''], ListOfEvents),
      (''GET'', [Lit ''ws''], Websocket),
      (''GET'', [Lit ''metrics''], Metrics)]"

text \<open>A wildcard takes one segment that is not empty.\<close>

fun match_segments :: "segment list \<Rightarrow> string list \<Rightarrow> (string \<times> string) list option" where
  "match_segments [] [] = Some []"
| "match_segments (Lit l # ps) (s # ss) = (if l = s then match_segments ps ss else None)"
| "match_segments (Wild n # ps) (s # ss) =
     (if s = '''' then None else map_option ((#) (n, s)) (match_segments ps ss))"
| "match_segments _ _ = None"

text \<open>A pattern for \<open>GET\<close> matches \<open>HEAD\<close> too.\<close>

definition method_matches :: "string \<Rightarrow> string \<Rightarrow> bool" where
  "method_matches pattern method \<longleftrightarrow> pattern = method \<or> pattern = ''GET'' \<and> method = ''HEAD''"

fun mux_find :: "(string \<times> segment list \<times> endpoint) list \<Rightarrow> string \<Rightarrow> string list \<Rightarrow> (endpoint \<times> (string \<rightharpoonup> string)) option" where
  "mux_find [] method segs = None"
| "mux_find ((m, ps, ep) # rs) method segs =
     (case match_segments ps segs of
        Some vs \<Rightarrow> if method_matches m method then Some (ep, map_of vs) else mux_find rs method segs
      | None \<Rightarrow> mux_find rs method segs)"

definition allowed_methods :: "string list \<Rightarrow> string list" where
  "allowed_methods segs =
     (let ms = map fst (filter (\<lambda>(m, ps, ep). match_segments ps segs \<noteq> None) main_routes)
      in filter (\<lambda>m. list_ex (\<lambda>pm. method_matches pm m) ms) [''GET'', ''HEAD'', ''POST''])"

section \<open>The HTTP interface\<close>

record request =
  rqMethod :: string
  rqPath :: string
  rqQuery :: "string \<Rightarrow> string"
  rqBody :: bytes

text \<open>The websocket upgrade and the page of the collectors are left to their libraries.\<close>

datatype reply =
    Reply response
  | NotAllowed "string list" response
  | Moved string
  | Upgrade
  | MetricsPage

definition serve_http ::
  "('m, 'r) env \<Rightarrow> (bytes \<Rightarrow> CreateEventRequest option) \<Rightarrow> draw \<Rightarrow> request \<Rightarrow> 'r world \<Rightarrow> reply \<times> 'r world" where
  "serve_http E decode dr rq w =
     (if rqMethod rq \<noteq> ''CONNECT'' \<and> cleanPath (rqPath rq) \<noteq> rqPath rq then (Moved (cleanPath (rqPath rq)), w)
      else let segs = path_segments (rqPath rq) in
        case mux_find main_routes (rqMethod rq) segs of
          None \<Rightarrow>
            if allowed_methods segs \<noteq> []
            then (NotAllowed (allowed_methods segs) (http_Error ''Method Not Allowed'' 405), w)
            else (Reply (http_Error ''404 page not found'' 404), w)
        | Some (ep, val) \<Rightarrow>
            (case ep of
               Health \<Rightarrow> (Reply handleHealth, w)
             | Ready \<Rightarrow> (Reply handleReady, w)
             | CreateEvent \<Rightarrow> (case HandleCreateEvent E decode dr (rqBody rq) w of (rs, w) \<Rightarrow> (Reply rs, w))
             | GetEventByID \<Rightarrow>
                 (case HandleGetEventByID E (case val ''id'' of None \<Rightarrow> '''' | Some v \<Rightarrow> v) w of (rs, w) \<Rightarrow> (Reply rs, w))
             | ListOfEvents \<Rightarrow> (case HandleListEvents E (rqQuery rq) w of (rs, w) \<Rightarrow> (Reply rs, w))
             | Websocket \<Rightarrow> (Upgrade, w)
             | Metrics \<Rightarrow> (MetricsPage, w)))"

section \<open>What is dispatched\<close>

lemma match_segments_cases:
  "match_segments [Lit a] segs = (if segs = [a] then Some [] else None)"
  "match_segments [Lit a, Lit b, Lit c] segs = (if segs = [a, b, c] then Some [] else None)"
  "match_segments [Lit a, Lit b, Lit c, Wild n] segs =
     (if \<exists>s. segs = [a, b, c, s] \<and> s \<noteq> '''' then Some [(n, last segs)] else None)"
  by (cases segs; auto simp: neq_Nil_conv split: if_splits)
    (cases segs; simp; rename_tac x xs; case_tac xs; simp; rename_tac y ys; case_tac ys; simp; rename_tac z zs; case_tac zs; auto)+

text \<open>The endpoint of a method and a path.\<close>

definition reads :: "string \<Rightarrow> bool" where
  "reads method \<longleftrightarrow> method = ''GET'' \<or> method = ''HEAD''"

lemma method_matches_simps:
  "method_matches ''GET'' m \<longleftrightarrow> reads m" "method_matches ''POST'' m \<longleftrightarrow> m = ''POST''"
  by (auto simp: method_matches_def reads_def)

lemma mux_find_main:
  "mux_find main_routes m segs =
     (if segs = [''api'', ''v1'', ''events''] \<and> m = ''POST'' then Some (CreateEvent, Map.empty)
      else if \<not> reads m then None
      else if segs = [''health''] then Some (Health, Map.empty)
      else if segs = [''ready''] then Some (Ready, Map.empty)
      else if \<exists>s. segs = [''api'', ''v1'', ''events'', s] \<and> s \<noteq> '''' then Some (GetEventByID, [''id'' \<mapsto> last segs])
      else if segs = [''api'', ''v1'', ''events''] then Some (ListOfEvents, Map.empty)
      else if segs = [''ws''] then Some (Websocket, Map.empty)
      else if segs = [''metrics''] then Some (Metrics, Map.empty)
      else None)"
proof (cases "reads m")
  case True
  then have "m \<noteq> ''POST''" by (auto simp: reads_def)
  with True show ?thesis by (simp add: main_routes_def match_segments_cases method_matches_simps) blast
next
  case False
  then show ?thesis by (simp add: main_routes_def match_segments_cases method_matches_simps)
qed

lemma read_handlers:
  "HandleGetEventByID E i w = (rs, w') \<Longrightarrow> wDB w' = wDB w \<and> wOut w' = wOut w"
  "HandleListEvents E q w = (rs, w') \<Longrightarrow> wDB w' = wDB w \<and> wOut w' = wOut w"
  by (auto simp: HandleGetEventByID_def HandleListEvents_def repo_GetByID_def repo_List_def on_db_def
      split: option.splits sum.splits if_splits)

text \<open>A method that is announced as allowed is routed.\<close>

lemma allowed_methods_found:
  "m \<in> set (allowed_methods segs) \<longleftrightarrow> m \<in> {''GET'', ''HEAD'', ''POST''} \<and> mux_find main_routes m segs \<noteq> None"
proof -
  have "mux_find rs m segs \<noteq> None \<longleftrightarrow>
      list_ex (\<lambda>pm. method_matches pm m) (map fst (filter (\<lambda>(m, ps, ep). match_segments ps segs \<noteq> None) rs))" for rs
    by (induction rs m segs rule: mux_find.induct) (auto split: option.splits)
  then show ?thesis by (auto simp: allowed_methods_def Let_def)
qed

section \<open>The property\<close>

text \<open>
  C34 A request changes the database or the Redis server only by creating an event: only a \<open>POST\<close> to the
  path of the events does, and it is exactly what the handler of creation does. The methods announced by
  a 405 are right: the method of the request is none of them, and the same request with any of them is
  routed to a handler.
\<close>

theorem only_create_writes:
  "case serve_http E decode dr rq w of (rp, w') \<Rightarrow>
     (if rqMethod rq = ''POST'' \<and> cleanPath (rqPath rq) = rqPath rq \<and>
         path_segments (rqPath rq) = [''api'', ''v1'', ''events'']
      then (rp, w') = map_prod Reply id (HandleCreateEvent E decode dr (rqBody rq) w)
      else wDB w' = wDB w \<and> wOut w' = wOut w) \<and>
     (\<forall>ms rs. rp = NotAllowed ms rs \<longrightarrow> rsCode rs = 405 \<and> rqMethod rq \<notin> set ms \<and>
        (\<forall>m \<in> set ms. m \<noteq> ''CONNECT'' \<and>
           mux_find main_routes m (path_segments (rqPath rq)) \<noteq> None))"
proof (cases "rqMethod rq \<noteq> ''CONNECT'' \<and> cleanPath (rqPath rq) \<noteq> rqPath rq")
  case True
  then show ?thesis by (simp add: serve_http_def)
next
  case False
  let ?segs = "path_segments (rqPath rq)"
  show ?thesis
  proof (cases "mux_find main_routes (rqMethod rq) ?segs")
    case None
    then have "rqMethod rq = ''POST'' \<longrightarrow> ?segs \<noteq> [''api'', ''v1'', ''events'']" by (auto simp: mux_find_main)
    moreover have "\<forall>m \<in> set (allowed_methods ?segs). m \<noteq> ''CONNECT'' \<and> m \<noteq> rqMethod rq \<and> mux_find main_routes m ?segs \<noteq> None"
      using None by (auto simp: allowed_methods_found)
    ultimately show ?thesis
      using False None by (auto simp: serve_http_def Let_def http_Error_def)
  next
    case (Some x)
    then obtain ep val where x: "mux_find main_routes (rqMethod rq) ?segs = Some (ep, val)" by (cases x) auto
    have create: "ep = CreateEvent \<longleftrightarrow> rqMethod rq = ''POST'' \<and> ?segs = [''api'', ''v1'', ''events'']"
      using x by (auto simp: mux_find_main reads_def split: if_splits)
    have connect: "rqMethod rq \<noteq> ''CONNECT''" using x by (auto simp: mux_find_main reads_def split: if_splits)
    show ?thesis
    proof (cases ep)
      case CreateEvent
      with create False connect x show ?thesis
        by (auto simp: serve_http_def Let_def split: prod.split)
    next
      case GetEventByID
      with create False x show ?thesis
        by (auto simp: serve_http_def Let_def dest: read_handlers split: prod.split)
    next
      case ListOfEvents
      with create False x show ?thesis
        by (auto simp: serve_http_def Let_def dest: read_handlers split: prod.split)
    qed (use create False x in \<open>auto simp: serve_http_def Let_def\<close>)
  qed
qed

definition delete_request :: request where
  "delete_request = \<lparr>rqMethod = ''DELETE'', rqPath = ''/api/v1/events'', rqQuery = (\<lambda>_. ''''), rqBody = ''''\<rparr>"

lemma delete_refused:
  "serve_http mem_env (\<lambda>_. None) sample_draw delete_request stale_world =
     (NotAllowed [''GET'', ''HEAD'', ''POST''] (http_Error ''Method Not Allowed'' 405), stale_world)"
  by (simp add: serve_http_def delete_request_def cleanPath_def Let_def path_segments_def segment_value_def
      mux_find_main reads_def allowed_methods_def main_routes_def method_matches_def)

theorem only_create_writes_witness:
  "\<exists>ms rs w'. serve_http mem_env (\<lambda>_. None) sample_draw delete_request stale_world = (NotAllowed ms rs, w') \<and>
     wDB w' = wDB stale_world \<and> rsCode rs = 405 \<and> ''DELETE'' \<notin> set ms \<and> ms \<noteq> [] \<and>
     list_all (\<lambda>m. mux_find main_routes m (path_segments ''/api/v1/events'') \<noteq> None) ms"
  using only_create_writes [where E = mem_env and decode = "\<lambda>_. None" and dr = sample_draw and rq = delete_request
      and w = stale_world]
  by (simp add: delete_refused) (simp add: delete_request_def list_all_iff)

end
