(* ===== verification/ApiProcess.thy ===== *)
theory ApiProcess
  imports Boot Routes
begin

text \<open>
  \<open>main\<close> of \<open>cmd/api/main.go\<close> once the connections are up: the goroutine of the HTTP server, the requests in
  their handlers, the two channels \<open>main\<close> waits on, and the graceful shutdown. Of \<open>net/http\<close> it uses that a
  server takes requests between \<open>ListenAndServe\<close> and \<open>Shutdown\<close>, that \<open>ListenAndServe\<close> returns
  \<open>ErrServerClosed\<close> once \<open>Shutdown\<close> was called, and that \<open>Shutdown\<close> returns when no request is in a handler
  or its context ends. Hub and scheduler run beside it in the background context, which is never cancelled;
  to this process they are moves of the rest of the system.
\<close>

section \<open>State\<close>

text \<open>A request in its handler; creation goes call by call, a reading handler makes at most one call.\<close>

datatype handler = Creating create_pc | Serving draw request

datatype server_goroutine = ServerStarts | ServerListens | ServerReturned

datatype api_pc = ApiWaits | ApiShutsDown | ApiReturned | ApiExited int

record api_process =
  apPc :: api_pc
  apServer :: server_goroutine
  apInShutdown :: bool
  apServerErr :: "string option"
  apQuit :: bool
  apHandlers :: "handler list"
  apReplies :: "reply list"
  apAccepted :: nat
  apPgOpen :: bool
  apRedisOpen :: bool

definition new_api :: api_process where
  "new_api = \<lparr>apPc = ApiWaits, apServer = ServerStarts, apInShutdown = False, apServerErr = None, apQuit = False,
     apHandlers = [], apReplies = [], apAccepted = 0, apPgOpen = True, apRedisOpen = True\<rparr>"

section \<open>Requests\<close>

text \<open>The dispatch of a request; only creation takes its handler more than one step.\<close>

definition is_creation :: "request \<Rightarrow> bool" where
  "is_creation rq \<longleftrightarrow> (rqMethod rq = ''CONNECT'' \<or> cleanPath (rqPath rq) = rqPath rq) \<and>
     (\<exists>val. mux_find main_routes (rqMethod rq) (path_segments (rqPath rq)) = Some (CreateEvent, val))"

definition handler_begin ::
  "(bytes \<Rightarrow> CreateEventRequest option) \<Rightarrow> draw \<Rightarrow> request \<Rightarrow> handler" where
  "handler_begin decode dr rq =
     (if is_creation rq then Creating (create_begin decode dr (rqBody rq)) else Serving dr rq)"

definition handler_step ::
  "('m, 'r) env \<Rightarrow> (bytes \<Rightarrow> CreateEventRequest option) \<Rightarrow> handler \<Rightarrow> 'r world \<Rightarrow> (reply + handler) \<times> 'r world" where
  "handler_step E decode h w =
     (case h of
        Creating (CreateDone rs) \<Rightarrow> (Inl (Reply rs), w)
      | Creating pc \<Rightarrow> (case create_step E pc w of (pc, w) \<Rightarrow> (Inr (Creating pc), w))
      | Serving dr rq \<Rightarrow> (case serve_http E decode dr rq w of (rp, w) \<Rightarrow> (Inl rp, w)))"

section \<open>The goroutines\<close>

text \<open>The goroutine of the server sends only errors that do not come from the shutdown; the channel holds one.\<close>

definition server_returns :: "string \<Rightarrow> api_process \<Rightarrow> api_process" where
  "server_returns err A =
     (if apInShutdown A then A\<lparr>apServer := ServerReturned\<rparr>
      else A\<lparr>apServer := ServerReturned, apServerErr := Some err\<rparr>)"

definition server_starts :: "string option \<Rightarrow> api_process \<Rightarrow> api_process" where
  "server_starts listen_err A =
     (if apInShutdown A then A\<lparr>apServer := ServerReturned\<rparr>
      else case listen_err of Some err \<Rightarrow> server_returns err A | None \<Rightarrow> A\<lparr>apServer := ServerListens\<rparr>)"

text \<open>
  The select, in which \<open>pick\<close> chooses when both channels have something; \<open>Shutdown\<close>, which closes the listeners
  at once and then waits, \<open>timeout\<close> being the end of its context; and the deferred calls of a return, which an
  exit skips.
\<close>

definition api_main :: "bool \<Rightarrow> bool \<Rightarrow> string option \<Rightarrow> api_process \<Rightarrow> api_process" where
  "api_main pick timeout lnerr A =
     (case apPc A of
        ApiWaits \<Rightarrow>
          if apQuit A \<and> (pick \<or> apServerErr A = None) then A\<lparr>apPc := ApiShutsDown, apQuit := False, apInShutdown := True\<rparr>
          else if apServerErr A \<noteq> None then A\<lparr>apPc := ApiExited 1, apServerErr := None\<rparr>
          else A
      | ApiShutsDown \<Rightarrow>
          if apHandlers A = []
          then (case lnerr of
                  None \<Rightarrow> A\<lparr>apPc := ApiReturned, apRedisOpen := False, apPgOpen := False\<rparr>
                | Some err \<Rightarrow> A\<lparr>apPc := ApiExited 1\<rparr>)
          else if timeout then A\<lparr>apPc := ApiExited 1\<rparr>
          else A
      | _ \<Rightarrow> A)"

datatype 'w api_act =
    ApiSignal
  | ApiServerStart "string option"
  | ApiServerFail string
  | ApiRequest draw request
  | ApiHandler nat
  | ApiMain bool bool "string option"
  | ApiWorld 'w

text \<open>A process that has returned or exited does nothing any more.\<close>

definition api_step ::
  "('m, 'r) env \<Rightarrow> (bytes \<Rightarrow> CreateEventRequest option) \<Rightarrow> 'r world api_act \<Rightarrow> api_process \<Rightarrow> 'r world \<Rightarrow> api_process \<times> 'r world" where
  "api_step E decode a A w =
     (if apPc A \<notin> {ApiWaits, ApiShutsDown} then (case a of ApiWorld v \<Rightarrow> (A, v) | _ \<Rightarrow> (A, w))
      else case a of
        ApiSignal \<Rightarrow> (A\<lparr>apQuit := True\<rparr>, w)
      | ApiServerStart listen_err \<Rightarrow> (if apServer A = ServerStarts then server_starts listen_err A else A, w)
      | ApiServerFail err \<Rightarrow> (if apServer A = ServerListens then server_returns err A else A, w)
      | ApiRequest dr rq \<Rightarrow>
          (if apServer A = ServerListens \<and> \<not> apInShutdown A
           then A\<lparr>apHandlers := apHandlers A @ [handler_begin decode dr rq], apAccepted := Suc (apAccepted A)\<rparr> else A, w)
      | ApiHandler k \<Rightarrow>
          if k < length (apHandlers A)
          then (case handler_step E decode (apHandlers A ! k) w of
                  (Inl rp, w) \<Rightarrow> (A\<lparr>apHandlers := remove_nth k (apHandlers A), apReplies := apReplies A @ [rp]\<rparr>, w)
                | (Inr h, w) \<Rightarrow> (A\<lparr>apHandlers := (apHandlers A)[k := h]\<rparr>, w))
          else (A, w)
      | ApiMain pick timeout lnerr \<Rightarrow> (api_main pick timeout lnerr A, w)
      | ApiWorld v \<Rightarrow> (A, v))"

fun run_api ::
  "('m, 'r) env \<Rightarrow> (bytes \<Rightarrow> CreateEventRequest option) \<Rightarrow> 'r world api_act list \<Rightarrow> api_process \<Rightarrow> 'r world \<Rightarrow> api_process \<times> 'r world" where
  "run_api E decode [] A w = (A, w)"
| "run_api E decode (a # as) A w = (case api_step E decode a A w of (A', w') \<Rightarrow> run_api E decode as A' w')"

lemma run_api_append:
  "run_api E decode (as @ bs) A w = (case run_api E decode as A w of (A', w') \<Rightarrow> run_api E decode bs A' w')"
  by (induction as arbitrary: A w) (auto split: prod.split)


section \<open>Handlers\<close>

text \<open>Left alone, a handler does what \<open>serve_http\<close> says the request does.\<close>

fun run_handler ::
  "('m, 'r) env \<Rightarrow> (bytes \<Rightarrow> CreateEventRequest option) \<Rightarrow> nat \<Rightarrow> handler \<Rightarrow> 'r world \<Rightarrow> (reply \<times> 'r world) option" where
  "run_handler E decode 0 h w = None"
| "run_handler E decode (Suc n) h w =
     (case handler_step E decode h w of (Inl rp, w) \<Rightarrow> Some (rp, w) | (Inr h, w) \<Rightarrow> run_handler E decode n h w)"

fun steps_left :: "handler \<Rightarrow> nat" where
  "steps_left (Creating (CreateStore e)) = 6"
| "steps_left (Creating (CreatePublish e)) = 5"
| "steps_left (Creating (CreateQueue e)) = 4"
| "steps_left (Creating (CreateAnnounce e)) = 3"
| "steps_left (Creating (CreateCount e)) = 2"
| "steps_left (Creating (CreateDone rs)) = 1"
| "steps_left (Serving dr rq) = 1"

lemma steps_left_bounds: "0 < steps_left h" "steps_left h \<le> 6"
  by (cases h rule: steps_left.cases; simp)+

lemma handler_step_progress:
  "case handler_step E decode h w of (Inl rp, w') \<Rightarrow> True | (Inr h', w') \<Rightarrow> steps_left h' < steps_left h"
  by (cases h rule: steps_left.cases) (auto simp: handler_step_def split: prod.split option.split)

lemma serve_creation:
  assumes "is_creation rq"
  shows "serve_http E decode dr rq w = map_prod Reply id (HandleCreateEvent E decode dr (rqBody rq) w)"
  using assms by (auto simp: is_creation_def serve_http_def split: prod.split)

lemma run_handler_serves:
  "run_handler E decode 6 (handler_begin decode dr rq) w = Some (serve_http E decode dr rq w)"
proof (cases "is_creation rq")
  case True
  have six: "6 = Suc (Suc (Suc (Suc (Suc (Suc 0)))))" by simp
  show ?thesis
    using True unfolding six
    by (auto simp: handler_begin_def serve_creation create_begin_def handler_step_def HandleCreateEvent_def Let_def
        split: sum.split prod.split option.split)
next
  case False
  then show ?thesis by (simp add: handler_begin_def handler_step_def eval_nat_numeral split: prod.split)
qed

section \<open>The invariant\<close>

definition api_ok :: "api_process \<Rightarrow> bool" where
  "api_ok A \<longleftrightarrow> apAccepted A = length (apReplies A) + length (apHandlers A) \<and>
     (case apPc A of
        ApiWaits \<Rightarrow> \<not> apInShutdown A \<and> apPgOpen A \<and> apRedisOpen A
      | ApiShutsDown \<Rightarrow> apInShutdown A \<and> apPgOpen A \<and> apRedisOpen A
      | ApiReturned \<Rightarrow> apInShutdown A \<and> apHandlers A = [] \<and> \<not> apPgOpen A \<and> \<not> apRedisOpen A
      | ApiExited code \<Rightarrow> code = 1 \<and> apPgOpen A \<and> apRedisOpen A)"

lemma new_api_ok: "api_ok new_api"
  by (simp add: api_ok_def new_api_def)

lemma api_main_ok: "api_ok A \<Longrightarrow> api_ok (api_main pick timeout lnerr A)"
  by (cases "apPc A") (auto simp: api_ok_def api_main_def split: option.split)

lemma api_step_ok: "api_ok A \<Longrightarrow> api_step E decode a A w = (A', w') \<Longrightarrow> api_ok A'"
proof (cases a)
  case (ApiHandler k)
  assume "api_ok A" "api_step E decode a A w = (A', w')"
  then show ?thesis
    unfolding ApiHandler
    by (cases "apPc A"; cases "handler_step E decode (apHandlers A ! k) w")
      (auto simp: api_step_def api_ok_def length_remove_nth split: if_splits sum.splits)
next
  case (ApiMain pick timeout lnerr)
  assume "api_ok A" "api_step E decode a A w = (A', w')"
  then show ?thesis unfolding ApiMain using api_main_ok by (auto simp: api_step_def split: if_splits)
qed (auto simp: api_step_def api_ok_def server_starts_def server_returns_def split: if_splits option.splits api_pc.splits)

lemma run_api_ok: "api_ok A \<Longrightarrow> run_api E decode as A w = (A', w') \<Longrightarrow> api_ok A'"
proof (induction as arbitrary: A w)
  case (Cons a as)
  obtain A1 w1 where "api_step E decode a A w = (A1, w1)" by fastforce
  with Cons api_step_ok [OF Cons.prems(1) this] show ?case by auto
qed simp


section \<open>Causes\<close>

definition fatal :: "'w api_act \<Rightarrow> bool" where
  "fatal a \<longleftrightarrow> (case a of ApiServerStart listen_err \<Rightarrow> listen_err \<noteq> None | ApiServerFail err \<Rightarrow> True | _ \<Rightarrow> False)"

definition shutdown_fails :: "'w api_act \<Rightarrow> bool" where
  "shutdown_fails a \<longleftrightarrow> (case a of ApiMain pick timeout lnerr \<Rightarrow> timeout \<or> lnerr \<noteq> None | _ \<Rightarrow> False)"

definition caused :: "'w api_act list \<Rightarrow> api_process \<Rightarrow> bool" where
  "caused as A \<longleftrightarrow> (apQuit A \<or> apPc A \<in> {ApiShutsDown, ApiReturned} \<longrightarrow> ApiSignal \<in> set as) \<and>
     (apServerErr A \<noteq> None \<longrightarrow> list_ex fatal as) \<and>
     (case apPc A of ApiExited code \<Rightarrow> list_ex fatal as \<or> ApiSignal \<in> set as \<and> list_ex shutdown_fails as | _ \<Rightarrow> True)"

lemma caused_step: "caused as A \<Longrightarrow> api_step E decode a A w = (A', w') \<Longrightarrow> caused (as @ [a]) A'"
proof (cases a)
  case (ApiHandler k)
  assume "caused as A" "api_step E decode a A w = (A', w')"
  then show ?thesis
    unfolding ApiHandler
    by (cases "apPc A"; cases "handler_step E decode (apHandlers A ! k) w")
      (auto simp: api_step_def caused_def split: if_splits sum.splits)
next
  case (ApiMain pick timeout lnerr)
  assume "caused as A" "api_step E decode a A w = (A', w')"
  then show ?thesis
    unfolding ApiMain
    by (cases "apPc A") (auto simp: api_step_def api_main_def caused_def shutdown_fails_def split: if_splits option.splits)
qed (auto simp: api_step_def caused_def server_starts_def server_returns_def fatal_def split: if_splits option.splits api_pc.splits)

lemma run_caused: "caused pre A \<Longrightarrow> run_api E decode as A w = (A', w') \<Longrightarrow> caused (pre @ as) A'"
proof (induction as arbitrary: pre A w)
  case (Cons a as)
  obtain A1 w1 where s: "api_step E decode a A w = (A1, w1)" by fastforce
  with Cons.IH [OF caused_step [OF Cons.prems(1) s]] Cons.prems(2) show ?case by simp
qed simp

section \<open>Properties\<close>

text \<open>
  C22 A run of the API process, with requests, signals and failures of the server at any moment. While it
  waits or shuts down, the database and the Redis client are open. It returns, with exit code 0, only after
  a signal, when every request it took has been answered, and only then closes them. It exits with 1 only
  after a fatal error of the server, or after a signal when \<open>Shutdown\<close> failed or ran out of time, and then
  without closing anything. At every moment the requests taken are those answered and those in handlers,
  and a handler left alone answers as \<open>serve_http\<close> says.
\<close>

theorem api_stops_cleanly:
  "case run_api E decode as new_api w of (A, w') \<Rightarrow>
     apAccepted A = length (apReplies A) + length (apHandlers A) \<and>
     (case apPc A of
        ApiReturned \<Rightarrow> ApiSignal \<in> set as \<and> apHandlers A = [] \<and> length (apReplies A) = apAccepted A \<and>
          \<not> apPgOpen A \<and> \<not> apRedisOpen A
      | ApiExited code \<Rightarrow> code = 1 \<and> (list_ex fatal as \<or> ApiSignal \<in> set as \<and> list_ex shutdown_fails as) \<and>
          apPgOpen A \<and> apRedisOpen A
      | _ \<Rightarrow> apPgOpen A \<and> apRedisOpen A) \<and>
     run_handler E decode 6 (handler_begin decode dr rq) w' = Some (serve_http E decode dr rq w')"
proof -
  obtain A w' where r: "run_api E decode as new_api w = (A, w')" by fastforce
  have "caused [] new_api" by (simp add: caused_def new_api_def)
  from run_caused [OF this r] run_api_ok [OF new_api_ok r] r run_handler_serves [of E decode dr rq w'] show ?thesis
    by (auto simp: api_ok_def caused_def split: api_pc.splits)
qed

lemma finish_handler:
  assumes "apPc A = ApiShutsDown" and "apHandlers A = h # hs"
  shows "\<exists>n rp w'. n \<le> 6 \<and> run_api E decode (replicate n (ApiHandler 0)) A w =
    (A\<lparr>apHandlers := hs, apReplies := apReplies A @ [rp]\<rparr>, w')"
proof -
  have "\<exists>n rp w'. n \<le> steps_left h \<and> run_api E decode (replicate n (ApiHandler 0)) A w =
      (A\<lparr>apHandlers := hs, apReplies := apReplies A @ [rp]\<rparr>, w')"
    using assms
  proof (induction "steps_left h" arbitrary: h A w rule: less_induct)
    case less
    obtain x w1 where x: "handler_step E decode h w = (x, w1)" by fastforce
    show ?case
    proof (cases x)
      case (Inl rp)
      have "api_step E decode (ApiHandler 0) A w = (A\<lparr>apHandlers := hs, apReplies := apReplies A @ [rp]\<rparr>, w1)"
        using less.prems x Inl by (simp add: api_step_def remove_nth_def)
      then show ?thesis using steps_left_bounds(1) [of h]
        by (intro exI [of _ 1] exI [of _ rp] exI [of _ w1]) simp
    next
      case (Inr h')
      have lt: "steps_left h' < steps_left h" using handler_step_progress [where E = E and decode = decode and h = h and w = w] x Inr by simp
      let ?A = "A\<lparr>apHandlers := h' # hs\<rparr>"
      have s: "api_step E decode (ApiHandler 0) A w = (?A, w1)"
        using less.prems x Inr by (simp add: api_step_def)
      from less.hyps [OF lt, of ?A w1] less.prems obtain n rp w' where n: "n \<le> steps_left h'"
        "run_api E decode (replicate n (ApiHandler 0)) ?A w1 = (?A\<lparr>apHandlers := hs, apReplies := apReplies ?A @ [rp]\<rparr>, w')" by auto
      with s lt show ?thesis by (intro exI [of _ "Suc n"] exI [of _ rp] exI [of _ w']) simp
    qed
  qed
  with steps_left_bounds(2) [of h] show ?thesis by (meson order_trans)
qed

lemma finish_handlers:
  assumes "apPc A = ApiShutsDown"
  shows "\<exists>n rps w'. n \<le> 6 * length (apHandlers A) \<and> length rps = length (apHandlers A) \<and>
    run_api E decode (replicate n (ApiHandler 0)) A w = (A\<lparr>apHandlers := [], apReplies := apReplies A @ rps\<rparr>, w')"
  using assms
proof (induction "apHandlers A" arbitrary: A w)
  case Nil
  then show ?case by (intro exI [of _ 0] exI [of _ "[]"] exI [of _ w]) simp
next
  case (Cons h hs)
  obtain n rp w1 where n: "n \<le> 6" "run_api E decode (replicate n (ApiHandler 0)) A w =
      (A\<lparr>apHandlers := hs, apReplies := apReplies A @ [rp]\<rparr>, w1)"
    using finish_handler [OF Cons.prems Cons.hyps(2) [symmetric]] by blast
  let ?A = "A\<lparr>apHandlers := hs, apReplies := apReplies A @ [rp]\<rparr>"
  obtain k rps w2 where k: "k \<le> 6 * length hs" "length rps = length hs"
    "run_api E decode (replicate k (ApiHandler 0)) ?A w1 = (?A\<lparr>apHandlers := [], apReplies := apReplies ?A @ rps\<rparr>, w2)"
    using Cons.hyps(1) [of ?A w1] Cons.prems by auto
  have "run_api E decode (replicate (n + k) (ApiHandler 0)) A w = (A\<lparr>apHandlers := [], apReplies := apReplies A @ rp # rps\<rparr>, w2)"
    using n(2) k(3) by (simp add: replicate_add run_api_append)
  with n(1) k(1,2) show ?case unfolding Cons.hyps(2) [symmetric]
    by (intro exI [of _ "n + k"] exI [of _ "rp # rps"] exI [of _ w2]) simp
qed

text \<open>
  C23 A graceful shutdown can always finish. From every state of the process in which a signal is pending or
  the shutdown has begun, steps of the handlers that are there, at most six for each, and of \<open>main\<close>, without
  the timeout, bring it to its return, and each of these requests gets its reply.
\<close>

theorem api_can_stop:
  fixes E :: "('m, 'r) env" and w :: "'r world"
  assumes "apPc A = ApiWaits \<and> apQuit A \<or> apPc A = ApiShutsDown"
  shows "\<exists>as rps A' w'. set as \<subseteq> {ApiHandler 0, ApiMain True False None} \<and> length as \<le> 6 * length (apHandlers A) + 2 \<and>
    run_api E decode as A w = (A', w') \<and> apPc A' = ApiReturned \<and> apReplies A' = apReplies A @ rps \<and>
    length rps = length (apHandlers A) \<and> apHandlers A' = [] \<and> \<not> apPgOpen A' \<and> \<not> apRedisOpen A'"
proof -
  let ?m = "ApiMain True False None :: 'r world api_act"
  define first where "first = (if apPc A = ApiWaits then [?m] else [])"
  define A1 where "A1 = (if apPc A = ApiWaits then A\<lparr>apPc := ApiShutsDown, apQuit := False, apInShutdown := True\<rparr> else A)"
  have f: "run_api E decode first A w = (A1, w)" "apPc A1 = ApiShutsDown" "apHandlers A1 = apHandlers A" "apReplies A1 = apReplies A"
    using assms by (auto simp: first_def A1_def api_step_def api_main_def)
  obtain n rps w' where n: "n \<le> 6 * length (apHandlers A)" "length rps = length (apHandlers A)"
    "run_api E decode (replicate n (ApiHandler 0)) A1 w = (A1\<lparr>apHandlers := [], apReplies := apReplies A @ rps\<rparr>, w')"
    using finish_handlers [OF f(2), of E decode w] f(3,4) by auto
  let ?A2 = "A1\<lparr>apHandlers := [], apReplies := apReplies A @ rps\<rparr>"
  have l: "api_step E decode ?m ?A2 w' = (?A2\<lparr>apPc := ApiReturned, apRedisOpen := False, apPgOpen := False\<rparr>, w')"
    using f(2) by (simp add: api_step_def api_main_def)
  have "run_api E decode (first @ replicate n (ApiHandler 0) @ [?m]) A w =
      (?A2\<lparr>apPc := ApiReturned, apRedisOpen := False, apPgOpen := False\<rparr>, w')"
    using f(1) n(3) l by (simp add: run_api_append)
  moreover have "length (first @ replicate n (ApiHandler 0) @ [?m]) \<le> 6 * length (apHandlers A) + 2"
    using n(1) by (simp add: first_def)
  moreover have "set (first @ replicate n (ApiHandler 0) @ [?m]) \<subseteq> {ApiHandler 0, ?m}" by (auto simp: first_def)
  ultimately show ?thesis using n(2)
    by (intro exI [of _ "first @ replicate n (ApiHandler 0) @ [?m]"] exI [of _ rps]
        exI [of _ "?A2\<lparr>apPc := ApiReturned, apRedisOpen := False, apPgOpen := False\<rparr>"] exI [of _ w']) simp
qed

definition stopping_api :: api_process where
  "stopping_api = new_api\<lparr>apServer := ServerListens, apQuit := True, apAccepted := 1,
     apHandlers := [Creating (CreateStore (msg_event PriorityHigh))]\<rparr>"

theorem api_can_stop_witness:
  "\<exists>as rp A' w'. run_api mem_env decode_request as stopping_api stale_world = (A', w') \<and> length as \<le> 8 \<and>
     apPc A' = ApiReturned \<and> apReplies A' = [rp]"
proof -
  have s: "apPc stopping_api = ApiWaits" "apQuit stopping_api" "length (apHandlers stopping_api) = 1" "apReplies stopping_api = []"
    by (simp_all add: stopping_api_def new_api_def)
  from api_can_stop [of stopping_api mem_env decode_request stale_world] s obtain as rps A' w' where
    r: "length as \<le> 8" "run_api mem_env decode_request as stopping_api stale_world = (A', w')" "apPc A' = ApiReturned"
      "apReplies A' = rps" "length rps = 1" by auto
  obtain rp where "rps = [rp]" using r(5) by (cases rps) auto
  with r show ?thesis by blast
qed

end
