(* ===== verification/Metrics.thy ===== *)
theory Metrics
  imports World
begin

text \<open>
  The collectors \<open>internal/metrics/metrics.go\<close> declares and registers, as data, and what the program relies on
  of the client library: that a call on one collector changes this collector only. The bounds of the
  histogram are the library's, an argument.
\<close>

section \<open>Declarations\<close>

datatype collector_kind = CounterVec | HistogramVec | GaugeVec | Gauge

record collector =
  cKind :: collector_kind
  cName :: string
  cHelp :: string
  cLabels :: "string list"
  cBuckets :: "rat list"

definition EventsReceived :: collector where
  "EventsReceived = \<lparr>cKind = CounterVec, cName = ''events_received_total'', cHelp = ''Total number of successfully received events'',
     cLabels = [''type''], cBuckets = []\<rparr>"

definition EventsProcessed :: collector where
  "EventsProcessed = \<lparr>cKind = CounterVec, cName = ''events_processed_total'', cHelp = ''Total number of successfully processed events'',
     cLabels = [''type''], cBuckets = []\<rparr>"

definition EventsFailed :: collector where
  "EventsFailed = \<lparr>cKind = CounterVec, cName = ''events_failed_total'', cHelp = ''Total number of failed events'',
     cLabels = [''type''], cBuckets = []\<rparr>"

definition EventProcessingDuration :: "rat list \<Rightarrow> collector" where
  "EventProcessingDuration DefBuckets =
     \<lparr>cKind = HistogramVec, cName = ''event_processing_duration_seconds'', cHelp = ''Duration of event processing in seconds'',
      cLabels = [''type''], cBuckets = DefBuckets\<rparr>"

definition QueueDepth :: collector where
  "QueueDepth = \<lparr>cKind = GaugeVec, cName = ''queue_depth'', cHelp = ''Current depth of the event queue'',
     cLabels = [''queue''], cBuckets = []\<rparr>"

definition ActiveWorkers :: collector where
  "ActiveWorkers = \<lparr>cKind = Gauge, cName = ''active_workers'', cHelp = ''Current number of active workers'', cLabels = [], cBuckets = []\<rparr>"

definition WorkerFailures :: collector where
  "WorkerFailures = \<lparr>cKind = CounterVec, cName = ''worker_failures_total'', cHelp = ''Total number of unexpected worker failures'',
     cLabels = [''reason''], cBuckets = []\<rparr>"

definition WebsocketConnections :: collector where
  "WebsocketConnections = \<lparr>cKind = Gauge, cName = ''websocket_connections'', cHelp = ''Current number of active WebSocket connections'',
     cLabels = [], cBuckets = []\<rparr>"

definition declared_collectors :: "rat list \<Rightarrow> collector list" where
  "declared_collectors DefBuckets =
     [EventsReceived, EventsProcessed, EventsFailed, EventProcessingDuration DefBuckets, QueueDepth, ActiveWorkers,
      WorkerFailures, WebsocketConnections]"

lemmas collector_defs = EventsReceived_def EventsProcessed_def EventsFailed_def EventProcessingDuration_def QueueDepth_def
  ActiveWorkers_def WorkerFailures_def WebsocketConnections_def

text \<open>No two have the same name, which \<open>promauto\<close> would refuse with a panic when the package is loaded.\<close>

lemma declared_distinct: "distinct (map cName (declared_collectors bs))"
  by (simp add: declared_collectors_def collector_defs)

lemma counter_names [simp]:
  "cName EventsReceived \<noteq> cName EventsProcessed" "cName EventsReceived \<noteq> cName EventsFailed"
  "cName EventsProcessed \<noteq> cName EventsReceived" "cName EventsProcessed \<noteq> cName EventsFailed"
  "cName EventsFailed \<noteq> cName EventsReceived" "cName EventsFailed \<noteq> cName EventsProcessed"
  by (simp_all add: collector_defs)

section \<open>Counting\<close>

text \<open>
  \<open>tot s n\<close> is the sum of the counter called \<open>n\<close> over all values of its labels and over all processes. The
  three counters go up by one where the code says so, and nothing else moves them up; they may fall when a
  process is started again.
\<close>

definition leaves :: "('r \<Rightarrow> string \<Rightarrow> nat) \<Rightarrow> ('r \<Rightarrow> 'r) \<Rightarrow> bool" where
  "leaves tot f \<longleftrightarrow> (\<forall>s n. tot (f s) n \<le> tot s n)"

definition adds_one :: "('r \<Rightarrow> string \<Rightarrow> nat) \<Rightarrow> collector \<Rightarrow> ('r \<Rightarrow> 'r) \<Rightarrow> bool" where
  "adds_one tot c f \<longleftrightarrow> (\<forall>s. tot (f s) = (tot s)(cName c := Suc (tot s (cName c))))"

definition counting :: "('m, 'r) env \<Rightarrow> ('r \<Rightarrow> string \<Rightarrow> nat) \<Rightarrow> bool" where
  "counting E tot \<longleftrightarrow>
     (\<forall>t. adds_one tot EventsReceived (EventsReceived_Add (plat E) t)) \<and>
     (\<forall>t. adds_one tot EventsProcessed (EventsProcessed_Add (plat E) t)) \<and>
     (\<forall>t. adds_one tot EventsFailed (EventsFailed_Add (plat E) t)) \<and>
     (\<forall>t dur. leaves tot (Duration_Observe (plat E) t dur)) \<and>
     (\<forall>k n. leaves tot (QueueDepth_Set (plat E) k n)) \<and>
     (\<forall>n. leaves tot (ActiveWorkers_Set (plat E) n)) \<and>
     (\<forall>k v ttl. leaves tot (\<lambda>s. snd (Redis_Set (plat E) k v ttl s))) \<and>
     (\<forall>k. leaves tot (\<lambda>s. snd (Redis_Exists (plat E) k s))) \<and>
     (\<forall>k. leaves tot (\<lambda>s. snd (Redis_Keys (plat E) k s))) \<and>
     (\<forall>k. leaves tot (\<lambda>s. snd (Redis_XLen (plat E) k s))) \<and>
     (\<forall>ch m. leaves tot (\<lambda>s. snd (Redis_Publish (plat E) ch m s))) \<and>
     (\<forall>st m. leaves tot (\<lambda>s. snd (XAdd (client E) st m s))) \<and>
     (\<forall>g c st. leaves tot (\<lambda>s. snd (XReadGroup (client E) g c st s))) \<and>
     (\<forall>st g i. leaves tot (\<lambda>s. snd (XAck (client E) st g i s)))"

end
