(* ===== verification/MetricsProps.thy ===== *)
theory MetricsProps
  imports Metrics SystemProps
begin

text \<open>
  The counters against the database. Each of the three counters counts something the database keeps: stored
  events, recorded results, failed events. The difference never shrinks, whatever interleaves and whatever
  fails, once the processes that are about to count are added to the counter.
\<close>

section \<open>What is counted\<close>

datatype tally = Received | Processed | Failed

fun collector_of :: "tally \<Rightarrow> collector" where
  "collector_of Received = EventsReceived"
| "collector_of Processed = EventsProcessed"
| "collector_of Failed = EventsFailed"

fun counted_rows :: "tally \<Rightarrow> db \<Rightarrow> uuid set" where
  "counted_rows Received d = dom (event_row d)"
| "counted_rows Processed d = dom (idem_row d)"
| "counted_rows Failed d = {i. map_option eStatus (event_row d i) = Some StatusFailed}"

lemma finite_select: "finite (dom (row_select key rows))"
proof (rule finite_subset)
  show "dom (row_select key rows) \<subseteq> key ` set rows"
    by (auto simp: row_select_def find_Some_iff)
qed simp

lemma finite_counted [simp]: "finite (counted_rows k d)"
proof (cases k)
  case Failed
  have "counted_rows Failed d \<subseteq> dom (event_row d)" by auto
  then show ?thesis unfolding Failed using finite_select [of eID "events d"] by (simp add: event_row_def finite_subset)
qed (use finite_select [of eID "events d"] finite_select [of idEventID "idempotency d"] in \<open>simp_all add: event_row_def idem_row_def\<close>)

text \<open>Operations of the repository only add to the three sets.\<close>

lemma exec_op_counted:
  assumes "wf_db d"
  shows "counted_rows k d \<subseteq> counted_rows k (exec_op jsonb parse x d)"
proof (cases k)
  case Received
  then show ?thesis using exec_op_row [OF assms] by (auto simp: domIff) (metis option.distinct(1))
next
  case Failed
  then show ?thesis using exec_op_terminal [OF assms, where jsonb = jsonb and parse = parse and x = x]
    by (fastforce simp: terminal_def)
next
  case Processed
  have "dom (idem_row d) \<subseteq> dom (idem_row (exec_op jsonb parse x d))"
  proof (cases x)
    case (OpFinalizeEvent flt now i h)
    obtain r d' where c: "FinalizeEvent flt now i h d = (r, d')" by fastforce
    from FinalizeEvent_cases [OF assms c] c OpFinalizeEvent show ?thesis by (metis dom_fun_upd exec_op.simps(4) option.distinct(1) snd_conv subset_insertI order_refl)
  next
    case (OpCreate flt e)
    obtain r d' where c: "Create jsonb flt e d = (r, d')" by fastforce
    from Create_cases [OF assms c] c OpCreate show ?thesis by (metis exec_op.simps(1) idem_row_def order_refl snd_conv)
  next
    case (OpUpdateStatus flt now i old new)
    obtain r d' where c: "UpdateStatus flt now i old new d = (r, d')" by fastforce
    from UpdateStatus_cases [OF assms c] c OpUpdateStatus show ?thesis by (metis exec_op.simps(2) idem_row_def order_refl snd_conv)
  next
    case (OpAssignEvent flt now i w old new)
    obtain r d' where c: "AssignEvent parse flt now i w old new d = (r, d')" by fastforce
    from AssignEvent_cases [OF assms c] c OpAssignEvent show ?thesis by (metis exec_op.simps(3) idem_row_def order_refl snd_conv)
  next
    case (OpRecordFailure flt now i m)
    obtain s r d' where c: "RecordFailure flt now i m d = ((s, r), d')" by (metis surj_pair)
    from RecordFailure_cases [OF assms c] c OpRecordFailure show ?thesis by (metis exec_op.simps(5) idem_row_def order_refl snd_conv)
  qed
  then show ?thesis by (simp add: Processed)
qed

text \<open>The calls after which a counter goes up have added to the set.\<close>

lemma FinalizeEvent_counted:
  assumes "wf_db d" and "FinalizeEvent flt now i h d = (None, d')"
  shows "card (counted_rows Processed d') = Suc (card (counted_rows Processed d))"
  using assms
proof (cases rule: FinalizeEvent_cases)
  case (moved row)
  then have "dom (idem_row d') = insert i (dom (idem_row d))" "i \<notin> dom (idem_row d)" by auto
  then show ?thesis using finite_counted [of Processed d] by simp
qed simp

lemma RecordFailure_counted:
  assumes "wf_db d" and "RecordFailure flt now i m d = ((StatusFailed, None), d')"
  shows "card (counted_rows Failed d') = Suc (card (counted_rows Failed d))"
  using assms
proof (cases rule: RecordFailure_cases)
  case (moved row)
  have "eStatus row \<noteq> StatusFailed" using moved(2) by (simp add: status_defs)
  then have "counted_rows Failed d' = insert i (counted_rows Failed d)" "i \<notin> counted_rows Failed d"
    using moved(1,3) by (auto simp: row_moved_def)
  then show ?thesis using finite_counted [of Failed d] by simp
qed simp

lemma Create_counted:
  assumes "wf_db d" and "Create jsonb flt e d = (None, d')"
  shows "card (counted_rows Received d') = Suc (card (counted_rows Received d))"
  using assms
proof (cases rule: Create_cases)
  case (added p)
  then have "dom (event_row d') = insert (eID e) (dom (event_row d))" "eID e \<notin> dom (event_row d)" by auto
  then show ?thesis using finite_counted [of Received d] by simp
qed simp


section \<open>Calls\<close>

text \<open>By how much the database is ahead of the counter.\<close>

definition spare :: "('r \<Rightarrow> string \<Rightarrow> nat) \<Rightarrow> tally \<Rightarrow> 'r world \<Rightarrow> int" where
  "spare tot k w = int (card (counted_rows k (wDB w))) - int (tot (wOut w) (cName (collector_of k)))"

definition ahead :: "('r \<Rightarrow> string \<Rightarrow> nat) \<Rightarrow> 'r world \<Rightarrow> 'r world \<Rightarrow> bool" where
  "ahead tot w w' \<longleftrightarrow> wf_db (wDB w) \<longrightarrow> wf_db (wDB w') \<and> (\<forall>k. spare tot k w \<le> spare tot k w')"

lemma ahead_refl [simp]: "ahead tot w w"
  by (simp add: ahead_def)

lemma ahead_trans: "ahead tot w w1 \<Longrightarrow> ahead tot w1 w2 \<Longrightarrow> ahead tot w w2"
  by (auto simp: ahead_def intro: order_trans)

lemma ahead_same: "wDB w' = wDB w \<Longrightarrow> \<forall>n. tot (wOut w') n \<le> tot (wOut w) n \<Longrightarrow> ahead tot w w'"
  by (simp add: ahead_def spare_def)

lemma ahead_db:
  assumes "snd (f (faults_at E (wCalls w)) (now_at E (wCalls w)) (wDB w)) = exec_op jsonb parse x (wDB w)"
  shows "ahead tot w (snd (on_db E f w))"
proof -
  have out: "wOut (snd (on_db E f w)) = wOut w" by (simp add: on_db_def case_prod_beta)
  show ?thesis
    unfolding ahead_def
  proof (intro impI conjI allI)
    assume wf: "wf_db (wDB w)"
    show "wf_db (wDB (snd (on_db E f w)))" using exec_op_wf [OF wf] by (simp add: on_db_db assms)
    fix k
    have "card (counted_rows k (wDB w)) \<le> card (counted_rows k (wDB (snd (on_db E f w))))"
      unfolding on_db_db assms by (rule card_mono [OF finite_counted exec_op_counted [OF wf]])
    then show "spare tot k w \<le> spare tot k (snd (on_db E f w))" by (simp add: spare_def out)
  qed
qed

lemma ahead_read:
  assumes "\<And>flt now x. snd (f flt now x) = x"
  shows "ahead tot w (snd (on_db E f w))"
  by (rule ahead_same) (simp_all add: on_db_def case_prod_beta assms)

lemma ahead_out: "leaves tot (\<lambda>s. snd (f s)) \<Longrightarrow> ahead tot w (snd (on_out f w))"
  by (rule ahead_same) (simp_all add: on_out_def case_prod_beta leaves_def)

lemma ahead_out_only: "leaves tot f \<Longrightarrow> ahead tot w (out_only f w)"
  by (rule ahead_same) (simp_all add: out_only_def leaves_def)

lemma ahead_then: "ahead tot w u \<Longrightarrow> leaves tot f \<Longrightarrow> ahead tot w (out_only f u)"
  using ahead_trans ahead_out_only by blast

lemma ahead_calls: "ahead tot w (w\<lparr>wCalls := n\<rparr>)"
  by (rule ahead_same) simp_all

lemma ahead_repo:
  "ahead tot w (snd (repo_AssignEvent E i name old new w))" "ahead tot w (snd (recover_reset E st e w))"
  "ahead tot w (snd (repo_FinalizeEvent E i h w))" "ahead tot w (snd (repo_RecordFailure E i m w))"
  "ahead tot w (snd (repo_UpdateStatus E i old new w))" "ahead tot w (snd (repo_Create E e w))"
  unfolding repo_AssignEvent_def recover_reset_def repo_FinalizeEvent_def repo_RecordFailure_def repo_UpdateStatus_def
    repo_Create_def
  by (rule ahead_db [where jsonb = "jsonb_in E" and parse = "uuid_Parse E"],
      rule exec_op.simps(3) [symmetric],
      rule ahead_db [where jsonb = "jsonb_in E" and parse = "uuid_Parse E"], rule exec_op.simps(3) [symmetric],
      rule ahead_db [where jsonb = "jsonb_in E" and parse = "uuid_Parse E"], rule exec_op.simps(4) [symmetric],
      rule ahead_db [where jsonb = "jsonb_in E" and parse = "uuid_Parse E"], rule exec_op.simps(5) [symmetric],
      rule ahead_db [where jsonb = "jsonb_in E" and parse = "uuid_Parse E"], rule exec_op.simps(2) [symmetric],
      rule ahead_db [where jsonb = "jsonb_in E" and parse = "uuid_Parse E"], rule exec_op.simps(1) [symmetric])

lemma ahead_reads:
  "ahead tot w (snd (repo_GetByID E i w))" "ahead tot w (snd (repo_List E l off w))" "ahead tot w (snd (query_stale E st age w))"
  by (simp_all add: repo_GetByID_def repo_List_def query_stale_def repo_GetStaleEvents_def ahead_read)

lemma leaves_queue:
  assumes "counting E tot"
  shows "leaves tot (\<lambda>s. snd (Publish (client E) marshal e s))" "leaves tot (\<lambda>s. snd (Ack (client E) j s))"
    "leaves tot (\<lambda>s. snd (Retry (client E) marshal j s))" "leaves tot (\<lambda>s. snd (consume_round (client E) unmarshal fin g name s))"
proof -
  have p: "leaves tot (\<lambda>s. snd (Publish (client E) marshal e s))" for e
    using assms by (auto simp: counting_def leaves_def Publish_def split: option.split prod.split)
      (metis snd_conv)+
  have a: "leaves tot (\<lambda>s. snd (Ack (client E) j s))"
    using assms by (auto simp: counting_def leaves_def Ack_def split: option.split prod.split) (metis snd_conv)+
  have r: "tot (snd (Retry (client E) marshal j s)) n \<le> tot s n" for s n
  proof -
    obtain x t where 1: "Publish (client E) marshal (jEvent j) s = (x, t)" by fastforce
    obtain y u where 2: "Ack (client E) j t = (y, u)" by fastforce
    have "tot t n \<le> tot s n" "tot u n \<le> tot t n"
      using p [of "jEvent j"] a 1 2 by (auto simp: leaves_def) (metis snd_conv)+
    with 1 2 show ?thesis by (cases x; cases y) (auto simp: Retry_def)
  qed
  have poll: "tot (snd (poll_streams (client E) unmarshal (\<lambda>_ t. t) g name sts s)) n \<le> tot s n" for sts s n
  proof (induction sts arbitrary: s)
    case (Cons st sts)
    obtain reply t where x: "XReadGroup (client E) g name st s = (reply, t)" by fastforce
    have "tot t n \<le> tot s n" using assms x by (auto simp: counting_def leaves_def) (metis snd_conv)
    with x Cons [of t] show ?case by (cases reply) (auto split: option.split)
  qed simp
  show "leaves tot (\<lambda>s. snd (Publish (client E) marshal e s))" "leaves tot (\<lambda>s. snd (Ack (client E) j s))"
    "leaves tot (\<lambda>s. snd (Retry (client E) marshal j s))" "leaves tot (\<lambda>s. snd (consume_round (client E) unmarshal fin g name s))"
    using p a r poll by (auto simp: leaves_def consume_round_def)
qed

lemma ahead_queue:
  assumes "counting E tot"
  shows "ahead tot w (snd (queue_Publish E e w))" "ahead tot w (snd (queue_Ack E j w))" "ahead tot w (snd (queue_Retry E j w))"
    "ahead tot w (snd (queue_Consume E fin g name w))"
  using leaves_queue [OF assms] by (simp_all add: queue_Publish_def queue_Ack_def queue_Retry_def queue_Consume_def ahead_out)

lemma ahead_platform:
  assumes "counting E tot"
  shows "ahead tot w (RedisBroadcast E msg w)" "ahead tot w (snd (Exists_heartbeat E wid w))" "ahead tot w (announce_received E ev w)"
    "ahead tot w (snd (Ping E wid ttl w))" "ahead tot w (update_active E w)" "ahead tot w (update_depth E s w)"
    "ahead tot w (out_only (Duration_Observe (plat E) t dur) w)"
proof -
  have p: "leaves tot (\<lambda>s. snd (Redis_Set (plat E) k v ttl s))" "leaves tot (\<lambda>s. snd (Redis_Exists (plat E) k s))"
      "leaves tot (\<lambda>s. snd (Redis_Keys (plat E) k s))" "leaves tot (\<lambda>s. snd (Redis_XLen (plat E) k s))"
      "leaves tot (\<lambda>s. snd (Redis_Publish (plat E) k m s))" "leaves tot (ActiveWorkers_Set (plat E) n)"
      "leaves tot (QueueDepth_Set (plat E) k n)" "leaves tot (Duration_Observe (plat E) t dur)" for k v ttl m n
    using assms by (simp_all add: counting_def)
  note o = ahead_out [OF p(1)] ahead_out [OF p(2)] ahead_out [OF p(3)] ahead_out [OF p(4)] ahead_out [OF p(5)]
  show "ahead tot w (RedisBroadcast E msg w)" "ahead tot w (snd (Exists_heartbeat E wid w))" "ahead tot w (announce_received E ev w)"
    by (simp_all add: RedisBroadcast_def announce_received_def Exists_heartbeat_def o)
  show "ahead tot w (out_only (Duration_Observe (plat E) t dur) w)" by (rule ahead_out_only [OF p(8)])
  obtain x v where x: "on_out (Redis_Set (plat E) (heartbeat_key wid) ''alive'' ttl) w = (x, v)" by fastforce
  with o(1) [of w "heartbeat_key wid" "''alive''" ttl] show "ahead tot w (snd (Ping E wid ttl w))" by (cases x) (simp_all add: Ping_def)
  obtain y u where y: "on_out (Redis_Keys (plat E) ''worker:*:heartbeat'') w = (y, u)" by fastforce
  with o(3) [of w "''worker:*:heartbeat''"] ahead_then [OF _ p(6)] show "ahead tot w (update_active E w)"
    by (cases y) (auto simp: update_active_def)
  obtain z t where z: "on_out (Redis_XLen (plat E) s) w = (z, t)" by fastforce
  with o(4) [of w s] ahead_then [OF _ p(7)] show "ahead tot w (update_depth E s w)"
    by (cases z) (auto simp: update_depth_def)
qed


section \<open>Steps\<close>

text \<open>Who is about to count: after the call that succeeded, before the counter.\<close>

definition about_to :: "tally \<Rightarrow> loop_pc \<Rightarrow> bool" where
  "about_to k pc \<longleftrightarrow> (case pc of
     AtAckDone j t \<Rightarrow> k = Processed
   | AtReportDone j t \<Rightarrow> k = Processed
   | AtFailedMetric j \<Rightarrow> k = Failed
   | _ \<Rightarrow> False)"

definition about_to_create :: "tally \<Rightarrow> create_pc \<Rightarrow> bool" where
  "about_to_create k pc \<longleftrightarrow> k = Received \<and> (case pc of
     CreatePublish e \<Rightarrow> True
   | CreateQueue e \<Rightarrow> True
   | CreateAnnounce e \<Rightarrow> True
   | CreateCount e \<Rightarrow> True
   | _ \<Rightarrow> False)"

abbreviation one_if :: "bool \<Rightarrow> int" where
  "one_if b \<equiv> (if b then 1 else 0)"

text \<open>What a step may do: fall back by one only where one stops being about to count, get ahead where one starts.\<close>

definition fair_count :: "('r \<Rightarrow> string \<Rightarrow> nat) \<Rightarrow> (tally \<Rightarrow> bool) \<Rightarrow> (tally \<Rightarrow> bool) \<Rightarrow> 'r world \<Rightarrow> 'r world \<Rightarrow> bool" where
  "fair_count tot before after w w' \<longleftrightarrow> wf_db (wDB w) \<longrightarrow> wf_db (wDB w') \<and>
     (\<forall>k. spare tot k w - one_if (before k) \<le> spare tot k w' - one_if (after k))"

lemma fairI:
  assumes "wf_db (wDB w) \<Longrightarrow> wf_db (wDB w')"
    and "\<And>k. wf_db (wDB w) \<Longrightarrow> spare tot k w + one_if (after k) \<le> spare tot k w' + one_if (before k)"
  shows "fair_count tot before after w w'"
  using assms by (fastforce simp: fair_count_def algebra_simps)

lemma fairD:
  "fair_count tot before after w w' \<Longrightarrow> wf_db (wDB w) \<Longrightarrow>
   wf_db (wDB w') \<and> spare tot k w + one_if (after k) \<le> spare tot k w' + one_if (before k)"
  by (drule fair_count_def [THEN iffD1, rule_format]) (auto simp: algebra_simps split: if_splits)

lemma aheadD: "ahead tot w w' \<Longrightarrow> wf_db (wDB w) \<Longrightarrow> wf_db (wDB w') \<and> spare tot k w \<le> spare tot k w'"
  by (simp add: ahead_def)

lemma fair_ahead:
  assumes "ahead tot w w'" and "\<forall>k. after k \<longrightarrow> before k"
  shows "fair_count tot before after w w'"
proof (rule fairI)
  fix k
  assume "wf_db (wDB w)"
  then show "spare tot k w + one_if (after k) \<le> spare tot k w' + one_if (before k)"
    using aheadD [OF assms(1), of k] assms(2) by (cases "after k"; cases "before k") auto
qed (use aheadD [OF assms(1)] in blast)

lemma fair_counted:
  assumes "ahead tot w w'" and "wf_db (wDB w) \<Longrightarrow> card (counted_rows c (wDB w')) = Suc (card (counted_rows c (wDB w)))"
    and "wOut w' = wOut w" and "\<forall>k. after k \<longrightarrow> k = c \<or> before k"
  shows "fair_count tot before after w w'"
proof (rule fairI)
  fix k
  assume wf: "wf_db (wDB w)"
  have "k = c \<Longrightarrow> spare tot k w' = spare tot k w + 1" using assms(2) [OF wf] assms(3) by (simp add: spare_def)
  then show "spare tot k w + one_if (after k) \<le> spare tot k w' + one_if (before k)"
    using aheadD [OF assms(1) wf, of k] assms(4) by (cases "after k"; cases "before k"; cases "k = c") auto
qed (use aheadD [OF assms(1)] in blast)

lemma fair_adds:
  assumes "adds_one tot (collector_of c) f" and "before c" and "\<not> after c" and "\<forall>k. after k \<longrightarrow> before k"
  shows "fair_count tot before after w (out_only f w)"
proof (rule fairI)
  fix k
  have "spare tot k (out_only f w) = spare tot k w - one_if (k = c)"
    using assms(1) by (cases c; cases k) (auto simp: adds_one_def spare_def out_only_def)
  then show "spare tot k w + one_if (after k) \<le> spare tot k (out_only f w) + one_if (before k)"
    using assms(2-4) by (cases "after k"; cases "before k"; cases "k = c") auto
qed (simp add: out_only_def)

lemma fair_trans:
  assumes "fair_count tot p q w w1" and "ahead tot w1 w2"
  shows "fair_count tot p q w w2"
proof (rule fairI)
  fix k
  assume wf: "wf_db (wDB w)"
  note 1 = fairD [OF assms(1) wf, of k]
  with aheadD [OF assms(2), of k] show "spare tot k w + one_if (q k) \<le> spare tot k w2 + one_if (p k)" by linarith
qed (use fairD [OF assms(1)] aheadD [OF assms(2)] in blast)


section \<open>Workers\<close>

definition quiet_proc :: "('r \<Rightarrow> string \<Rightarrow> nat) \<Rightarrow> 'r world processor \<Rightarrow> bool" where
  "quiet_proc tot proc \<longleftrightarrow>
     (\<forall>e v. wDB (snd (proc e v)) = wDB v \<and> (\<forall>n. tot (wOut (snd (proc e v))) n \<le> tot (wOut v) n))"

lemma ahead_proc: "quiet_proc tot proc \<Longrightarrow> ahead tot w (snd (proc e w))"
  by (rule ahead_same) (simp_all add: quiet_proc_def)

lemma ahead_pair: "ahead tot w (snd x) \<Longrightarrow> x = (r, v) \<Longrightarrow> ahead tot w v"
  by simp

lemma worker_deps_simps [simp]:
  "consumer (worker_main_deps E proc) = queue_Consume E" "acker (worker_main_deps E proc) = queue_Ack E"
  "retrier (worker_main_deps E proc) = queue_Retry E" "heartbeater (worker_main_deps E proc) = Ping E"
  "processor (worker_main_deps E proc) = proc" "recorder (worker_main_deps E proc) = repo_RecordFailure E"
  "updater_UpdateStatus (worker_main_deps E proc) = repo_UpdateStatus E"
  "updater_AssignEvent (worker_main_deps E proc) = repo_AssignEvent E"
  "updater_FinalizeEvent (worker_main_deps E proc) = repo_FinalizeEvent E"
  "Broadcast (worker_main_deps E proc) = RedisBroadcast E"
  "EventsProcessed_Inc (worker_main_deps E proc) t = out_only (EventsProcessed_Add (plat E) t)"
  "EventsFailed_Inc (worker_main_deps E proc) t = out_only (EventsFailed_Add (plat E) t)"
  "ProcessingDuration_Observe (worker_main_deps E proc) t dur = out_only (Duration_Observe (plat E) t dur)"
  "rand_Float64 (worker_main_deps E proc) w = (rand_at E (wCalls w), w\<lparr>wCalls := Suc (wCalls w)\<rparr>)"
  by (simp_all add: worker_main_deps_def Broadcast_def fun_eq_iff)

lemma about_to_simps [simp]:
  "about_to k AtTop = False" "about_to k AtConsume = False" "about_to k AtConsumeBackoff = False" "about_to k (AtBusy j) = False"
  "about_to k (AtAssign j) = False" "about_to k (AtAckStale j) = False" "about_to k AtReadyStale = False"
  "about_to k (AtAnnounce j) = False" "about_to k (AtProcess j t) = False" "about_to k (AtFinalize j t) = False"
  "about_to k (AtAckDuplicate j) = False" "about_to k (AtAckDone j t) = (k = Processed)" "about_to k (AtReportDone j t) = (k = Processed)"
  "about_to k (AtRecordFailure j) = False" "about_to k (AtFailedMetric j) = (k = Failed)" "about_to k (AtAckFailed j) = False"
  "about_to k (AtReportFailed j) = False" "about_to k (AtSchedule j) = False" "about_to k AtEnd = False"
  "about_to k AtEndReady = False" "about_to k LoopExited = False"
  by (simp_all add: about_to_def)

lemma counting_adds:
  assumes "counting E tot"
  shows "adds_one tot (collector_of Received) (EventsReceived_Add (plat E) t)"
    "adds_one tot (collector_of Processed) (EventsProcessed_Add (plat E) t)"
    "adds_one tot (collector_of Failed) (EventsFailed_Add (plat E) t)"
  using assms by (simp_all add: counting_def)

lemma fair_report_done:
  assumes "counting E tot" and "before Processed" and "\<forall>k. \<not> after k"
  shows "fair_count tot before after w (report_done (worker_main_deps E proc) j t w)"
proof -
  let ?d = "worker_main_deps E proc"
  let ?w1 = "out_only (EventsProcessed_Add (plat E) (eType (jEvent j))) w"
  have 1: "fair_count tot before after w ?w1"
    by (rule fair_adds [OF counting_adds(2) [OF assms(1)]]) (use assms(2,3) in auto)
  show ?thesis
    unfolding report_done_def Let_def worker_deps_simps
    by (rule fair_trans [OF fair_trans [OF 1 ahead_platform(7) [OF assms(1)]] ahead_platform(1) [OF assms(1)]])
qed

lemma loop_step_fair:
  assumes c: "counting E tot" and q: "quiet_proc tot proc"
    and l: "loop_step (worker_main_deps E proc) p timer s w = Some (s', w')"
  shows "fair_count tot (\<lambda>k. about_to k (loop s)) (\<lambda>k. about_to k (loop s')) w w'"
proof (cases "loop s")
  case AtConsume
  obtain r v where x: "queue_Consume E (ctx_done s) (w_group p) (w_id p) w = (r, v)" by fastforce
  note a = ahead_pair [OF ahead_queue(4) [OF c] x]
  from a l AtConsume x show ?thesis
    by (cases r) (auto simp: loop_step_def goto_def split: sum.splits if_splits intro!: fair_ahead)
next
  case (AtAssign j)
  obtain r v where x: "repo_AssignEvent E (eID (jEvent j)) (w_id p) StatusQueued StatusProcessing w = (r, v)" by fastforce
  note a = ahead_pair [OF ahead_repo(1) x]
  from a l AtAssign x show ?thesis
    by (cases r) (auto simp: loop_step_def goto_def split: if_splits intro!: fair_ahead)
next
  case (AtProcess j t)
  obtain r v where x: "proc (jEvent j) w = (r, v)" by fastforce
  note a = ahead_pair [OF ahead_proc [OF q] x]
  from a l AtProcess x show ?thesis by (cases r) (auto simp: loop_step_def goto_def intro!: fair_ahead)
next
  case (AtFinalize j t)
  obtain r v where x: "repo_FinalizeEvent E (eID (jEvent j)) resultHash w = (r, v)" by fastforce
  note a = ahead_pair [OF ahead_repo(3) x]
  show ?thesis
  proof (cases r)
    case None
    have out: "wOut v = wOut w" using x unfolding repo_FinalizeEvent_def by (auto simp: on_db_def split: prod.splits)
    have "FinalizeEvent (faults_at E (wCalls w)) (now_at E (wCalls w)) (eID (jEvent j)) resultHash (wDB w) = (None, wDB v)"
      using x None unfolding repo_FinalizeEvent_def by (auto simp: on_db_def split: prod.splits)
    note n = FinalizeEvent_counted [OF _ this]
    have "s' = goto (AtAckDone j t) s" "w' = v" using l AtFinalize x None by (simp_all add: loop_step_def)
    then show ?thesis using fair_counted [OF a n out] AtFinalize by (simp add: goto_def)
  next
    case (Some err)
    with a l AtFinalize x show ?thesis by (auto simp: loop_step_def goto_def split: if_splits intro!: fair_ahead)
  qed
next
  case (AtReportDone j t)
  then have "s' = goto AtEnd s" "w' = report_done (worker_main_deps E proc) j t w" using l by (simp_all add: loop_step_def)
  then show ?thesis using AtReportDone fair_report_done [OF c] by (simp add: goto_def)
next
  case (AtRecordFailure j)
  obtain st r v where x: "repo_RecordFailure E (eID (jEvent j)) (w_maxAttempts p) w = ((st, r), v)" by (metis surj_pair)
  note a = ahead_pair [OF ahead_repo(4) x]
  show ?thesis
  proof (cases "r = None \<and> st = StatusFailed")
    case True
    have out: "wOut v = wOut w" using x unfolding repo_RecordFailure_def by (auto simp: on_db_def split: prod.splits)
    have "RecordFailure (faults_at E (wCalls w)) (now_at E (wCalls w)) (eID (jEvent j)) (w_maxAttempts p) (wDB w) =
        ((StatusFailed, None), wDB v)"
      using x True unfolding repo_RecordFailure_def by (auto simp: on_db_def split: prod.splits)
    note n = RecordFailure_counted [OF _ this]
    have "s' = goto (AtFailedMetric (failed_attempt j)) s" "w' = v" using l AtRecordFailure x True by (simp_all add: loop_step_def)
    then show ?thesis using fair_counted [OF a n out] AtRecordFailure by (simp add: goto_def)
  next
    case False
    with a l AtRecordFailure x show ?thesis
      by (cases r) (auto simp: loop_step_def goto_def split: if_splits intro!: fair_ahead)
  qed
next
  case (AtFailedMetric j)
  then have "s' = goto (AtAckFailed j) s" "w' = out_only (EventsFailed_Add (plat E) (eType (jEvent j))) w"
    using l by (simp_all add: loop_step_def)
  then show ?thesis using AtFailedMetric fair_adds [OF counting_adds(3) [OF c]] by (simp add: goto_def)
qed (use l in \<open>auto simp: loop_step_def goto_def report_failed_def schedule_retry_def split: if_splits
  intro!: fair_ahead ahead_queue(2) [OF c] ahead_platform(1) [OF c] ahead_calls\<close>)


lemma heart_step_ahead:
  "counting E tot \<Longrightarrow> heart_step (worker_main_deps E proc) p tick s w = Some (s', w') \<Longrightarrow> ahead tot w w' \<and> loop s' = loop s"
  by (cases "heart s") (auto simp: heart_step_def ahead_platform split: if_splits)

lemma retry_step_ahead:
  assumes "counting E tot" and "retry_step (worker_main_deps E proc) timer i s w = Some (s', w')"
  shows "ahead tot w w' \<and> loop s' = loop s"
proof (cases "retries s ! i")
  case (RetryRequeue j)
  obtain r v where x: "queue_Retry E j w = (r, v)" by fastforce
  note a = ahead_pair [OF ahead_queue(3) [OF assms(1)] x]
  from a RetryRequeue x assms(2) show ?thesis by (cases r) (auto simp: retry_step_def retry_exit_def split: if_splits)
qed (use assms in \<open>auto simp: retry_step_def retry_exit_def ahead_repo split: if_splits\<close>)

lemma act_step_fair:
  assumes c: "counting E tot" and q: "quiet_proc tot proc"
    and a: "act_step (worker_main_deps E proc) p (map_act (\<lambda>_. w) x) s w = (s', w')"
  shows "fair_count tot (\<lambda>k. about_to k (loop s)) (\<lambda>k. about_to k (loop s')) w w'"
proof (cases x)
  case (ActLoop timer)
  with a show ?thesis
    by (cases "loop_step (worker_main_deps E proc) p timer s w")
      (auto simp: apply_opt_def intro: loop_step_fair [OF c q] fair_ahead)
next
  case (ActHeart tick)
  with a show ?thesis
    by (cases "heart_step (worker_main_deps E proc) p tick s w")
      (auto simp: apply_opt_def dest: heart_step_ahead [OF c] intro!: fair_ahead)
next
  case (ActRetry i timer)
  with a show ?thesis
    by (cases "retry_step (worker_main_deps E proc) timer i s w")
      (auto simp: apply_opt_def dest: retry_step_ahead [OF c] intro!: fair_ahead)
qed (use a in \<open>auto simp: Start_def Let_def stop_begin_def stop_wake_def stop_finish_def apply_opt_def
  split: if_splits option.splits intro!: fair_ahead ahead_platform(1) [OF c]\<close>)

section \<open>Scheduler and requests\<close>

lemma needs_recovery_ahead: "counting E tot \<Longrightarrow> needs_recovery E st e dead w = (rec, dead', w') \<Longrightarrow> ahead tot w w'"
  using ahead_platform(2) [of E tot w]
  by (auto simp: needs_recovery_def Let_def split: if_splits option.splits prod.splits sum.splits) (metis snd_conv)+

lemma sched_step_ahead:
  assumes c: "counting E tot" and s: "sched_step E tick fin pc w = Some (pc', w')"
  shows "ahead tot w w'"
proof (cases pc)
  case (SchedQuery st age)
  obtain q v where x: "query_stale E st age w = (q, v)" by fastforce
  with s SchedQuery ahead_pair [OF ahead_reads(3) x] show ?thesis by (cases q) auto
next
  case (SchedNext st es dead)
  with s needs_recovery_ahead [OF c] show ?thesis by (cases es) (auto split: prod.splits)
next
  case (SchedPublish st e es dead)
  obtain q v where x: "recover_publish E e w = (q, v)" by fastforce
  with s SchedPublish ahead_pair [OF ahead_queue(1) [OF c] x [unfolded recover_publish_def]] show ?thesis by (cases q) auto
next
  case (SchedDepth sts)
  with s show ?thesis by (cases sts) (auto intro: ahead_platform(6) [OF c])
qed (use s in \<open>auto simp: ahead_repo split: if_splits intro: ahead_platform(5) [OF c]\<close>)

lemma create_step_fair:
  assumes c: "counting E tot" and s: "create_step E pc w = (pc', w')"
  shows "fair_count tot (\<lambda>k. about_to_create k pc) (\<lambda>k. about_to_create k pc') w w'"
proof (cases pc)
  case (CreateStore e)
  obtain r v where x: "repo_Create E e w = (r, v)" by fastforce
  note a = ahead_pair [OF ahead_repo(6) x]
  show ?thesis
  proof (cases r)
    case None
    have out: "wOut v = wOut w" using x unfolding repo_Create_def by (auto simp: on_db_def split: prod.splits)
    have "Create (jsonb_in E) (faults_at E (wCalls w)) e (wDB w) = (None, wDB v)"
      using x None unfolding repo_Create_def by (auto simp: on_db_def split: prod.splits)
    note n = Create_counted [OF _ this]
    have "pc' = CreatePublish e" "w' = v" using s CreateStore x None by simp_all
    then show ?thesis using fair_counted [OF a n out] CreateStore by (simp add: about_to_create_def)
  next
    case (Some err)
    with a s CreateStore x show ?thesis by (auto simp: about_to_create_def intro!: fair_ahead)
  qed
next
  case (CreatePublish e)
  obtain r v where x: "queue_Publish E e w = (r, v)" by fastforce
  with ahead_pair [OF ahead_queue(1) [OF c] x] s CreatePublish show ?thesis
    by (cases r) (auto simp: about_to_create_def intro!: fair_ahead)
next
  case (CreateCount e)
  then have "pc' = CreateDone (created_response e)" "w' = out_only (EventsReceived_Add (plat E) (eType e)) w" using s by simp_all
  then show ?thesis using CreateCount fair_adds [OF counting_adds(1) [OF c]] by (simp add: about_to_create_def)
qed (use s in \<open>auto simp: about_to_create_def ahead_repo intro!: fair_ahead ahead_platform(3) [OF c]\<close>)

lemma reads_ahead: "ahead tot w (snd (HandleGetEventByID E idStr w))" "ahead tot w (snd (HandleListEvents E qy w))"
proof -
  have g: "ahead tot w w'" if "repo_GetByID E i w = (r, w')" for i r w' using ahead_reads(1) [of tot w E i] that by simp
  have p: "ahead tot w w'" if "repo_List E l off w = (r, w')" for l off r w' using ahead_reads(2) [of tot w E l off] that by simp
  show "ahead tot w (snd (HandleGetEventByID E idStr w))"
    by (auto simp: HandleGetEventByID_def dest: g split: option.split prod.split sum.split)
  show "ahead tot w (snd (HandleListEvents E qy w))"
    by (auto simp: HandleListEvents_def dest: p split: option.split prod.split sum.split)
qed

section \<open>The system\<close>

definition owed :: "tally \<Rightarrow> 'r system \<Rightarrow> int" where
  "owed k S = int (length (filter (\<lambda>(p, s). about_to k (loop s)) (sysWorkers S))) +
     int (length (filter (about_to_create k) (sysCreates S)))"

definition tallied :: "('r \<Rightarrow> string \<Rightarrow> nat) \<Rightarrow> 'r system \<Rightarrow> bool" where
  "tallied tot S \<longleftrightarrow> wf_db (wDB (sysWorld S)) \<and> (\<forall>k. owed k S \<le> spare tot k (sysWorld S))"

lemma filter_update:
  "i < length xs \<Longrightarrow> int (length (filter P (xs[i := y]))) = int (length (filter P xs)) - one_if (P (xs ! i)) + one_if (P y)"
proof -
  assume i: "i < length xs"
  have "length (filter P xs) = length (filter P (take i xs @ xs ! i # drop (Suc i) xs))"
    using id_take_nth_drop [OF i] by simp
  with upd_conv_take_nth_drop [OF i, of y] show ?thesis by simp
qed

lemma tallied_ahead:
  assumes "tallied tot S" and "ahead tot (sysWorld S) w'" and "\<forall>k. owed k S' \<le> owed k S" and "sysWorld S' = w'"
  shows "tallied tot S'"
proof -
  have wf: "wf_db (wDB (sysWorld S))" using assms(1) by (simp add: tallied_def)
  have "owed k S' \<le> spare tot k w'" for k
    using assms(1,3) aheadD [OF assms(2) wf, of k] by (metis order_trans tallied_def)
  with aheadD [OF assms(2) wf] show ?thesis by (simp add: tallied_def assms(4))
qed

fun act_leaves :: "('r \<Rightarrow> string \<Rightarrow> nat) \<Rightarrow> 'r sys_act \<Rightarrow> bool" where
  "act_leaves tot (SysOutside f) \<longleftrightarrow> leaves tot f"
| "act_leaves tot _ \<longleftrightarrow> True"

lemma sys_step_tallied:
  assumes c: "counting E tot" and q: "quiet_proc tot proc" and t: "tallied tot S" and l: "act_leaves tot a"
  shows "tallied tot (sys_step E proc decode a S)"
proof (cases a)
  case (SysWorker i x)
  show ?thesis
  proof (cases "i < length (sysWorkers S)")
    case True
    obtain p s where ps: "sysWorkers S ! i = (p, s)" by fastforce
    obtain s' w' where st: "act_step (worker_main_deps E proc) p (map_act (\<lambda>_. sysWorld S) x) s (sysWorld S) = (s', w')"
      by fastforce
    have wf: "wf_db (wDB (sysWorld S))" using t by (simp add: tallied_def)
    have "owed k (sys_step E proc decode a S) \<le> spare tot k w'" for k
    proof -
      have "owed k (sys_step E proc decode a S) = owed k S - one_if (about_to k (loop s)) + one_if (about_to k (loop s'))"
        using True ps st SysWorker by (simp add: owed_def filter_update)
      moreover have "owed k S \<le> spare tot k (sysWorld S)" using t by (simp add: tallied_def)
      ultimately show ?thesis using fairD [OF act_step_fair [OF c q st] wf, of k] by linarith
    qed
    then show ?thesis using True ps st SysWorker fairD [OF act_step_fair [OF c q st] wf] by (simp add: tallied_def)
  qed (use SysWorker t in simp)
next
  case (SysSched tick fin)
  with t show ?thesis
    by (auto simp: owed_def split: option.split intro!: tallied_ahead [OF t sched_step_ahead [OF c]])
next
  case (SysRequest dr b)
  have "\<not> about_to_create k (create_begin decode dr b)" for k
    by (simp add: create_begin_def about_to_create_def split: sum.split)
  with SysRequest t show ?thesis by (simp add: tallied_def owed_def)
next
  case (SysCreate i)
  show ?thesis
  proof (cases "i < length (sysCreates S)")
    case True
    obtain pc w' where st: "create_step E (sysCreates S ! i) (sysWorld S) = (pc, w')" by fastforce
    have wf: "wf_db (wDB (sysWorld S))" using t by (simp add: tallied_def)
    have "owed k (sys_step E proc decode a S) \<le> spare tot k w'" for k
    proof -
      have "owed k (sys_step E proc decode a S) = owed k S - one_if (about_to_create k (sysCreates S ! i)) + one_if (about_to_create k pc)"
        using True st SysCreate by (simp add: owed_def filter_update)
      moreover have "owed k S \<le> spare tot k (sysWorld S)" using t by (simp add: tallied_def)
      ultimately show ?thesis using fairD [OF create_step_fair [OF c st] wf, of k] by linarith
    qed
    then show ?thesis using True st SysCreate fairD [OF create_step_fair [OF c st] wf] by (simp add: tallied_def)
  qed (use SysCreate t in simp)
next
  case (SysOutside f)
  with t l show ?thesis by (auto simp: owed_def intro!: tallied_ahead [OF t ahead_out_only])
next
  case (SysGet idStr)
  then show ?thesis by (auto simp: owed_def intro!: tallied_ahead [OF t reads_ahead(1)])
next
  case (SysList query)
  then show ?thesis by (auto simp: owed_def intro!: tallied_ahead [OF t reads_ahead(2)])
qed

lemma run_sys_tallied:
  assumes "counting E tot" and "quiet_proc tot proc"
  shows "tallied tot S \<Longrightarrow> list_all (act_leaves tot) as \<Longrightarrow> tallied tot (run_sys E proc decode as S)"
  using sys_step_tallied [OF assms] by (induction as arbitrary: S) auto


section \<open>The property\<close>

text \<open>
  C8 The dashboards never count too much. In every run of the whole system, with any number of workers, the
  scheduler and any requests interleaved call by call, with any faults of database and server and counters
  that may be reset at any moment, the counter of received events is at most the number of stored events,
  that of processed events at most the number of completed ones, and that of failed events at most the
  number of events that are \<open>FAILED\<close> for good: a failed attempt that is retried is not counted, although the
  comment on the collector speaks of attempts.
\<close>

theorem counters_never_overcount:
  assumes "counting E tot" and "quiet_proc tot proc" and "list_all (act_leaves tot) as"
    and "run_sys E proc decode as (start_system w ws) = S" and "list_all (\<lambda>(p, s). s = NewWorker \<and> w_maxAttempts p = m) ws"
    and "wf_db (wDB w)" and "finalized_ok (wDB w)" and "\<forall>n. tot (wOut w) n = 0"
  shows "tot (wOut (sysWorld S)) ''events_received_total'' \<le> card {i. event_row (wDB (sysWorld S)) i \<noteq> None} \<and>
    tot (wOut (sysWorld S)) ''events_processed_total'' \<le>
      card {i. map_option eStatus (event_row (wDB (sysWorld S)) i) = Some StatusCompleted} \<and>
    tot (wOut (sysWorld S)) ''events_failed_total'' \<le>
      card {i. map_option eStatus (event_row (wDB (sysWorld S)) i) = Some StatusFailed}"
proof -
  let ?d = "wDB (sysWorld S)"
  have "owed k (start_system w ws) = 0" for k
  proof -
    have "filter (\<lambda>(p, s). about_to k (loop s)) ws = []"
      using assms(5) by (auto simp: filter_empty_conv list_all_iff NewWorker_def)
    then show ?thesis by (simp add: owed_def start_system_def)
  qed
  then have "tallied tot (start_system w ws)"
    using assms(6,8) by (simp add: tallied_def spare_def start_system_def)
  from run_sys_tallied [OF assms(1,2) this assms(3), of decode] assms(4)
  have "owed k S \<le> spare tot k (sysWorld S)" for k by (simp add: tallied_def)
  moreover have "0 \<le> owed k S" for k by (simp add: owed_def)
  ultimately have n: "tot (wOut (sysWorld S)) (cName (collector_of k)) \<le> card (counted_rows k ?d)" for k
    using order_trans by (fastforce simp: spare_def)
  have ws: "list_all (\<lambda>(p, s). w_maxAttempts p = m) ws" using assms(5) by (auto simp: list_all_iff)
  have proc: "\<forall>e v. wDB (snd (proc e v)) = wDB v" using assms(2) by (simp add: quiet_proc_def)
  obtain xs where "?d = exec_ops (jsonb_in E) (uuid_Parse E) xs (wDB w)"
    using system_run_reached [OF proc ws assms(4)] by (auto simp: reached_def)
  then have "finalized_ok ?d" using exec_ops_finalized_ok [OF assms(6,7)] by simp
  then have sub: "dom (idem_row ?d) \<subseteq> {i. map_option eStatus (event_row ?d i) = Some StatusCompleted}"
    by (auto simp: finalized_ok_def)
  have "finite {i. map_option eStatus (event_row ?d i) = Some StatusCompleted}"
    using finite_counted [of Received ?d] by (rule rev_finite_subset) auto
  from card_mono [OF this sub] n [of Received] n [of Processed] n [of Failed] show ?thesis
    by (simp add: collector_defs dom_def)
qed

text \<open>A server and three counters beside it.\<close>

record counted_redis =
  crRedis :: "event mem_redis"
  crCounts :: "string \<Rightarrow> nat"

definition on_redis :: "(event mem_redis \<Rightarrow> 'a \<times> event mem_redis) \<Rightarrow> counted_redis \<Rightarrow> 'a \<times> counted_redis" where
  "on_redis f s = (case f (crRedis s) of (x, r) \<Rightarrow> (x, s\<lparr>crRedis := r\<rparr>))"

definition add_one :: "collector \<Rightarrow> counted_redis \<Rightarrow> counted_redis" where
  "add_one c s = s\<lparr>crCounts := (crCounts s)(cName c := Suc (crCounts s (cName c)))\<rparr>"

definition counted_env :: "(event, counted_redis) env" where
  "counted_env =
     \<lparr> client =
         \<lparr> XGroupCreateMkStream = (\<lambda>st g. on_redis (mem_xgroup st g)), XAdd = (\<lambda>st m. on_redis (mem_xadd st m)),
           XReadGroup = (\<lambda>g c st. on_redis (mem_xreadgroup g c st)), XAck = (\<lambda>st g i. on_redis (mem_xack st g i)) \<rparr>,
       plat =
         \<lparr> Redis_Set = (\<lambda>k v ttl. on_redis (Redis_Set mem_platform k v ttl)), Redis_Exists = (\<lambda>k. on_redis (Redis_Exists mem_platform k)),
           Redis_Keys = (\<lambda>k. on_redis (Redis_Keys mem_platform k)), Redis_XLen = (\<lambda>k. on_redis (Redis_XLen mem_platform k)),
           Redis_Publish = (\<lambda>ch m. on_redis (Redis_Publish mem_platform ch m)), EventsReceived_Add = (\<lambda>t. add_one EventsReceived),
           EventsProcessed_Add = (\<lambda>t. add_one EventsProcessed), EventsFailed_Add = (\<lambda>t. add_one EventsFailed),
           Duration_Observe = (\<lambda>t dur s. s), QueueDepth_Set = (\<lambda>k n s. s), ActiveWorkers_Set = (\<lambda>n s. s) \<rparr>,
       json_Marshal = Some, json_Unmarshal = Some, faults_at = (\<lambda>_. no_faults), now_at = (\<lambda>n. 1000000 + 1000 * int n), rand_at = (\<lambda>_. 1 / 2),
       scan_order = (\<lambda>_ r. r), jsonb_in = Some, uuid_Parse = (\<lambda>_. None), uuid_Text = (\<lambda>_. ''id''), float_oor = (\<lambda>_. 0) \<rparr>"

lemma on_redis_counts: "crCounts (snd (on_redis f s)) = crCounts s"
  by (simp add: on_redis_def split: prod.split)

lemma counted_env_counting: "counting counted_env crCounts"
  by (simp add: counting_def counted_env_def leaves_def adds_one_def add_one_def on_redis_counts)

lemma main_processor_quiet: "quiet_proc tot main_processor"
proof -
  obtain r where r: "main_registry (\<lambda>_ _ w. w) = Some (r :: 'a world registry)"
      "\<And>t. r t = map_option (DummyProcessor_Process (\<lambda>_ _ w. w)) (map_of main_registrations t)"
    using main_registry_lookup [where slog_Info = "\<lambda>_ _ (w :: 'a world). w"] by blast
  show ?thesis
    by (simp add: quiet_proc_def main_processor_def r Registry_Process_def DummyProcessor_Process_def split: option.split)
qed

definition counted_world :: "counted_redis world" where
  "counted_world = \<lparr>wDB = empty_db, wOut = \<lparr>crRedis = mem_groups, crCounts = (\<lambda>_. 0)\<rparr>, wCalls = 0\<rparr>"

text \<open>One request, stored and counted.\<close>

definition counted_run :: "counted_redis sys_act list" where
  "counted_run = SysRequest sample_draw sample_body # replicate 5 (SysCreate 0)"

lemma counted_create:
  "event_row (wDB w) (eID e) = None \<Longrightarrow> event_columns Some e = Some e' \<Longrightarrow>
     \<exists>w'. create_step counted_env (CreateStore e) w = (CreatePublish e, w') \<and> crCounts (wOut w') = crCounts (wOut w)"
  "\<exists>w'. create_step counted_env (CreatePublish e) w = (CreateQueue e, w') \<and> crCounts (wOut w') = crCounts (wOut w)"
  "\<exists>w'. create_step counted_env (CreateQueue e) w = (CreateAnnounce e, w') \<and> crCounts (wOut w') = crCounts (wOut w)"
  "\<exists>w'. create_step counted_env (CreateAnnounce e) w = (CreateCount e, w') \<and> crCounts (wOut w') = crCounts (wOut w)"
  "create_step counted_env (CreateCount e) w = (CreateDone (created_response e), out_only (add_one EventsReceived) w)"
proof -
  show "\<exists>w'. create_step counted_env (CreateStore e) w = (CreatePublish e, w') \<and> crCounts (wOut w') = crCounts (wOut w)"
    if "event_row (wDB w) (eID e) = None" "event_columns Some e = Some e'"
    using that event_columns_cases [OF that(2), of "eID e' = eID e"] by (simp add: repo_Create_def on_db_def Create_def counted_env_def row_insert_def event_row_def no_faults_def apply_outcome_def)
  show "\<exists>w'. create_step counted_env (CreatePublish e) w = (CreateQueue e, w') \<and> crCounts (wOut w') = crCounts (wOut w)"
    by (simp add: queue_Publish_def on_out_def Publish_def counted_env_def on_redis_def mem_xadd_def)
  show "\<exists>w'. create_step counted_env (CreateQueue e) w = (CreateAnnounce e, w') \<and> crCounts (wOut w') = crCounts (wOut w)"
    by (simp add: repo_UpdateStatus_def on_db_def split: prod.split)
  show "\<exists>w'. create_step counted_env (CreateAnnounce e) w = (CreateCount e, w') \<and> crCounts (wOut w') = crCounts (wOut w)"
    by (simp add: announce_received_def RedisBroadcast_def on_out_def counted_env_def on_redis_def mem_platform_def)
  show "create_step counted_env (CreateCount e) w = (CreateDone (created_response e), out_only (add_one EventsReceived) w)"
    by (simp add: counted_env_def)
qed

lemma counted_run_counts:
  "crCounts (wOut (sysWorld (run_sys counted_env main_processor decode_request counted_run
     (start_system counted_world [(quiet_worker, NewWorker)])))) ''events_received_total'' = 1"
proof -
  let ?e = "new_event sample_draw sample_request" and ?w = counted_world
  have "event_row (wDB ?w) (eID ?e) = None" by (simp add: counted_world_def event_row_def row_select_def empty_db_def)
  moreover have "event_columns Some ?e = Some (stored_event ''{}'' ?e)"
    by (simp add: accepted_columns [OF sample_accepted], simp add: new_event_def sample_request_def)
  ultimately obtain w1 where 1: "create_step counted_env (CreateStore ?e) ?w = (CreatePublish ?e, w1)" "crCounts (wOut w1) = crCounts (wOut ?w)"
    using counted_create(1) by blast
  obtain w2 where 2: "create_step counted_env (CreatePublish ?e) w1 = (CreateQueue ?e, w2)" "crCounts (wOut w2) = crCounts (wOut w1)"
    using counted_create(2) by blast
  obtain w3 where 3: "create_step counted_env (CreateQueue ?e) w2 = (CreateAnnounce ?e, w3)" "crCounts (wOut w3) = crCounts (wOut w2)"
    using counted_create(3) by blast
  obtain w4 where 4: "create_step counted_env (CreateAnnounce ?e) w3 = (CreateCount ?e, w4)" "crCounts (wOut w4) = crCounts (wOut w3)"
    using counted_create(4) by blast
  have five: "replicate 5 (SysCreate 0) = [SysCreate 0, SysCreate 0, SysCreate 0, SysCreate 0, SysCreate 0 :: counted_redis sys_act]"
    by (simp add: eval_nat_numeral)
  have "crCounts (wOut ?w) n = 0" for n by (simp add: counted_world_def)
  with 1 2 3 4 show ?thesis
    by (simp add: counted_run_def five start_system_def create_begin_def sample_accepted counted_create(5) out_only_def add_one_def
        EventsReceived_def del: create_step.simps)
qed

theorem counters_never_overcount_witness:
  "1 \<le> card {i. event_row (wDB (sysWorld (run_sys counted_env main_processor decode_request counted_run
      (start_system counted_world [(quiet_worker, NewWorker)])))) i \<noteq> None}"
proof -
  let ?S = "run_sys counted_env main_processor decode_request counted_run (start_system counted_world [(quiet_worker, NewWorker)])"
  have l: "list_all (act_leaves crCounts) counted_run" by (simp add: counted_run_def eval_nat_numeral)
  have ws: "list_all (\<lambda>(p, s). s = NewWorker \<and> w_maxAttempts p = 3) [(quiet_worker, NewWorker)]" by (simp add: quiet_worker_def)
  have w: "wf_db (wDB counted_world)" "finalized_ok (wDB counted_world)" "\<forall>n. crCounts (wOut counted_world) n = 0"
    by (simp_all add: counted_world_def empty_db_def wf_db_def finalized_ok_def idem_row_def row_select_def unique_key_def)
  from counters_never_overcount [OF counted_env_counting main_processor_quiet l refl ws w, of decode_request, THEN conjunct1]
  show ?thesis unfolding counted_run_counts .
qed

end
