(* ===== verification/Workload.thy ===== *)
theory Workload
  imports MetricsProps
begin

text \<open>
  How much work there is. Every message a group has not been given yet and every attempt an event has left
  stand for at most eight steps of a worker with a job in hand, whoever takes them and whatever fails. The
  steps are paid for from this budget, so workers never run in circles on the jobs of each other.
\<close>

section \<open>The budget\<close>

definition backlog :: "'m view \<Rightarrow> string \<Rightarrow> nat" where
  "backlog v grp = (\<Sum>st\<leftarrow>AllStreams. length (undelivered (v st grp)))"

definition attempts_left :: "int \<Rightarrow> db \<Rightarrow> nat" where
  "attempts_left m d = (\<Sum>i\<in>dom (event_row d). nat (m - eAttempt (the (event_row d i))))"

definition budget :: "('r \<Rightarrow> 'm view) \<Rightarrow> string \<Rightarrow> int \<Rightarrow> 'r world \<Rightarrow> nat" where
  "budget view grp m w = 8 * (backlog (view (wOut w)) grp + attempts_left m (wDB w))"

text \<open>What the jobs in hand may still take.\<close>

fun loop_weight :: "loop_pc \<Rightarrow> nat" where
  "loop_weight (AtBusy j) = 8"
| "loop_weight (AtAssign j) = 7"
| "loop_weight (AtAnnounce j) = 6"
| "loop_weight (AtProcess j t) = 5"
| "loop_weight (AtRecordFailure j) = 4"
| "loop_weight (AtFinalize j t) = 3"
| "loop_weight (AtFailedMetric j) = 3"
| "loop_weight (AtAckDone j t) = 2"
| "loop_weight (AtAckFailed j) = 2"
| "loop_weight (AtReportDone j t) = 1"
| "loop_weight (AtReportFailed j) = 1"
| "loop_weight (AtAckStale j) = 1"
| "loop_weight (AtAckDuplicate j) = 1"
| "loop_weight (AtSchedule j) = 11"
| "loop_weight _ = 0"

fun retry_weight :: "retry_pc \<Rightarrow> nat" where
  "retry_weight (RetryWait j delay) = 10"
| "retry_weight (RetryRequeue j) = 10"
| "retry_weight (RetryUpdate j) = 1"

definition worker_weight :: "worker_state \<Rightarrow> nat" where
  "worker_weight s = loop_weight (loop s) + sum_list (map retry_weight (retries s))"

fun create_weight :: "int \<Rightarrow> create_pc \<Rightarrow> nat" where
  "create_weight m (CreateStore e) = 8 * (1 + nat (m - eAttempt e))"
| "create_weight m (CreatePublish e) = 8"
| "create_weight m _ = 0"

section \<open>The database\<close>

lemma finite_rows [simp]: "finite (dom (event_row d))"
  using finite_counted [of Received d] by simp

lemma attempts_moved:
  assumes "row_moved i row row' d d'"
  shows "attempts_left m d' + nat (m - eAttempt row) = attempts_left m d + nat (m - eAttempt row')"
proof -
  let ?n = "\<lambda>d i. nat (m - eAttempt (the (event_row d i)))"
  have r: "event_row d i = Some row" "event_row d' = (event_row d)(i \<mapsto> row')" using assms by (simp_all add: row_moved_def)
  then have i: "i \<in> dom (event_row d)" and dm: "dom (event_row d') = dom (event_row d)" by auto
  have "attempts_left m d = nat (m - eAttempt row) + (\<Sum>k\<in>dom (event_row d) - {i}. ?n d k)"
    using sum.remove [OF finite_rows i, of "?n d"] r(1) by (simp add: attempts_left_def)
  moreover have "attempts_left m d' = nat (m - eAttempt row') + (\<Sum>k\<in>dom (event_row d) - {i}. ?n d' k)"
    using sum.remove [OF finite_rows i, of "?n d'"] unfolding attempts_left_def dm by (simp add: r(2))
  moreover have "(\<Sum>k\<in>dom (event_row d) - {i}. ?n d' k) = (\<Sum>k\<in>dom (event_row d) - {i}. ?n d k)"
    by (rule sum.cong) (simp_all add: r(2))
  ultimately show ?thesis by simp
qed

lemma exec_op_attempts_left:
  assumes "wf_db d" and "\<And>flt e. x \<noteq> OpCreate flt e"
  shows "attempts_left m (exec_op jsonb parse x d) \<le> attempts_left m d"
proof (cases x)
  case (OpCreate flt e)
  with assms(2) show ?thesis by blast
next
  case (OpUpdateStatus flt now i old new)
  obtain r d' where c: "UpdateStatus flt now i old new d = (r, d')" by fastforce
  from assms(1) c show ?thesis
  proof (cases rule: UpdateStatus_cases)
    case (moved row)
    with attempts_moved [OF moved(1), of m] c OpUpdateStatus show ?thesis by (simp add: updated_row_def)
  qed (simp add: OpUpdateStatus c)
next
  case (OpAssignEvent flt now i wk old new)
  obtain r d' where c: "AssignEvent parse flt now i wk old new d = (r, d')" by fastforce
  from assms(1) c show ?thesis
  proof (cases rule: AssignEvent_cases)
    case (moved row)
    with attempts_moved [OF moved(1), of m] c OpAssignEvent show ?thesis by (simp add: assigned_row_def)
  qed (simp add: OpAssignEvent c)
next
  case (OpFinalizeEvent flt now i h)
  obtain r d' where c: "FinalizeEvent flt now i h d = (r, d')" by fastforce
  from assms(1) c show ?thesis
  proof (cases rule: FinalizeEvent_cases)
    case (moved row)
    with attempts_moved [OF moved(1), of m] c OpFinalizeEvent show ?thesis by (simp add: updated_row_def)
  qed (simp add: OpFinalizeEvent c)
next
  case (OpRecordFailure flt now i n)
  obtain s r d' where c: "RecordFailure flt now i n d = ((s, r), d')" by (metis surj_pair)
  from assms(1) c show ?thesis
  proof (cases rule: RecordFailure_cases)
    case (moved row)
    have "eAttempt row \<le> eAttempt (failed_row now n row)" by (simp add: failed_row_def)
    with attempts_moved [OF moved(1), of m] c OpRecordFailure show ?thesis by simp
  qed (simp add: OpRecordFailure c)
qed

text \<open>An attempt that is to be retried was one of those left.\<close>

lemma RecordFailure_spends:
  assumes "wf_db d" and "RecordFailure flt now i m d = ((s, None), d')" and "s \<noteq> StatusFailed"
  shows "Suc (attempts_left m d') \<le> attempts_left m d"
  using assms(1,2)
proof (cases rule: RecordFailure_cases)
  case (moved row)
  have "eAttempt row + 1 < m" "eAttempt (failed_row now m row) = eAttempt row + 1"
    using moved(3) assms(3) by (auto simp: failed_row_def split: if_splits)
  then have "nat (m - eAttempt row) = Suc (nat (m - eAttempt (failed_row now m row)))" by simp
  with attempts_moved [OF moved(1), of m] show ?thesis by simp
qed simp

lemma Create_attempts:
  assumes "wf_db d" and "Create jsonb flt e d = (r, d')"
  shows "attempts_left m d' \<le> attempts_left m d + nat (m - eAttempt e)"
  using assms
proof (cases rule: Create_cases)
  case (added p)
  have i: "eID e \<notin> dom (event_row d)" using added(2) by blast
  have "attempts_left m d' = (\<Sum>k\<in>insert (eID e) (dom (event_row d)). nat (m - eAttempt (the (event_row d' k))))"
    by (simp add: attempts_left_def added(3))
  also have "\<dots> = nat (m - eAttempt e) + (\<Sum>k\<in>dom (event_row d). nat (m - eAttempt (the (event_row d' k))))"
    using i by (simp add: added(3))
  also have "(\<Sum>k\<in>dom (event_row d). nat (m - eAttempt (the (event_row d' k)))) = attempts_left m d"
    unfolding attempts_left_def by (rule sum.cong) (use i in \<open>auto simp: added(3)\<close>)
  finally show ?thesis by simp
qed simp

section \<open>The streams\<close>

lemma backlog_add: "backlog (view_add st ident x v) grp \<le> Suc (backlog v grp)"
  by (simp add: backlog_def AllStreams_def view_add_def)

lemma backlog_ack [simp]: "backlog (view_ack st g ident v) grp = backlog v grp"
  by (simp add: backlog_def)

lemma backlog_take: "backlog (view_take st g v) grp \<le> backlog v grp"
  by (auto simp: backlog_def AllStreams_def view_take_def intro!: add_mono)

lemma backlog_take_one:
  assumes "st \<in> set AllStreams" and "undelivered (v st grp) \<noteq> []"
  shows "Suc (backlog (view_take st grp v) grp) = backlog v grp"
proof -
  obtain x xs where "undelivered (v st grp) = x # xs" using assms(2) by (cases "undelivered (v st grp)") auto
  with assms(1) show ?thesis by (auto simp: backlog_def AllStreams_def view_take_def)
qed

section \<open>Calls\<close>

text \<open>A call that keeps the world sane and of whose price \<open>n\<close> at most \<open>k\<close> is not paid from the budget.\<close>

definition pays ::
  "('r \<Rightarrow> 'm view) \<Rightarrow> ('r \<Rightarrow> bool) \<Rightarrow> string \<Rightarrow> int \<Rightarrow> nat \<Rightarrow> nat \<Rightarrow> 'r world \<Rightarrow> 'r world \<Rightarrow> bool" where
  "pays view ok grp m n k w w' \<longleftrightarrow>
     (world_sane ok w \<longrightarrow> world_sane ok w' \<and> budget view grp m w' + n \<le> budget view grp m w + k)"

lemma paysD:
  "pays view ok grp m n k w w' \<Longrightarrow> world_sane ok w \<Longrightarrow>
   world_sane ok w' \<and> budget view grp m w' + n \<le> budget view grp m w + k"
  by (simp add: pays_def)

lemma pays_more: "pays view ok grp m n k w w' \<Longrightarrow> n' + k \<le> k' + n \<Longrightarrow> pays view ok grp m n' k' w w'"
  by (auto simp: pays_def)

lemma pays_refl: "pays view ok grp m 0 0 w w"
  by (simp add: pays_def)

lemma pays_trans: "pays view ok grp m 0 0 w w1 \<Longrightarrow> pays view ok grp m n k w1 w2 \<Longrightarrow> pays view ok grp m n k w w2"
  by (auto simp: pays_def)

lemma pays_db:
  assumes "snd (f (faults_at E (wCalls w)) (now_at E (wCalls w)) (wDB w)) = exec_op jsonb parse x (wDB w)"
    and "world_sane ok w \<Longrightarrow> attempts_left m (exec_op jsonb parse x (wDB w)) + n \<le> attempts_left m (wDB w) + k"
  shows "pays view ok grp m (8 * n) (8 * k) w (snd (on_db E f w))"
  unfolding pays_def
proof
  assume s: "world_sane ok w"
  note c = db_call_calm [where f = f and E = E, OF s assms(1)]
  have "wDB (snd (on_db E f w)) = exec_op jsonb parse x (wDB w)" by (simp add: on_db_db assms(1))
  with c assms(2) [OF s] show "world_sane ok (snd (on_db E f w)) \<and>
      budget view grp m (snd (on_db E f w)) + 8 * n \<le> budget view grp m w + 8 * k"
    by (simp add: budget_def)
qed

lemma pays_keeping:
  assumes "snd (f (faults_at E (wCalls w)) (now_at E (wCalls w)) (wDB w)) = exec_op jsonb parse x (wDB w)"
    and "\<And>flt e. x \<noteq> OpCreate flt e"
  shows "pays view ok grp m 0 0 w (snd (on_db E f w))"
  using pays_db [where f = f and E = E and n = 0 and k = 0, OF assms(1)] exec_op_attempts_left [OF _ assms(2)]
  by (simp add: world_sane_def)

lemma pays_repo:
  "pays view ok grp m 0 0 w (snd (repo_AssignEvent E i name old new w))"
  "pays view ok grp m 0 0 w (snd (repo_FinalizeEvent E i h w))"
  "pays view ok grp m 0 0 w (snd (repo_UpdateStatus E i old new w))"
  "pays view ok grp m 0 0 w (snd (repo_RecordFailure E i n w))"
  unfolding repo_AssignEvent_def repo_FinalizeEvent_def repo_UpdateStatus_def repo_RecordFailure_def
  by (rule pays_keeping [where jsonb = "jsonb_in E" and parse = "uuid_Parse E"], rule exec_op.simps(3) [symmetric], simp,
      rule pays_keeping [where jsonb = "jsonb_in E" and parse = "uuid_Parse E"], rule exec_op.simps(4) [symmetric], simp,
      rule pays_keeping [where jsonb = "jsonb_in E" and parse = "uuid_Parse E"], rule exec_op.simps(2) [symmetric], simp,
      rule pays_keeping [where jsonb = "jsonb_in E" and parse = "uuid_Parse E"], rule exec_op.simps(5) [symmetric], simp)

lemma pays_failure:
  assumes "repo_RecordFailure E i m w = ((s, None), w')" and "s \<noteq> StatusFailed"
  shows "pays view ok grp m 8 0 w w'"
proof -
  let ?f = "\<lambda>flt now. RecordFailure flt now i m" and ?x = "OpRecordFailure (faults_at E (wCalls w)) (now_at E (wCalls w)) i m"
  have w': "w' = snd (on_db E ?f w)" using assms(1) by (simp add: repo_RecordFailure_def)
  have "RecordFailure (faults_at E (wCalls w)) (now_at E (wCalls w)) i m (wDB w) = ((s, None), wDB w')"
    using assms(1) unfolding repo_RecordFailure_def by (auto simp: on_db_def split: prod.splits)
  note left = RecordFailure_spends [OF _ this assms(2)]
  have "pays view ok grp m (8 * 1) (8 * 0) w (snd (on_db E ?f w))"
    by (rule pays_db [where x = ?x and jsonb = "jsonb_in E" and parse = "uuid_Parse E"])
      (use left in \<open>simp_all add: world_sane_def w' on_db_db\<close>)
  then show ?thesis by (simp add: w')
qed

lemma pays_create: "pays view ok grp m 0 (8 * nat (m - eAttempt e)) w (snd (repo_Create E e w))"
proof -
  let ?f = "\<lambda>flt now. Create (jsonb_in E) flt e" and ?x = "OpCreate (faults_at E (wCalls w)) e"
  obtain r d where c: "Create (jsonb_in E) (faults_at E (wCalls w)) e (wDB w) = (r, d)" by fastforce
  have "pays view ok grp m (8 * 0) (8 * nat (m - eAttempt e)) w (snd (on_db E ?f w))"
    by (rule pays_db [where x = ?x and jsonb = "jsonb_in E" and parse = "uuid_Parse E"])
      (use c Create_attempts [OF _ c] in \<open>simp_all add: world_sane_def\<close>)
  then show ?thesis by (simp add: repo_Create_def)
qed

lemma pays_read:
  assumes "\<And>flt now x. snd (f flt now x) = x"
  shows "pays view ok grp m 0 0 w (snd (on_db E f w))"
  by (simp add: pays_def budget_def world_sane_def on_db_def case_prod_beta assms)

lemma pays_neutral: "neutral ok view (\<lambda>s. snd (f s)) \<Longrightarrow> pays view ok grp m 0 0 w (snd (on_out f w))"
  using on_out_neutral [of ok view f w] by (simp add: pays_def budget_def)

lemma pays_out_only: "neutral ok view f \<Longrightarrow> pays view ok grp m 0 0 w (out_only f w)"
  using out_only_neutral [of ok view f w] by (simp add: pays_def budget_def)

lemma pays_calls: "pays view ok grp m 0 0 w (w\<lparr>wCalls := n\<rparr>)"
  by (simp add: pays_def budget_def world_sane_def)

lemma pays_streams:
  assumes "ok (wOut w) \<Longrightarrow>
    ok (snd (f (wOut w))) \<and> backlog (view (snd (f (wOut w)))) grp + n \<le> backlog (view (wOut w)) grp + k"
  shows "pays view ok grp m (8 * n) (8 * k) w (snd (on_out f w))"
  using assms by (auto simp: pays_def budget_def world_sane_def on_out_def case_prod_beta)

context pipeline
begin

lemma pays_publish: "pays view ok grp m 0 8 w (snd (queue_Publish E e w))"
proof -
  obtain r s where p: "Publish (client E) (json_Marshal E) e (wOut w) = (r, s)" by fastforce
  have "ok s \<and> backlog (view s) grp \<le> Suc (backlog (view (wOut w)) grp)" if "ok (wOut w)"
    by (rule redis_streams.Publish_cases [OF streams that p]) (simp_all add: backlog_add)
  with p have "pays view ok grp m (8 * 0) (8 * 1) w (snd (on_out (Publish (client E) (json_Marshal E) e) w))"
    by (intro pays_streams) simp
  then show ?thesis by (simp add: queue_Publish_def)
qed

lemma pays_retry: "pays view ok grp m 0 8 w (snd (queue_Retry E j w))"
proof -
  obtain r s where p: "Retry (client E) (json_Marshal E) j (wOut w) = (r, s)" by fastforce
  have "ok s \<and> backlog (view s) grp \<le> Suc (backlog (view (wOut w)) grp)" if "ok (wOut w)"
    by (rule redis_streams.Retry_cases [OF streams that p]) (simp_all add: backlog_add)
  with p have "pays view ok grp m (8 * 0) (8 * 1) w (snd (on_out (Retry (client E) (json_Marshal E) j) w))"
    by (intro pays_streams) simp
  then show ?thesis by (simp add: queue_Retry_def)
qed

lemma pays_ack: "pays view ok grp m 0 0 w (snd (queue_Ack E j w))"
proof -
  obtain r s where p: "Ack (client E) j (wOut w) = (r, s)" by fastforce
  have "ok s \<and> backlog (view s) grp \<le> backlog (view (wOut w)) grp" if "ok (wOut w)"
    using redis_streams.Ack_effect [OF streams that p] by auto
  with p have "pays view ok grp m (8 * 0) (8 * 0) w (snd (on_out (Ack (client E) j) w))"
    by (intro pays_streams) simp
  then show ?thesis by (simp add: queue_Ack_def)
qed

lemma poll_backlog:
  assumes "ok s" and "set sts \<subseteq> set AllStreams" and "poll_streams (client E) unmarshal (\<lambda>_ t. t) grp name sts s = (r, s')"
  shows "ok s' \<and> backlog (view s') grp + (case r of Some (Inr j) \<Rightarrow> 1 | _ \<Rightarrow> 0) \<le> backlog (view s) grp"
  using assms
proof (induction sts arbitrary: s)
  case (Cons st sts)
  obtain reply t where x: "XReadGroup (client E) grp name st s = (reply, t)" by fastforce
  show ?case
  proof (rule redis_streams.read_cases [OF streams Cons.prems(1) x], goal_cases)
    case 1
    with Cons.IH [of t] Cons.prems(2,3) x show ?case by auto
  next
    case (2 ident msg rest)
    have "Suc (backlog (view t) grp) = backlog (view s) grp"
      unfolding 2(4) by (rule backlog_take_one) (use 2(1) Cons.prems(2) in auto)
    with 2 Cons.prems(3) x show ?case by (auto split: option.splits)
  next
    case (3 err)
    then have "backlog (view t) grp \<le> backlog (view s) grp" using backlog_take by auto
    with 3 Cons.prems(3) x show ?case by auto
  qed
qed simp

lemma pays_consume:
  assumes "queue_Consume E fin grp name w = (r, w')"
  shows "pays view ok grp m (case r of Some (Inr j) \<Rightarrow> 8 | _ \<Rightarrow> 0) 0 w w'"
proof -
  let ?f = "consume_round (client E) (json_Unmarshal E) fin grp name" and ?n = "case r of Some (Inr j) \<Rightarrow> 1 | _ \<Rightarrow> 0"
  obtain s where p: "?f (wOut w) = (r, s)"
    using assms by (auto simp: queue_Consume_def on_out_def split: prod.splits)
  have "ok s \<and> backlog (view s) grp + ?n \<le> backlog (view (wOut w)) grp" if "ok (wOut w)"
    using p poll_backlog [OF that subset_refl] that by (auto simp: consume_round_def split: if_splits)
  then have "pays view ok grp m (8 * ?n) (8 * 0) w (snd (on_out ?f w))" by (intro pays_streams) (simp add: p)
  with assms show ?thesis by (cases r) (auto simp: queue_Consume_def split: sum.splits)
qed

lemma pays_process: "pays view ok grp m 0 0 w (snd (proc e w))"
  using processing by (simp add: pays_def budget_def neutral_processor_def world_sane_def)

lemma pays_platform:
  "pays view ok grp m 0 0 w (RedisBroadcast E msg w)" "pays view ok grp m 0 0 w (announce_received E ev w)"
  "pays view ok grp m 0 0 w (snd (Ping E wid ttl w))" "pays view ok grp m 0 0 w (out_only (EventsProcessed_Add (plat E) t) w)"
  "pays view ok grp m 0 0 w (out_only (EventsFailed_Add (plat E) t) w)" "pays view ok grp m 0 0 w (out_only (EventsReceived_Add (plat E) t) w)"
  "pays view ok grp m 0 0 w (out_only (Duration_Observe (plat E) t dur) w)"
proof -
  note n = platform [unfolded neutral_platform_def]
  have o: "pays view ok grp m 0 0 w (snd (on_out (Redis_Publish (plat E) ch msg) w))"
    "pays view ok grp m 0 0 w (snd (on_out (Redis_Set (plat E) k v ttl) w))" for ch msg k v ttl
    using n by (simp_all add: pays_neutral)
  show "pays view ok grp m 0 0 w (RedisBroadcast E msg w)" "pays view ok grp m 0 0 w (announce_received E ev w)"
    by (simp_all add: RedisBroadcast_def announce_received_def o)
  obtain x v where x: "on_out (Redis_Set (plat E) (heartbeat_key wid) ''alive'' ttl) w = (x, v)" by fastforce
  with o(2) [of "heartbeat_key wid" "''alive''" ttl] show "pays view ok grp m 0 0 w (snd (Ping E wid ttl w))"
    by (cases x) (simp_all add: Ping_def)
  show "pays view ok grp m 0 0 w (out_only (EventsProcessed_Add (plat E) t) w)"
    "pays view ok grp m 0 0 w (out_only (EventsFailed_Add (plat E) t) w)" "pays view ok grp m 0 0 w (out_only (EventsReceived_Add (plat E) t) w)"
    "pays view ok grp m 0 0 w (out_only (Duration_Observe (plat E) t dur) w)"
    using n by (simp_all add: pays_out_only)
qed

end

section \<open>Steps\<close>

abbreviation in_hand :: "loop_pc \<Rightarrow> nat" where
  "in_hand pc \<equiv> (if job_at pc = None then 0 else 1)"

fun requeues :: "retry_pc \<Rightarrow> bool" where
  "requeues (RetryWait j delay) = False"
| "requeues _ = True"

context pipeline
begin

lemma pays_pair: "pays view ok grp m n k w (snd x) \<Longrightarrow> x = (r, v) \<Longrightarrow> pays view ok grp m n k w v"
  by simp

lemma pays_send: "pays view ok grp m 0 0 w (Broadcast (worker_main_deps E proc) msg w)"
  using pays_platform(1) by (simp add: Broadcast_def worker_main_deps_def)

lemma pays_report_done: "pays view ok grp m 0 0 w (report_done (worker_main_deps E proc) j t w)"
  unfolding report_done_def Let_def worker_deps_simps
  by (rule pays_trans [OF pays_trans [OF pays_platform(4) pays_platform(7)] pays_platform(1)])

lemma pays_report_failed: "pays view ok grp m 0 0 w (report_failed (worker_main_deps E proc) j w)"
  unfolding report_failed_def by (rule pays_send)

lemma loop_step_pays:
  assumes g: "w_group p = grp" "w_maxAttempts p = m"
    and l: "loop_step (worker_main_deps E proc) p timer s w = Some (s', w')"
  shows "pays view ok grp m (worker_weight s' + in_hand (loop s)) (worker_weight s) w w'"
proof (cases "loop s")
  case AtConsume
  obtain r v where x: "queue_Consume E (ctx_done s) (w_group p) (w_id p) w = (r, v)" by fastforce
  note a = pays_consume [OF x [unfolded g(1)], of m]
  from a l AtConsume x show ?thesis
    by (cases r) (auto simp: loop_step_def goto_def worker_weight_def split: sum.splits if_splits elim!: pays_more)
next
  case (AtAssign j)
  obtain r v where x: "repo_AssignEvent E (eID (jEvent j)) (w_id p) StatusQueued StatusProcessing w = (r, v)" by fastforce
  note a = pays_pair [OF pays_repo(1) x, of grp m]
  from a l AtAssign x show ?thesis
    by (cases r) (auto simp: loop_step_def goto_def worker_weight_def split: if_splits elim!: pays_more)
next
  case (AtAnnounce j)
  with l show ?thesis by (auto simp: loop_step_def goto_def worker_weight_def intro: pays_more [OF pays_platform(1)])
next
  case (AtProcess j t)
  obtain r v where x: "proc (jEvent j) w = (r, v)" by fastforce
  note a = pays_pair [OF pays_process x, of grp m]
  from a l AtProcess x show ?thesis
    by (cases r) (auto simp: loop_step_def goto_def worker_weight_def elim!: pays_more)
next
  case (AtFinalize j t)
  obtain r v where x: "repo_FinalizeEvent E (eID (jEvent j)) resultHash w = (r, v)" by fastforce
  note a = pays_pair [OF pays_repo(2) x, of grp m]
  from a l AtFinalize x show ?thesis
    by (cases r) (auto simp: loop_step_def goto_def worker_weight_def split: if_splits elim!: pays_more)
next
  case (AtRecordFailure j)
  obtain st r v where x: "repo_RecordFailure E (eID (jEvent j)) m w = ((st, r), v)" by (metis surj_pair)
  note a = pays_pair [OF pays_repo(4) x, of grp m]
  show ?thesis
  proof (cases "r = None \<and> st \<noteq> StatusFailed")
    case True
    with pays_failure [of E "eID (jEvent j)" m w st v] x have b: "pays view ok grp m 8 0 w v" by simp
    from b l AtRecordFailure x True g(2) show ?thesis
      by (auto simp: loop_step_def goto_def worker_weight_def elim!: pays_more)
  next
    case False
    with a l AtRecordFailure x g(2) show ?thesis
      by (cases r) (auto simp: loop_step_def goto_def worker_weight_def split: if_splits elim!: pays_more)
  qed
next
  case (AtReportDone j t)
  with l show ?thesis by (auto simp: loop_step_def goto_def worker_weight_def intro: pays_more [OF pays_report_done])
next
  case (AtReportFailed j)
  with l show ?thesis by (auto simp: loop_step_def goto_def worker_weight_def intro: pays_more [OF pays_report_failed])
next
  case (AtFailedMetric j)
  with l show ?thesis by (auto simp: loop_step_def goto_def worker_weight_def intro: pays_more [OF pays_platform(5)])
next
  case (AtSchedule j)
  with l show ?thesis
    by (auto simp: loop_step_def goto_def worker_weight_def schedule_retry_def split: prod.splits intro: pays_more [OF pays_calls])
qed (use l in \<open>auto simp: loop_step_def goto_def worker_weight_def split: if_splits
  intro: pays_more [OF pays_ack] pays_more [OF pays_refl]\<close>)

lemma weight_remove:
  assumes "i < length rs"
  shows "sum_list (map retry_weight rs) = sum_list (map retry_weight (remove_nth i rs)) + retry_weight (rs ! i)"
proof -
  have "sum_list (map retry_weight rs) = sum_list (map retry_weight (take i rs @ rs ! i # drop (Suc i) rs))"
    using id_take_nth_drop [OF assms] by simp
  then show ?thesis by (simp add: remove_nth_def)
qed

lemma weight_update:
  assumes "i < length rs"
  shows "sum_list (map retry_weight (rs[i := r])) + retry_weight (rs ! i) = sum_list (map retry_weight rs) + retry_weight r"
proof -
  have "sum_list (map retry_weight rs) = sum_list (map retry_weight (take i rs @ rs ! i # drop (Suc i) rs))"
    using id_take_nth_drop [OF assms] by simp
  then show ?thesis using assms by (simp add: upd_conv_take_nth_drop)
qed

lemma retry_step_pays:
  assumes "retry_step (worker_main_deps E proc) timer i s w = Some (s', w')"
  shows "i < length (retries s)"
    "pays view ok grp m (worker_weight s' + (if requeues (retries s ! i) then 1 else 0)) (worker_weight s) w w'"
proof -
  show i: "i < length (retries s)" using assms by (simp add: retry_step_def split: if_splits)
  note u = weight_remove [OF i] weight_update [OF i]
  show "pays view ok grp m (worker_weight s' + (if requeues (retries s ! i) then 1 else 0)) (worker_weight s) w w'"
  proof (cases "retries s ! i")
    case (RetryWait j delay)
    with assms i u(1) u(2) [of "RetryRequeue j"] show ?thesis
      by (auto simp: retry_step_def retry_exit_def worker_weight_def split: if_splits intro: pays_more [OF pays_refl])
  next
    case (RetryRequeue j)
    obtain q v where x: "queue_Retry E j w = (q, v)" by fastforce
    note a = pays_pair [OF pays_retry x, of grp m]
    from a RetryRequeue assms i x u(1) u(2) [of "RetryUpdate j"] show ?thesis
      by (cases q) (auto simp: retry_step_def retry_exit_def worker_weight_def elim!: pays_more)
  next
    case (RetryUpdate j)
    with assms i u(1) show ?thesis
      by (auto simp: retry_step_def retry_exit_def worker_weight_def intro: pays_more [OF pays_repo(3)])
  qed
qed

lemma heart_step_pays:
  assumes "heart_step (worker_main_deps E proc) p tick s w = Some (s', w')"
  shows "pays view ok grp m (worker_weight s') (worker_weight s) w w'"
  using assms by (cases "heart s")
    (auto simp: heart_step_def worker_weight_def split: if_splits intro: pays_more [OF pays_refl] pays_more [OF pays_platform(3)])

lemma create_step_pays:
  assumes "create_step E pc w = (pc', w')"
  shows "pays view ok grp m (create_weight m pc') (create_weight m pc) w w'"
proof (cases pc)
  case (CreateStore e)
  obtain r v where x: "repo_Create E e w = (r, v)" by fastforce
  note a = pays_pair [OF pays_create x, of grp m]
  from a assms CreateStore x show ?thesis by (cases r) (auto elim!: pays_more)
next
  case (CreatePublish e)
  obtain r v where x: "queue_Publish E e w = (r, v)" by fastforce
  note a = pays_pair [OF pays_publish x, of grp m]
  from a assms CreatePublish x show ?thesis by (cases r) (auto elim!: pays_more)
qed (use assms in \<open>auto intro: pays_more [OF pays_refl] pays_repo(3) pays_platform(2) pays_platform(6)\<close>)

end

section \<open>Runs\<close>

text \<open>
  A step of work: a worker moves on with a job in hand, or one of its goroutines republishes an event whose
  backoff is over, or moves its row. Looking for messages, waiting and heartbeats are no work.
\<close>

fun works :: "'r sys_act \<Rightarrow> 'r system \<Rightarrow> bool" where
  "works (SysWorker i (ActLoop timer)) S =
     (i < length (sysWorkers S) \<and> job_at (loop (snd (sysWorkers S ! i))) \<noteq> None)"
| "works (SysWorker i (ActRetry k timer)) S =
     (i < length (sysWorkers S) \<and> k < length (retries (snd (sysWorkers S ! i))) \<and>
      requeues (retries (snd (sysWorkers S ! i)) ! k))"
| "works _ S = False"

fun work_done ::
  "('m, 'r) env \<Rightarrow> 'r world processor \<Rightarrow> (bytes \<Rightarrow> CreateEventRequest option) \<Rightarrow> 'r sys_act list \<Rightarrow> 'r system \<Rightarrow> nat" where
  "work_done E proc decode [] S = 0"
| "work_done E proc decode (a # as) S = (if works a S then 1 else 0) + work_done E proc decode as (sys_step E proc decode a S)"

fun is_request :: "'r sys_act \<Rightarrow> bool" where
  "is_request (SysRequest dr text) = True"
| "is_request _ = False"

definition requests :: "'r sys_act list \<Rightarrow> nat" where
  "requests as = length (filter is_request as)"

text \<open>Sweeps republish on their own account; whatever else acts on the server leaves the streams alone.\<close>

fun no_sweep :: "('r \<Rightarrow> bool) \<Rightarrow> ('r \<Rightarrow> 'm view) \<Rightarrow> 'r sys_act \<Rightarrow> bool" where
  "no_sweep ok view (SysSched tick fin) = False"
| "no_sweep ok view (SysOutside f) = neutral ok view f"
| "no_sweep ok view _ = True"

definition system_weight :: "('r \<Rightarrow> 'm view) \<Rightarrow> string \<Rightarrow> int \<Rightarrow> 'r system \<Rightarrow> nat" where
  "system_weight view grp m S = budget view grp m (sysWorld S) +
     (\<Sum>(p, s)\<leftarrow>sysWorkers S. worker_weight s) + (\<Sum>pc\<leftarrow>sysCreates S. create_weight m pc)"

definition staffed :: "('r \<Rightarrow> bool) \<Rightarrow> string \<Rightarrow> int \<Rightarrow> 'r system \<Rightarrow> bool" where
  "staffed ok grp m S \<longleftrightarrow> world_sane ok (sysWorld S) \<and> list_all (\<lambda>(p, s). w_group p = grp \<and> w_maxAttempts p = m) (sysWorkers S)"

lemma sum_list_change:
  "i < length xs \<Longrightarrow> sum_list (map f (xs[i := y])) + f (xs ! i) = sum_list (map f xs) + (f y :: nat)"
  by (induction xs arbitrary: i) (auto split: nat.split simp: nth_Cons)

lemma list_all_update: "list_all P xs \<Longrightarrow> P y \<Longrightarrow> list_all P (xs[i := y])"
  by (auto simp: list_all_iff dest: set_update_subset_insert [THEN subsetD])

lemma create_begin_weight: "create_weight m (create_begin decode dr text) \<le> 8 * (1 + nat m)"
  by (auto simp: create_begin_def accept_request_def Let_def new_event_def split: sum.split option.splits)

lemma job_steps: "job_at (loop s) \<noteq> None \<Longrightarrow> loop_step d p timer s w \<noteq> None"
  by (cases "loop s") (auto simp: loop_step_def Let_def split: prod.split option.split sum.split)

lemma requeue_steps: "k < length (retries s) \<Longrightarrow> requeues (retries s ! k) \<Longrightarrow> retry_step d timer k s w \<noteq> None"
  by (cases "retries s ! k") (auto simp: retry_step_def split: prod.split option.split)

context pipeline
begin

lemma act_step_pays:
  assumes g: "w_group p = grp" "w_maxAttempts p = m"
    and st: "act_step (worker_main_deps E proc) p (map_act (\<lambda>_. w) a) s w = (s', w')"
    and wk: "work = (case a of ActLoop t \<Rightarrow> job_at (loop s) \<noteq> None | ActRetry k t \<Rightarrow> k < length (retries s) \<and> requeues (retries s ! k) | _ \<Rightarrow> False)"
  shows "pays view ok grp m (worker_weight s' + (if work then 1 else 0)) (worker_weight s) w w'"
proof (cases a)
  case (ActLoop t)
  show ?thesis
  proof (cases "loop_step (worker_main_deps E proc) p t s w")
    case None
    with ActLoop st wk job_steps [of s "worker_main_deps E proc" p t w] show ?thesis
      by (auto simp: apply_opt_def intro: pays_more [OF pays_refl])
  next
    case (Some sw)
    with ActLoop st have "loop_step (worker_main_deps E proc) p t s w = Some (s', w')" by (simp add: apply_opt_def)
    from loop_step_pays [OF g this] ActLoop wk show ?thesis by (cases "job_at (loop s)") simp_all
  qed
next
  case (ActRetry k t)
  show ?thesis
  proof (cases "retry_step (worker_main_deps E proc) t k s w")
    case None
    with ActRetry st wk requeue_steps [of k s "worker_main_deps E proc" t w] show ?thesis
      by (auto simp: apply_opt_def intro: pays_more [OF pays_refl])
  next
    case (Some sw)
    with ActRetry st have "retry_step (worker_main_deps E proc) t k s w = Some (s', w')" by (simp add: apply_opt_def)
    from retry_step_pays(2) [OF this, of grp m] retry_step_pays(1) [OF this] ActRetry wk show ?thesis by (simp split: if_splits)
  qed
next
  case (ActHeart t)
  show ?thesis
  proof (cases "heart_step (worker_main_deps E proc) p t s w")
    case None
    with ActHeart st wk show ?thesis by (auto simp: apply_opt_def intro: pays_more [OF pays_refl])
  next
    case (Some sw)
    with ActHeart st have "heart_step (worker_main_deps E proc) p t s w = Some (s', w')" by (simp add: apply_opt_def)
    from heart_step_pays [OF this, of grp m] ActHeart wk show ?thesis by simp
  qed
qed (use st wk in \<open>auto simp: Start_def Let_def stop_begin_def stop_wake_def stop_finish_def apply_opt_def worker_weight_def
  intro: pays_more [OF pays_refl] pays_more [OF pays_platform(1)] split: if_splits option.splits\<close>)

lemma reads_pay:
  "pays view ok grp m 0 0 w (snd (HandleGetEventByID E i w))" "pays view ok grp m 0 0 w (snd (HandleListEvents E q w))"
proof -
  have g: "pays view ok grp m 0 0 w w'" if "repo_GetByID E i w = (r, w')" for i r w'
    using pays_read [of "\<lambda>flt now d. (GetByID flt i d, d)" view ok grp m w E] that by (simp add: repo_GetByID_def)
  have l: "pays view ok grp m 0 0 w w'" if "repo_List E l off w = (r, w')" for l off r w'
    using pays_read [of "\<lambda>flt now d. (ListEvents (scan_order E (wCalls w)) flt l off d, d)" view ok grp m w E] that by (simp add: repo_List_def)
  show "pays view ok grp m 0 0 w (snd (HandleGetEventByID E i w))"
    by (auto simp: HandleGetEventByID_def pays_refl dest: g split: option.split prod.split sum.split)
  show "pays view ok grp m 0 0 w (snd (HandleListEvents E q w))"
    by (auto simp: HandleListEvents_def pays_refl dest: l split: option.split prod.split sum.split)
qed

lemma sys_step_pays:
  assumes s: "staffed ok grp m S" and a: "no_sweep ok view a"
  shows "staffed ok grp m (sys_step E proc decode a S) \<and>
    system_weight view grp m (sys_step E proc decode a S) + (if works a S then 1 else 0) \<le>
      system_weight view grp m S + (if is_request a then 8 * (1 + nat m) else 0)"
proof (cases a)
  case (SysWorker i x)
  show ?thesis
  proof (cases "i < length (sysWorkers S)")
    case True
    obtain p t where pt: "sysWorkers S ! i = (p, t)" by fastforce
    have g: "w_group p = grp" "w_maxAttempts p = m" using s True pt by (auto simp: staffed_def list_all_length)
    obtain t' w' where st: "act_step (worker_main_deps E proc) p (map_act (\<lambda>_. sysWorld S) x) t (sysWorld S) = (t', w')"
      by fastforce
    have wk: "works a S = (case x of ActLoop b \<Rightarrow> job_at (loop t) \<noteq> None | ActRetry k b \<Rightarrow> k < length (retries t) \<and> requeues (retries t ! k) | _ \<Rightarrow> False)"
      using True pt SysWorker by (cases x) auto
    note p = paysD [OF act_step_pays [OF g st wk]]
    have step: "sys_step E proc decode a S = S\<lparr>sysWorld := w', sysWorkers := (sysWorkers S)[i := (p, t')]\<rparr>"
      using True pt st SysWorker by simp
    have "staffed ok grp m (sys_step E proc decode a S)"
      using s p g unfolding step by (simp add: staffed_def list_all_update)
    then show ?thesis
      using s p sum_list_change [OF True, of "\<lambda>(p, s). worker_weight s" "(p, t')"] pt SysWorker unfolding step
      by (simp add: staffed_def system_weight_def)
  next
    case False
    with SysWorker s show ?thesis by (cases x) simp_all
  qed
next
  case (SysSched tick fin)
  with a show ?thesis by simp
next
  case (SysRequest dr body)
  with s create_begin_weight [of m decode dr body] show ?thesis by (simp add: staffed_def system_weight_def)
next
  case (SysCreate i)
  show ?thesis
  proof (cases "i < length (sysCreates S)")
    case True
    obtain pc w' where st: "create_step E (sysCreates S ! i) (sysWorld S) = (pc, w')" by fastforce
    from paysD [OF create_step_pays [OF st, of grp m]] sum_list_change [OF True, of "create_weight m" pc] s True st SysCreate
    show ?thesis by (simp add: staffed_def system_weight_def)
  qed (use SysCreate s in simp)
next
  case (SysOutside f)
  with paysD [OF pays_out_only [of ok view f grp m "sysWorld S"]] a s show ?thesis by (simp add: staffed_def system_weight_def)
next
  case (SysGet idStr)
  with paysD [OF reads_pay(1) [of grp m "sysWorld S" idStr]] s show ?thesis by (simp add: staffed_def system_weight_def)
next
  case (SysList query)
  with paysD [OF reads_pay(2) [of grp m "sysWorld S" query]] s show ?thesis by (simp add: staffed_def system_weight_def)
qed

lemma run_pays:
  "staffed ok grp m S \<Longrightarrow> list_all (no_sweep ok view) as \<Longrightarrow>
   work_done E proc decode as S \<le> system_weight view grp m S + 8 * (1 + nat m) * requests as"
proof (induction as arbitrary: S)
  case (Cons a as)
  have a: "no_sweep ok view a" using Cons.prems(2) by simp
  note st = sys_step_pays [OF Cons.prems(1) a, of decode]
  with Cons.IH [of "sys_step E proc decode a S"] Cons.prems(2) show ?case
    by (auto simp: requests_def algebra_simps)
qed (simp add: requests_def)

end

section \<open>The property\<close>

text \<open>
  C3 Workers never run in circles. In every run without sweeps, with any number of workers and requests
  interleaved call by call and whatever fails in database and server, the steps the workers and their
  goroutines spend on jobs are together at most eight for every message that waits, every attempt an event
  has left, and, for every request that comes in, its message and its attempts: duplicates, refused claims,
  failures and republications included. Afterwards they only look for messages.
\<close>

theorem work_is_bounded:
  assumes "redis_streams (client E) view ok" and "neutral_platform ok view (plat E)" and "neutral_processor ok view proc"
    and "world_sane ok w" and "list_all (\<lambda>(p, s). s = NewWorker \<and> w_group p = grp \<and> w_maxAttempts p = m) ws"
    and "list_all (no_sweep ok view) as"
  shows "work_done E proc decode as (start_system w ws) \<le>
    8 * (backlog (view (wOut w)) grp + attempts_left m (wDB w) + requests as * (1 + nat m))"
proof -
  have "pipeline E view ok proc" using assms(1-3) by (rule pipeline.intro)
  moreover have "staffed ok grp m (start_system w ws)"
    using assms(4,5) by (auto simp: staffed_def start_system_def list_all_iff)
  ultimately have "work_done E proc decode as (start_system w ws) \<le>
      system_weight view grp m (start_system w ws) + 8 * (1 + nat m) * requests as"
    using assms(6) by (intro pipeline.run_pays)
  moreover have "(\<Sum>(p, s)\<leftarrow>ws. worker_weight s) = 0"
    using assms(5) by (auto simp: list_all_iff worker_weight_def NewWorker_def)
  ultimately show ?thesis by (simp add: system_weight_def budget_def start_system_def algebra_simps)
qed

theorem work_is_bounded_witness:
  "work_done mem_env main_processor decode_request
     (SysRequest sample_draw sample_body # replicate 5 (SysCreate 0) @ SysWorker 0 ActStart # replicate 500 (SysWorker 0 (ActLoop True)))
     (start_system \<lparr>wDB = empty_db, wOut = mem_groups, wCalls = 0\<rparr> [(quiet_worker\<lparr>w_group := ''workers''\<rparr>, NewWorker)]) \<le> 32"
proof -
  let ?as = "SysRequest sample_draw sample_body # replicate 5 (SysCreate 0) @ SysWorker 0 ActStart # replicate 500 (SysWorker 0 (ActLoop True))"
    and ?w = "\<lparr>wDB = empty_db, wOut = mem_groups, wCalls = 0\<rparr>" and ?ws = "[(quiet_worker\<lparr>w_group := ''workers''\<rparr>, NewWorker)]"
  have w: "world_sane mem_ok ?w"
    by (simp add: world_sane_def mem_groups_ok empty_db_def wf_db_def finalized_ok_def idem_row_def row_select_def unique_key_def)
  have ws: "list_all (\<lambda>(p, s). s = NewWorker \<and> w_group p = ''workers'' \<and> w_maxAttempts p = 3) ?ws" by (simp add: quiet_worker_def)
  have as: "list_all (no_sweep mem_ok mem_view) ?as" by (simp add: list_all_iff)
  have n: "requests ?as = 1" by (simp add: requests_def filter_replicate)
  have b: "backlog (mem_view (wOut ?w)) ''workers'' = 0" by (simp add: backlog_def mem_groups_eq mem_unfold)
  have "event_row empty_db i = None" for i by (simp add: empty_db_def event_row_def row_select_def)
  then have l: "attempts_left 3 (wDB ?w) = 0" by (simp add: attempts_left_def fun_eq_iff)
  from work_is_bounded [OF mem_pipeline.streams mem_pipeline.platform mem_pipeline.processing w ws as, of decode_request]
  show ?thesis unfolding n b l by simp
qed

end
