(* ===== verification/Keepalive.thy ===== *)
theory Keepalive
  imports Hub
begin

text \<open>
  The deadlines of \<open>internal/websocket/client.go\<close>: one connection with its two pumps and a clock. Time passes
  in steps of its own and never over the moment at which a timer of the connection is due: a read fails at
  its deadline, a write at its own, and the ticker fires when its period is over. How long everything else
  takes is open: a tick may wait while the pump writes messages, a ping may take its time to be written, and
  an answer may come late. A turn of a pump of \<open>Hub\<close> that writes is two steps here, its begin and its end.
\<close>

section \<open>Constants\<close>

text \<open>In nanoseconds.\<close>

definition second :: int where
  "second = 1000000000"

definition writeWait :: int where
  "writeWait = 10 * second"

definition pongWait :: int where
  "pongWait = 60 * second"

definition pingPeriod :: int where
  "pingPeriod = (pongWait * 9) div 10"

definition maxMessageSize :: nat where
  "maxMessageSize = 512"

lemma keepalive_constants:
  "second = 1000000000" "writeWait = 10000000000" "pongWait = 60000000000" "pingPeriod = 54000000000"
  by (simp_all add: second_def writeWait_def pongWait_def pingPeriod_def)

section \<open>State\<close>

text \<open>
  \<open>kaTick\<close> is the channel of the ticker, which holds one tick and drops the others, \<open>kaWrite\<close> the frame that is
  being written, with the deadline of the write. \<open>kaOwed\<close> is a history: the times of the ticks since which
  nothing was heard from the peer.
\<close>

record keepalive =
  kaNow :: int
  kaReadBy :: int
  kaTickAt :: int
  kaTick :: bool
  kaWrite :: "(frame \<times> int) option"
  kaOwed :: "int list"
  kaClient :: ws_client

text \<open>\<open>WritePump\<close> has made its ticker at \<open>t1\<close> and \<open>ReadPump\<close> has set its first deadline at \<open>t0\<close>.\<close>

definition start_pumps :: "int \<Rightarrow> int \<Rightarrow> keepalive" where
  "start_pumps t1 t0 =
     \<lparr>kaNow = t0, kaReadBy = t0 + pongWait, kaTickAt = t1 + pingPeriod, kaTick = False, kaWrite = None, kaOwed = [],
      kaClient = NewClient\<rparr>"

definition set_read_deadline :: "keepalive \<Rightarrow> keepalive" where
  "set_read_deadline K = K\<lparr>kaReadBy := kaNow K + pongWait, kaOwed := []\<rparr>"

section \<open>Steps\<close>

datatype ka_act =
    KaPass int
  | KaTick
  | KaPing
  | KaSend bytes
  | KaClose
  | KaWrite
  | KaWritten bool
  | KaPong
  | KaMessage nat
  | KaReadError

text \<open>
  The hub sends and closes by \<open>KaSend\<close> and \<open>KaClose\<close>. \<open>KaPing\<close> and \<open>KaWrite\<close> are the branches of the select of
  \<open>WritePump\<close> for the ticker and the channel, up to the call that writes, \<open>KaWritten\<close> is its return. \<open>KaPong\<close> is
  the pong handler, which runs inside of \<open>ReadMessage\<close>; \<open>KaMessage\<close> a message of \<open>n\<close> bytes, which \<open>ReadMessage\<close>
  returns unless it is over the limit; \<open>KaReadError\<close> the end of the deadline or of the connection.
\<close>

definition may_pass :: "int \<Rightarrow> keepalive \<Rightarrow> bool" where
  "may_pass d K \<longleftrightarrow> 0 \<le> d \<and> (reader (kaClient K) = ReadLoop \<longrightarrow> kaNow K + d \<le> kaReadBy K) \<and>
     (writer (kaClient K) = WriteLoop \<longrightarrow> kaNow K + d \<le> kaTickAt K) \<and>
     (case kaWrite K of None \<Rightarrow> True | Some (f, b) \<Rightarrow> kaNow K + d \<le> b)"

definition can_hear :: "keepalive \<Rightarrow> bool" where
  "can_hear K \<longleftrightarrow> reader (kaClient K) = ReadLoop \<and> connOpen (kaClient K) \<and> kaNow K < kaReadBy K"

definition pump_free :: "keepalive \<Rightarrow> bool" where
  "pump_free K \<longleftrightarrow> writer (kaClient K) = WriteLoop \<and> kaWrite K = None"

text \<open>What \<open>hub_send\<close> does to the client: a full channel is closed.\<close>

definition client_send :: "bytes \<Rightarrow> ws_client \<Rightarrow> ws_client" where
  "client_send msg cl =
     (if sendClosed cl then cl
      else if length (sendBuf cl) < sendCap then cl\<lparr>sendBuf := sendBuf cl @ [msg], accepted := accepted cl @ [msg]\<rparr>
      else cl\<lparr>sendClosed := True\<rparr>)"

definition written :: "frame \<Rightarrow> bool \<Rightarrow> ws_client \<Rightarrow> ws_client" where
  "written f ok cl =
     (if f = CloseFrame then leave_write (cl\<lparr>frames := frames cl @ [f]\<rparr>)
      else if ok \<and> connOpen cl then cl\<lparr>frames := frames cl @ [f]\<rparr>
      else leave_write cl)"

fun ka_step :: "ka_act \<Rightarrow> keepalive \<Rightarrow> keepalive" where
  "ka_step (KaPass d) K = (if may_pass d K then K\<lparr>kaNow := kaNow K + d\<rparr> else K)"
| "ka_step KaTick K =
     (if writer (kaClient K) = WriteLoop \<and> kaNow K = kaTickAt K
      then K\<lparr>kaTick := True, kaTickAt := kaTickAt K + pingPeriod, kaOwed := kaOwed K @ [kaTickAt K]\<rparr> else K)"
| "ka_step KaPing K =
     (if pump_free K \<and> kaTick K then K\<lparr>kaTick := False, kaWrite := Some (PingFrame, kaNow K + writeWait)\<rparr> else K)"
| "ka_step (KaSend msg) K = K\<lparr>kaClient := client_send msg (kaClient K)\<rparr>"
| "ka_step KaClose K = K\<lparr>kaClient := (kaClient K)\<lparr>sendClosed := True\<rparr>\<rparr>"
| "ka_step KaWrite K =
     (if \<not> pump_free K then K
      else case sendBuf (kaClient K) of
        [] \<Rightarrow> if sendClosed (kaClient K) then K\<lparr>kaWrite := Some (CloseFrame, kaNow K + writeWait)\<rparr> else K
      | message # queued \<Rightarrow>
          K\<lparr>kaClient := (kaClient K)\<lparr>sendBuf := []\<rparr>,
            kaWrite := Some (TextFrame (join_lines (message # queued)), kaNow K + writeWait)\<rparr>)"
| "ka_step (KaWritten ok) K =
     (case kaWrite K of
        None \<Rightarrow> K
      | Some (f, b) \<Rightarrow> K\<lparr>kaWrite := None, kaClient := written f (ok \<and> kaNow K < b) (kaClient K)\<rparr>)"
| "ka_step KaPong K = (if can_hear K then set_read_deadline K else K)"
| "ka_step (KaMessage n) K =
     (if can_hear K \<and> n \<le> maxMessageSize then set_read_deadline (K\<lparr>kaClient := read_turn True (kaClient K)\<rparr>)
      else K\<lparr>kaClient := read_turn False (kaClient K)\<rparr>)"
| "ka_step KaReadError K =
     (if kaReadBy K \<le> kaNow K \<or> \<not> connOpen (kaClient K) then K\<lparr>kaClient := read_turn False (kaClient K)\<rparr> else K)"

text \<open>Begin and end of a write that succeeds are a turn of the pump of \<open>Hub\<close>.\<close>

lemma turns_of_the_pump:
  assumes "pump_free K" and "connOpen (kaClient K)"
  shows "kaClient (ka_step (KaWritten True) (ka_step KaWrite K)) = write_turn True True (kaClient K)"
    "kaTick K \<Longrightarrow> kaClient (ka_step (KaWritten True) (ka_step KaPing K)) = ping_turn True (kaClient K)"
proof -
  have p: "writer (kaClient K) = WriteLoop" "kaWrite K = None" using assms(1) by (simp_all add: pump_free_def)
  then show "kaClient (ka_step (KaWritten True) (ka_step KaWrite K)) = write_turn True True (kaClient K)"
    using assms(2) by (cases "sendBuf (kaClient K)")
      (simp_all add: pump_free_def write_turn_def written_def writeWait_def second_def)
  show "kaTick K \<Longrightarrow> kaClient (ka_step (KaWritten True) (ka_step KaPing K)) = ping_turn True (kaClient K)"
    using p assms(2) by (simp add: pump_free_def ping_turn_def written_def writeWait_def second_def)
qed

fun run_ka :: "ka_act list \<Rightarrow> keepalive \<Rightarrow> keepalive" where
  "run_ka [] K = K"
| "run_ka (a # as) K = run_ka as (ka_step a K)"

section \<open>Peers\<close>

text \<open>
  A peer that keeps the connection: something is heard from it before the difference of the two periods is
  over after every tick, its messages are within the limit, and it takes what is written in time, so that
  its channel never fills up and the hub does not drop it.
\<close>

definition keeps_up :: "ka_act \<Rightarrow> keepalive \<Rightarrow> bool" where
  "keeps_up a K \<longleftrightarrow>
     (case a of
        KaPass d \<Rightarrow>
          list_all (\<lambda>t. kaNow K + d < t + (pongWait - pingPeriod)) (kaOwed K) \<and>
          (case kaWrite K of None \<Rightarrow> True | Some (f, b) \<Rightarrow> kaNow K + d < b)
      | KaSend msg \<Rightarrow> length (sendBuf (kaClient K)) < sendCap
      | KaClose \<Rightarrow> False
      | KaWritten ok \<Rightarrow> ok
      | KaMessage n \<Rightarrow> n \<le> maxMessageSize
      | _ \<Rightarrow> True)"

fun lively :: "ka_act list \<Rightarrow> keepalive \<Rightarrow> bool" where
  "lively [] K = True"
| "lively (a # as) K = (keeps_up a K \<and> lively as (ka_step a K))"

definition silent :: "ka_act \<Rightarrow> bool" where
  "silent a = (case a of KaPong \<Rightarrow> False | KaMessage n \<Rightarrow> False | _ \<Rightarrow> True)"

section \<open>Invariants\<close>

definition kept :: "keepalive \<Rightarrow> bool" where
  "kept K \<longleftrightarrow> reader (kaClient K) = ReadLoop \<and> writer (kaClient K) = WriteLoop \<and> connOpen (kaClient K) \<and>
     \<not> sendClosed (kaClient K) \<and> kaNow K < kaReadBy K \<and> kaNow K \<le> kaTickAt K \<and> kaTickAt K \<le> kaNow K + pingPeriod \<and>
     (case kaWrite K of None \<Rightarrow> True | Some (f, b) \<Rightarrow> f \<noteq> CloseFrame \<and> kaNow K < b) \<and>
     (kaOwed K = [] \<and> kaTickAt K + (pongWait - pingPeriod) \<le> kaReadBy K \<or>
      (\<exists>t. kaOwed K = [t] \<and> kaTickAt K = t + pingPeriod \<and> t \<le> kaNow K \<and> kaNow K < t + (pongWait - pingPeriod) \<and>
         t + (pongWait - pingPeriod) \<le> kaReadBy K))"

lemma start_kept: "t1 \<le> t0 \<Longrightarrow> t0 \<le> t1 + pingPeriod \<Longrightarrow> kept (start_pumps t1 t0)"
  by (simp add: kept_def start_pumps_def NewClient_def keepalive_constants)

lemma kept_heard: "kept K \<Longrightarrow> kept (set_read_deadline K)"
  by (cases "kaWrite K") (simp_all add: kept_def set_read_deadline_def keepalive_constants)

lemma kept_same_client:
  "kept K \<Longrightarrow> reader c = ReadLoop \<Longrightarrow> writer c = WriteLoop \<Longrightarrow> connOpen c \<Longrightarrow> \<not> sendClosed c \<Longrightarrow> kept (K\<lparr>kaClient := c\<rparr>)"
  by (cases "kaWrite K") (simp_all add: kept_def)

lemma ka_step_kept:
  assumes "kept K" and "keeps_up a K"
  shows "kept (ka_step a K)"
proof (cases a)
  case (KaPass d)
  with assms show ?thesis by (auto simp: kept_def keeps_up_def may_pass_def keepalive_constants split: option.splits)
next
  case KaTick
  with assms(1) show ?thesis by (auto simp: kept_def keepalive_constants split: option.splits)
next
  case KaPing
  with assms(1) show ?thesis by (auto simp: kept_def keepalive_constants)
next
  case (KaSend msg)
  have "kept (K\<lparr>kaClient := client_send msg (kaClient K)\<rparr>)"
    by (rule kept_same_client) (use assms KaSend in \<open>simp_all add: keeps_up_def client_send_def kept_def\<close>)
  with KaSend show ?thesis by simp
next
  case KaWrite
  with assms(1) show ?thesis by (auto simp: kept_def keepalive_constants split: list.split)
next
  case (KaWritten ok)
  with assms show ?thesis by (auto simp: kept_def keeps_up_def written_def split: option.splits)
next
  case (KaMessage n)
  have "can_hear K" using assms(1) by (simp add: kept_def can_hear_def)
  moreover have "kept (K\<lparr>kaClient := read_turn True (kaClient K)\<rparr>)"
    using assms(1) by (intro kept_same_client) (simp_all add: read_turn_def kept_def)
  ultimately show ?thesis using KaMessage assms(2) kept_heard by (simp add: keeps_up_def)
next
  case KaPong
  with assms(1) kept_heard show ?thesis by simp
next
  case KaReadError
  with assms(1) show ?thesis by (simp add: kept_def)
qed (use assms in \<open>simp add: keeps_up_def\<close>)

lemma run_kept: "kept K \<Longrightarrow> lively as K \<Longrightarrow> kept (run_ka as K)"
  using ka_step_kept by (induction as arbitrary: K) auto

text \<open>The deadline is never further away than a fresh one, and the reader does not outlive it.\<close>

definition watched :: "keepalive \<Rightarrow> bool" where
  "watched K \<longleftrightarrow> kaReadBy K \<le> kaNow K + pongWait \<and> (reader (kaClient K) = ReadLoop \<longrightarrow> kaNow K \<le> kaReadBy K)"

lemma read_turn_reader [simp]:
  "reader (read_turn ok c) = ReadLoop \<longleftrightarrow> reader c = ReadLoop \<and> ok \<and> connOpen c" "reader (written f ok c) = reader c"
  "reader (client_send m c) = reader c"
  by (simp_all add: read_turn_def written_def client_send_def leave_write_def)

lemma ka_step_watched: "watched K \<Longrightarrow> watched (ka_step a K)"
  by (cases a) (auto simp: watched_def may_pass_def can_hear_def set_read_deadline_def keepalive_constants split: option.split list.split)

lemma run_watched: "watched K \<Longrightarrow> watched (run_ka as K)"
  using ka_step_watched by (induction as arbitrary: K) auto

lemma silent_step:
  "silent a \<Longrightarrow> kaReadBy (ka_step a K) = kaReadBy K \<and> (reader (kaClient (ka_step a K)) = ReadLoop \<longrightarrow> reader (kaClient K) = ReadLoop)"
  by (cases a) (auto simp: silent_def split: option.split list.split)

lemma silent_run: "list_all silent as \<Longrightarrow> kaReadBy (run_ka as K) = kaReadBy K"
  using silent_step by (induction as arbitrary: K) auto

section \<open>The property\<close>

text \<open>
  C33 The read deadline of 60 seconds and the pings every 54 keep exactly the peers that answer. As long as
  something is heard from the peer within six seconds of every tick, its messages are within the limit and
  it takes what is written, both pumps run, however late pings go out within that time and however many
  messages are written in between; six seconds sharp is too late. And from any moment on which nothing more is heard, the connection is read for at most 60
  seconds: later moments are reached only by a \<open>ReadPump\<close> that has left its loop, to unregister its client.
\<close>

theorem keepalive_bounds:
  assumes "t1 \<le> t0" and "t0 \<le> t1 + pingPeriod"
  shows "(lively as (start_pumps t1 t0) \<longrightarrow>
      reader (kaClient (run_ka as (start_pumps t1 t0))) = ReadLoop \<and> writer (kaClient (run_ka as (start_pumps t1 t0))) = WriteLoop) \<and>
    (list_all silent bs \<longrightarrow> reader (kaClient (run_ka bs (run_ka as (start_pumps t1 t0)))) = ReadLoop \<longrightarrow>
      kaNow (run_ka bs (run_ka as (start_pumps t1 t0))) \<le> kaNow (run_ka as (start_pumps t1 t0)) + pongWait) \<and>
    reader (kaClient (run_ka [KaPass (54 * second), KaTick, KaPing, KaWritten True, KaPass (6 * second), KaPong, KaReadError]
      (start_pumps t0 t0))) = ReadLeave"
proof (intro conjI impI)
  let ?K = "run_ka as (start_pumps t1 t0)"
  assume l: "lively as (start_pumps t1 t0)"
  from run_kept [OF start_kept [OF assms] l]
  show "reader (kaClient ?K) = ReadLoop" "writer (kaClient ?K) = WriteLoop" by (simp_all add: kept_def)
next
  let ?K = "run_ka as (start_pumps t1 t0)"
  assume s: "list_all silent bs" and r: "reader (kaClient (run_ka bs ?K)) = ReadLoop"
  have "watched (start_pumps t1 t0)" by (simp add: watched_def start_pumps_def keepalive_constants)
  then have "watched ?K" "watched (run_ka bs ?K)" by (intro run_watched, assumption)+
  then show "kaNow (run_ka bs ?K) \<le> kaNow ?K + pongWait" using silent_run [OF s, of ?K] r by (simp add: watched_def)
next
  show "reader (kaClient (run_ka [KaPass (54 * second), KaTick, KaPing, KaWritten True, KaPass (6 * second), KaPong, KaReadError]
      (start_pumps t0 t0))) = ReadLeave"
    by (simp add: start_pumps_def NewClient_def keepalive_constants may_pass_def pump_free_def written_def can_hear_def read_turn_def)
qed

theorem keepalive_bounds_witness:
  "reader (kaClient (run_ka [KaPass (54 * second), KaTick, KaPass second, KaPing, KaWritten True, KaPass (4 * second), KaPong]
     (start_pumps 0 0))) = ReadLoop \<and>
   kaNow (run_ka [KaPass (50 * second), KaPass (20 * second)] (run_ka [] (start_pumps 0 0))) \<le> 60 * second"
proof -
  let ?as = "[KaPass (54 * second), KaTick, KaPass second, KaPing, KaWritten True, KaPass (4 * second), KaPong]"
    and ?bs = "[KaPass (50 * second), KaPass (20 * second)]"
  have p: "(0::int) \<le> 0" "(0::int) \<le> 0 + pingPeriod" by (simp_all add: keepalive_constants)
  have l: "lively ?as (start_pumps 0 0)"
    by (simp add: start_pumps_def NewClient_def keepalive_constants may_pass_def pump_free_def written_def keeps_up_def)
  have s: "list_all silent ?bs" by (simp add: silent_def)
  have r: "reader (kaClient (run_ka ?bs (run_ka [] (start_pumps 0 0)))) = ReadLoop"
    by (simp add: start_pumps_def NewClient_def keepalive_constants may_pass_def)
  from keepalive_bounds [OF p, of ?as "[]"] l
  have 1: "reader (kaClient (run_ka ?as (start_pumps 0 0))) = ReadLoop" by blast
  from keepalive_bounds [OF p, of "[]" ?bs] s r
  have "kaNow (run_ka ?bs (run_ka [] (start_pumps 0 0))) \<le> kaNow (run_ka [] (start_pumps 0 0)) + pongWait" by blast
  moreover have "kaNow (run_ka [] (start_pumps 0 0)) + pongWait = 60 * second" by (simp add: start_pumps_def keepalive_constants)
  ultimately show ?thesis using 1 by metis
qed

end
