(* ===== verification/Spec2Isabelle.thy ===== *)
theory Spec2Isabelle
  imports StoreProps QueueProps Config PoolProps SchedulerProps Relay SystemProps LostEvent Accepted ResponseBytes
    MessageProps ApiProcess Workload Keepalive
begin

text \<open>
  StreamForge accepts events over HTTP, stores them in PostgreSQL, hands them to workers over Redis
  streams, retries failures, recovers events whose worker died, and shows all of it on dashboards over
  websockets. The backend under \<open>src/backend\<close> is modelled here in Isabelle/HOL.

  The life of an event. \<open>POST /api/v1/events\<close> (\<open>api/handler.go\<close>) validates it, stores it as \<open>RECEIVED\<close>,
  publishes it to the stream of its priority and moves the row to \<open>QUEUED\<close>. A worker (\<open>worker/worker.go\<close>)
  consumes the message, claims the row (\<open>PROCESSING\<close>), runs the processor of its type and either finalizes
  the event (\<open>COMPLETED\<close>, with an idempotency record) or records a failure, which makes it \<open>RETRYING\<close>,
  with a goroutine that republishes it after a backoff, or, at the bound of three attempts, \<open>FAILED\<close>. The
  scheduler (\<open>scheduler/scheduler.go\<close>) sweeps every 30 seconds over stale \<open>PROCESSING\<close> and \<open>RETRYING\<close>
  rows and republishes them. Messages about all this go over Redis to the hub (\<open>websocket/hub.go\<close>).

  Theories and the code they model:
  \<^item> \<open>Prelude\<close>, \<open>GoLib\<close>, \<open>Double\<close>, \<open>Json\<close>: what the code uses of Go itself: \<open>strconv\<close>, \<open>%q\<close>, 64-bit
    durations as \<open>64 word\<close>, the rounding of IEEE doubles as rationals, and the scanner of \<open>encoding/json\<close>.
    \<open>JsonText\<close>, \<open>JsonEncode\<close>: its decoder and encoder on bytes: strings, runes, escapes, members of objects,
    compaction. \<open>GoTime\<close>: the calendar and the RFC 3339 text of a time, written and parsed.
  \<^item> \<open>Event\<close>: \<open>event/*.go\<close>: the record, the state machine, validation. \<open>EventCodec\<close>: an event as
    \<open>json.Marshal\<close> writes it in \<open>Publish\<close> and \<open>json.Unmarshal\<close> reads it in \<open>Consume\<close>.
  \<^item> \<open>Config\<close>: \<open>config/config.go\<close>, the environment being a partial function.
  \<^item> \<open>Table\<close>, \<open>Store\<close>, \<open>StoreRules\<close>, \<open>StoreRuns\<close>, \<open>StoreProps\<close>: \<open>store/postgres/*.go\<close> and \<open>schema.sql\<close>.
    A table is a list of rows with a unique key. Every statement of a transaction can fail, and the commit
    can fail before or after it took effect (\<open>faults\<close>); a transaction takes effect at one moment, which
    its row lock justifies. \<open>StoreRuns\<close> holds the abstract repository of guarded moves.
  \<^item> \<open>Queue\<close>, \<open>QueueRules\<close>, \<open>RedisModel\<close>, \<open>QueueProps\<close>: \<open>queue/redis/queue.go\<close>. The server is a parameter;
    the locale \<open>redis_streams\<close> states what its documentation promises of streams and consumer groups, and
    \<open>RedisModel\<close> is a server that keeps these laws, on which the locale is interpreted.
  \<^item> \<open>Registry\<close>: \<open>processor/*.go\<close> and the registrations in \<open>cmd/worker/main.go\<close>. \<open>Backoff\<close>: \<open>worker/backoff.go\<close>.
  \<^item> \<open>Worker\<close>, \<open>WorkerSteps\<close>, \<open>WorkerProps\<close>, \<open>WorkerSafety\<close>: \<open>worker/worker.go\<close>. \<open>handle_job\<close> and
    \<open>handleFailure\<close> are the body of the loop read from top to bottom over the interfaces of the code
    (\<open>worker_deps\<close>); \<open>loop_step\<close>, \<open>heart_step\<close> and \<open>retry_step\<close> are the same code one call at a time, with
    the wait group, the status and the contexts, so that runs are interleavings.
  \<^item> \<open>Pool\<close>, \<open>PoolProps\<close>: \<open>worker/pool.go\<close>, over any number of workers.
  \<^item> \<open>World\<close>: the wiring: one database, one Redis server and the collectors, with \<open>worker/heartbeat.go\<close> and
    \<open>worker/broadcaster.go\<close>. \<open>env\<close> gives each call its faults, clock reading and random number. \<open>Pipeline\<close>
    and \<open>JobProps\<close> prove the laws of the worker's interfaces for these calls.
  \<^item> \<open>Scheduler\<close>, \<open>SchedulerProps\<close>: \<open>scheduler/scheduler.go\<close>, as whole sweeps and call by call.
  \<^item> \<open>Api\<close>, \<open>ApiProps\<close>: \<open>api/*.go\<close> and the probes of \<open>cmd/api/main.go\<close>, creation also call by call.
    \<open>Decode\<close>: the decoder on the bodies of requests. \<open>ResponseBytes\<close>: the bytes of the responses. \<open>Routes\<close>: the
    route table of \<open>cmd/api/main.go\<close> and the dispatch of \<open>http.ServeMux\<close>, so that \<open>serve_http\<close> is the HTTP
    interface.
  \<^item> \<open>Keepalive\<close>: the deadlines and pings of \<open>websocket/client.go\<close>, a connection with a clock.
  \<^item> \<open>Messages\<close>, \<open>MessageProps\<close>: \<open>websocket/types.go\<close>: the messages for the dashboards and their JSON, against
    the texts the worker pastes together.
  \<^item> \<open>Hub\<close>, \<open>HubProps\<close>, \<open>Relay\<close>: \<open>websocket/*.go\<close>: hub, read pumps and write pumps interleaved, and with
    them \<open>listenRedis\<close>; a send on a closed channel and a second close are the value \<open>None\<close>.
  \<^item> \<open>Boot\<close>: the \<open>main\<close> functions under \<open>cmd\<close> and \<open>store/postgres/postgres.go\<close>: starting up with every answer
    the drivers may give, the exit codes, and the worker process from the start of its pool to its end.
    \<open>ApiProcess\<close>: the API process after that: its server, the requests in their handlers, the signal and the
    graceful shutdown.
  \<^item> \<open>Metrics\<close>, \<open>MetricsProps\<close>: \<open>metrics/metrics.go\<close>: the collectors, and what the three counters count.
    \<open>Workload\<close>: how many steps workers can spend on jobs at all.
  \<^item> \<open>System\<close>, \<open>SystemProps\<close>, \<open>LostEvent\<close>: workers, scheduler and requests over one world, call by call.
  \<^item> \<open>Delivery\<close>, \<open>Accepted\<close>: the whole way of one event, from the bytes of a request over the bytes of the
    stream to the settled row.
\<close>

text \<open>
  What the lemmas show. The interfaces are locales, each interpreted on the model's own definitions:
  \<open>redis_streams\<close> (laws of the server, on \<open>RedisModel\<close>), \<open>job_services\<close> (what the worker needs of database
  and queue, by \<open>sublocale\<close> from \<open>pipeline\<close>), \<open>recovery_services\<close> (the scheduler's, on a server that stores events and on one that stores bytes), \<open>worker_calls\<close> and
  \<open>system_calls\<close> (invariants of all calls), \<open>calm_pipeline\<close> (no faults), \<open>id_pipeline\<close> (the codec keeps ids),
  \<open>wire_pipeline\<close> (no faults and the codec of \<open>EventCodec\<close>, interpreted on a server that stores bytes).
  Safety is proved for all interleavings and all faults: the lifecycle, one winner of every claim, one
  finalization, bounded attempts, no event given up before it is settled. Progress is proved where the
  code has it: an accepted request is settled by a worker, a consumed job settles, all workers together do a
  bounded amount of work, a cancelled worker ends after carrying a claimed job to its outcome, \<open>Pool.Stop\<close> and the API process can always finish,
  \<open>Consume\<close> ends. Two theorems are about events the code does not get back: \<open>lost_event_stays_lost\<close>, for a
  message consumed before the row left \<open>RECEIVED\<close>, or given up when \<open>AssignEvent\<close> fails during a shutdown, and
  \<open>orphan_never_recovered\<close>, for the worker names of the pool.

  Bounds. The body of the job loop takes at most 12 steps (\<open>run_body\<close>), a shutdown at most 11 of the loop;
  both are enough on every branch by \<open>run_job\<close> and \<open>loop_measure\<close>. An attempt with its retry takes a worker
  at most 17 steps (\<open>rounds_settle\<close>), a handler of the API at most 6 (\<open>run_handler_serves\<close>), and a message or
  an attempt that is left pays for at most 8 steps with a job in hand (\<open>run_pays\<close>). \<open>run_sched\<close> carries fuel,
  and some fuel always suffices by \<open>sched_steps_sweep\<close>. \<open>Consume\<close> is a \<open>partial_function\<close> because it polls for ever on
  empty streams; \<open>consume_ends\<close> says when it returns. Statements about durations in nanoseconds are exact
  below \<open>2^53\<close>, where doubles are.

  Most theorems on the API hold for every decoder of bodies, an argument \<open>decode\<close>; those about bytes and all
  witnesses take \<open>decode_request\<close>. In the same way the worker and the queue are proved for every codec of
  messages, \<open>json_Marshal\<close> and \<open>json_Unmarshal\<close> of \<open>env\<close>; \<open>accepted_event_settles\<close> and
  \<open>posted_event_is_read_back\<close> are about the one of \<open>EventCodec\<close>. The text of a UUID and its parser are parameters with the law that a text is parsed back.

  Times and columns. A clock reading is in nanoseconds, a \<open>TIMESTAMP WITH TIME ZONE\<close> in microseconds: what is
  stored is \<open>timestamptz\<close> of it (\<open>Store\<close>), as is the cutoff of the scheduler's query, while a message keeps
  the nanoseconds. \<open>event_columns\<close> checks an event against the types of its columns when it is stored. Each
  query scans the rows in an order of its own, \<open>scan_order\<close> of \<open>env\<close> at that call, which is what makes pages
  with equal creation times unreliable (\<open>list_pages\<close>).

  Simplifications. A goroutine that only publishes one message runs at once. Log lines are left out, and
  so are messages of errors that are only logged. A timer is a choice of the environment, except in
  \<open>Keepalive\<close>, where a clock runs and the deadlines of a connection are met on time. Panics of \<open>Hub\<close>
  are modelled, running out of memory is not, nor is the panic of \<open>time.NewTicker\<close> in the heartbeat when a
  setting has overflowed to a negative interval (\<open>duration_setting\<close>): the workers are those of a positive one.
  \<open>pool_stop_returned\<close> is about the call of \<open>Pool.Stop\<close> that stops the workers; a second call meanwhile returns
  at once, which changes nothing (\<open>pool_stop\<close>). \<open>%q\<close> keeps bytes beyond ASCII as they are.

  Not modelled: the sockets of the HTTP servers, the page of the collectors and the second HTTP server of the
  worker process that serves it; the websocket protocol, except for its frames; the dashboard under
  \<open>src/frontend\<close>, which is in another language; and the mocks the tests use.
\<close>

end
